(* ===== verification/Ferryman_Prelude.thy ===== *)
theory Ferryman_Prelude
  imports Main "HOL-Library.Word" "HOL-Library.Sublist" "HOL-Library.Code_Target_Nat"
begin

text \<open>
  What the components share: the machine integers and durations of the Rust sources, the ASCII
  classification of bytes, the string operations of the standard library the sources call
  (\<open>split\<close>, \<open>join\<close>, \<open>trim\<close>, \<open>strip_prefix\<close>), well-formed UTF-8, and the error type of
  \<open>crates/core/src/error.rs\<close>.

  A Rust \<open>&str\<close> or \<open>&[u8]\<close> is the list of its bytes, a \<^typ>\<open>string\<close>; the bytes of a
  \<open>&str\<close> are well-formed UTF-8 (\<open>utf8_valid\<close>), which is a hypothesis where it matters.
\<close>

unbundle bit_operations_syntax

named_theorems ascii_defs "classification of bytes"

section \<open>Machine integers and durations\<close>

type_synonym u8 = "8 word"
type_synonym u16 = "16 word"
type_synonym u32 = "32 word"
type_synonym u64 = "64 word"
type_synonym u128 = "128 word"

abbreviation u64_max :: u64 where
  "u64_max \<equiv> - 1"

text \<open>A \<open>std::time::Duration\<close>, in nanoseconds.\<close>

type_synonym duration = nat

definition from_secs :: "nat \<Rightarrow> duration" where
  "from_secs s = s * 1000000000"

definition from_millis :: "nat \<Rightarrow> duration" where
  "from_millis ms = ms * 1000000"

definition as_secs :: "duration \<Rightarrow> nat" where
  "as_secs d = d div 1000000000"

definition as_millis :: "duration \<Rightarrow> nat" where
  "as_millis d = d div 1000000"

text \<open>\<open>u64::saturating_sub\<close>.\<close>

definition saturating_sub :: "u64 \<Rightarrow> u64 \<Rightarrow> u64" where
  "saturating_sub a b = (if a < b then 0 else a - b)"

lemma as_secs_from_secs [simp]: "as_secs (from_secs n) = n"
  by (simp add: as_secs_def from_secs_def)

lemma as_millis_from_secs: "as_millis (from_secs n) = n * 1000"
  by (simp add: as_millis_def from_secs_def)

lemma from_secs_inject [simp]: "from_secs a = from_secs b \<longleftrightarrow> a = b"
  by (simp add: from_secs_def)

lemma unat_saturating_sub: "unat (saturating_sub a b) = unat a - unat b"
  by (auto simp: saturating_sub_def word_less_nat_alt not_less unat_sub word_le_nat_alt)

lemma saturating_sub_self [simp]: "saturating_sub a a = 0"
  by (simp add: saturating_sub_def)

section \<open>Bytes\<close>

definition byte :: "char \<Rightarrow> nat" where
  "byte c = of_char c"

definition is_ascii_digit :: "char \<Rightarrow> bool" where
  [ascii_defs]: "is_ascii_digit c \<longleftrightarrow> 48 \<le> byte c \<and> byte c \<le> 57"

definition is_ascii_uppercase :: "char \<Rightarrow> bool" where
  [ascii_defs]: "is_ascii_uppercase c \<longleftrightarrow> 65 \<le> byte c \<and> byte c \<le> 90"

definition is_ascii_lowercase :: "char \<Rightarrow> bool" where
  [ascii_defs]: "is_ascii_lowercase c \<longleftrightarrow> 97 \<le> byte c \<and> byte c \<le> 122"

definition is_ascii_alphanumeric :: "char \<Rightarrow> bool" where
  [ascii_defs]: "is_ascii_alphanumeric c \<longleftrightarrow>
     is_ascii_digit c \<or> is_ascii_uppercase c \<or> is_ascii_lowercase c"

text \<open>\<open>u8::is_ascii_graphic\<close>, the visible characters.\<close>

definition is_ascii_graphic :: "char \<Rightarrow> bool" where
  [ascii_defs]: "is_ascii_graphic c \<longleftrightarrow> 33 \<le> byte c \<and> byte c \<le> 126"

definition is_ascii :: "char \<Rightarrow> bool" where
  [ascii_defs]: "is_ascii c \<longleftrightarrow> byte c < 128"

definition to_ascii_uppercase :: "char \<Rightarrow> char" where
  "to_ascii_uppercase c = (if is_ascii_lowercase c then char_of (byte c - 32) else c)"

definition to_ascii_lowercase :: "char \<Rightarrow> char" where
  "to_ascii_lowercase c = (if is_ascii_uppercase c then char_of (byte c + 32) else c)"

lemma byte_less: "byte c < 256"
proof -
  have "of_char c < (2 :: nat) ^ 8"
    by (simp add: of_char_def horner_sum_bound)
  then show ?thesis by (simp add: byte_def)
qed

lemma byte_inject [simp]: "byte c = byte d \<longleftrightarrow> c = d"
  by (simp add: byte_def)

lemma byte_char_of: "n < 256 \<Longrightarrow> byte (char_of n) = n"
  by (simp add: byte_def)

lemma char_of_byte [simp]: "char_of (byte c) = c"
  by (simp add: byte_def)

lemma is_ascii_upper [simp]: "is_ascii c \<Longrightarrow> is_ascii (to_ascii_uppercase c)"
  by (auto simp: to_ascii_uppercase_def ascii_defs byte_char_of)

section \<open>Strings\<close>

abbreviation slash :: char where "slash \<equiv> CHR ''/''"
abbreviation percent :: char where "percent \<equiv> CHR ''%''"
abbreviation backslash :: char where "backslash \<equiv> CHR 0x5C"
abbreviation semicolon :: char where "semicolon \<equiv> CHR '';''"
abbreviation dot :: char where "dot \<equiv> CHR ''.''"
abbreviation quote :: char where "quote \<equiv> CHR 0x22"

text \<open>\<open>str::split(c)\<close>: the pieces between the separators, at least one.\<close>

fun split_on :: "char \<Rightarrow> string \<Rightarrow> string list" where
  "split_on d [] = [[]]"
| "split_on d (c # cs) =
     (if c = d then [] # split_on d cs
      else case split_on d cs of [] \<Rightarrow> [[c]] | w # ws \<Rightarrow> (c # w) # ws)"

fun join_with :: "string \<Rightarrow> string list \<Rightarrow> string" where
  "join_with sep [] = []"
| "join_with sep [x] = x"
| "join_with sep (x # y # xs) = x @ sep @ join_with sep (y # xs)"

definition strip_prefix :: "string \<Rightarrow> string \<Rightarrow> string option" where
  "strip_prefix p s = (if prefix p s then Some (drop (length p) s) else None)"

definition strip_suffix :: "string \<Rightarrow> string \<Rightarrow> string option" where
  "strip_suffix p s = (if suffix p s then Some (take (length s - length p) s) else None)"

fun contains_str :: "string \<Rightarrow> string \<Rightarrow> bool" where
  "contains_str p [] = (p = [])"
| "contains_str p (c # cs) = (prefix p (c # cs) \<or> contains_str p cs)"

definition trim_start_matches :: "(char \<Rightarrow> bool) \<Rightarrow> string \<Rightarrow> string" where
  "trim_start_matches P s = dropWhile P s"

definition trim_end_matches :: "(char \<Rightarrow> bool) \<Rightarrow> string \<Rightarrow> string" where
  "trim_end_matches P s = rev (dropWhile P (rev s))"

definition trim_matches :: "(char \<Rightarrow> bool) \<Rightarrow> string \<Rightarrow> string" where
  "trim_matches P s = trim_end_matches P (trim_start_matches P s)"

text \<open>\<open>str::trim\<close>, on ASCII text: the white space of Unicode that is ASCII.\<close>

definition is_white :: "char \<Rightarrow> bool" where
  "is_white c \<longleftrightarrow> byte c \<in> {9, 10, 11, 12, 13, 32}"

definition trim :: "string \<Rightarrow> string" where
  "trim s = trim_matches is_white s"

lemma split_on_not_Nil [simp]: "split_on d s \<noteq> []"
  by (cases s) (auto split: list.split)

lemma split_on_Cons: "split_on d (c # cs) =
  (if c = d then [] # split_on d cs else (c # hd (split_on d cs)) # tl (split_on d cs))"
  by (simp split: list.split)

lemma join_Cons: "xs \<noteq> [] \<Longrightarrow> join_with sep (x # xs) = x @ sep @ join_with sep xs"
  by (cases xs) simp_all

lemma join_Cons_head: "join_with sep ((c # w) # ws) = c # join_with sep (w # ws)"
  by (cases ws) simp_all

lemma join_split_on [simp]: "join_with [d] (split_on d s) = s"
proof (induction s)
  case (Cons c cs)
  show ?case
  proof (cases "c = d")
    case True
    then show ?thesis using Cons by (simp add: join_Cons)
  next
    case False
    have "join_with [d] (hd (split_on d cs) # tl (split_on d cs)) = cs" using Cons by simp
    then show ?thesis using False by (simp add: split_on_Cons join_Cons_head del: split_on.simps)
  qed
qed simp

lemma split_on_no_sep: "w \<in> set (split_on d s) \<Longrightarrow> d \<notin> set w"
proof (induction s arbitrary: w)
  case (Cons c cs)
  have "hd (split_on d cs) \<in> set (split_on d cs)" by simp
  with Cons show ?case
    by (auto simp: split_on_Cons simp del: split_on.simps split: if_splits dest: list.set_sel(2) [rotated])
qed simp

lemma split_on_single: "d \<notin> set s \<Longrightarrow> split_on d s = [s]"
  by (induction s) auto

lemma split_on_append_sep: "split_on d (s @ d # t) = split_on d s @ split_on d t"
  by (induction s) (auto simp: split_on_Cons simp del: split_on.simps(2))

lemma contains_str_iff: "contains_str p s \<longleftrightarrow> sublist p s"
proof (induction s)
  case (Cons c cs)
  then show ?case by (simp add: sublist_Cons_right)
qed simp

lemma contains_char_iff: "contains_str [c] s \<longleftrightarrow> c \<in> set s"
  by (induction s) auto

lemma strip_prefix_Some: "strip_prefix p s = Some r \<longleftrightarrow> s = p @ r"
  by (auto simp: strip_prefix_def prefix_def)

section \<open>Well-formed UTF-8\<close>

definition cont :: "char \<Rightarrow> bool" where
  "cont c \<longleftrightarrow> 128 \<le> byte c \<and> byte c \<le> 191"

definition between :: "nat \<Rightarrow> nat \<Rightarrow> char \<Rightarrow> bool" where
  "between l h c \<longleftrightarrow> l \<le> byte c \<and> byte c \<le> h"

text \<open>The first byte of an encoded character tells its length (\<open>char::len_utf8\<close>).\<close>

definition len_utf8 :: "char \<Rightarrow> nat" where
  "len_utf8 c = (if byte c < 128 then 1 else if byte c < 224 then 2 else if byte c < 240 then 3 else 4)"

text \<open>The well-formed byte sequences of the Unicode standard (no overlong forms, no surrogates).\<close>

fun utf8_valid :: "string \<Rightarrow> bool" where
  "utf8_valid [] = True"
| "utf8_valid (a # r) =
     (if byte a < 128 then utf8_valid r
      else case r of
        [] \<Rightarrow> False
      | b # r2 \<Rightarrow>
          if between 194 223 a then cont b \<and> utf8_valid r2
          else case r2 of
            [] \<Rightarrow> False
          | c # r3 \<Rightarrow>
              if between 224 239 a
              then (if byte a = 224 then between 160 191 b
                    else if byte a = 237 then between 128 159 b else cont b)
                   \<and> cont c \<and> utf8_valid r3
              else case r3 of
                [] \<Rightarrow> False
              | d # r4 \<Rightarrow>
                  between 240 244 a
                  \<and> (if byte a = 240 then between 144 191 b
                     else if byte a = 244 then between 128 143 b else cont b)
                  \<and> cont c \<and> cont d \<and> utf8_valid r4)"

declare utf8_valid.simps(2) [simp del]

lemma utf8_ascii_Cons [simp]: "is_ascii c \<Longrightarrow> utf8_valid (c # r) = utf8_valid r"
  by (simp add: is_ascii_def utf8_valid.simps(2) [of c r])

lemma utf8_ascii_append: "list_all is_ascii s \<Longrightarrow> utf8_valid (s @ r) = utf8_valid r"
  by (induction s) simp_all

lemma ascii_utf8_valid: "list_all is_ascii s \<Longrightarrow> utf8_valid s"
  using utf8_ascii_append [of s "[]"] by simp

end
