(* ===== verification/Core_Error.thy ===== *)
theory Core_Error
  imports Ferryman_Prelude
begin

text \<open>
  The error type of \<open>crates/core/src/error.rs\<close>, with the data each variant carries. Where the
  source formats a human-readable reason, the reason is a value of \<open>reason\<close>, one constructor per
  message, with the values that appear in the message.
\<close>

datatype reason =
    ThresholdZero
  | CooldownTooShort duration
  | MustBeGe1
  | MustBeGe1Got nat
  | MustBeLe nat nat
  | BadHealthPath string
  | NotAcceptablePath string
  | ShadowsRoute string string
  | InvalidUri string
  | UnsupportedScheme string string
  | NoScheme string
  | NoHost string
  | HasQuery string
  | HasPath string string
  | NotAnIpAddress
  | PrefixLengthRange int
  | MappedRangeNeeds96

datatype normal_form =
    WriteAs string
  | AsciiOnly
  | NoAmbiguousBytes

datatype error =
    ReadConfig string
  | Toml "string option"
  | InvalidConfig string reason
  | InvalidPrefix string
  | NonCanonicalPrefix string normal_form
  | DuplicatePrefix string
  | InvalidUpstream string string reason
  | InvalidCooldown string reason
  | ConflictingCooldown string string nat nat
  | InvalidHealthPath string string
  | ConflictingHealth string string string string string
  | InvalidCidr string reason
  | InvalidBreakerConfig reason "string option"

type_synonym ('e, 'a) result = "'e + 'a"

end
