(* ===== verification/Atomics.thy ===== *)
theory Atomics
  imports Core_Error
begin

text \<open>
  The memory of one circuit breaker and the programs that act on it. A program is a tree of
  atomic actions: an action sees the whole memory, may change it, and says how the program goes
  on. Loads, stores, swaps, compare-and-exchanges and additions of the Rust atomics are each one
  action, and so is a reading of the clock; what a thread does between two actions is local. The
  memory orderings of the source are not modelled: every interleaving here is sequentially
  consistent.
\<close>

section \<open>Memory\<close>

datatype circuit_state = Closed | Open | HalfOpen

fun as_u8 :: "circuit_state \<Rightarrow> u8" where
  "as_u8 Closed = 0"
| "as_u8 Open = 1"
| "as_u8 HalfOpen = 2"

datatype admission = Normal | Probe

record breaker =
  b_name :: "string option"
  b_gauges :: bool
  b_state :: u8
  b_consecutive_failures :: u32
  b_opened_at_millis :: u64
  b_rearmed_at_millis :: u64
  b_failure_threshold :: u32
  b_cooldown_millis :: u64

text \<open>What a breaker emits: a line of the log (a warning or an information) and the two gauges.\<close>

datatype effect =
    LogTransition string circuit_state circuit_state bool
  | GaugeCircuitState string u8
  | GaugeUpstreamAlive string bool

text \<open>\<open>clock\<close> is the reading of \<open>now_millis\<close>: milliseconds since the process-wide monotonic base.\<close>

record memory =
  brk :: breaker
  clock :: u64
  emitted :: "effect list"

section \<open>Programs of atomic actions\<close>

datatype 'a prog = Ret 'a | Act "memory \<Rightarrow> memory \<times> 'a prog"

primrec bindp :: "'a prog \<Rightarrow> ('a \<Rightarrow> 'b prog) \<Rightarrow> 'b prog" where
  "bindp (Ret x) f = f x"
| "bindp (Act g) f = Act (map_prod (\<lambda>m. m) (\<lambda>p. bindp p f) \<circ> g)"

text \<open>A program run alone, to its end: no action of another thread comes between its actions.\<close>

primrec run :: "'a prog \<Rightarrow> memory \<Rightarrow> 'a \<times> memory" where
  "run (Ret x) = (\<lambda>m. (x, m))"
| "run (Act g) = (\<lambda>m. let r = map_prod (\<lambda>m. m) run (g m) in snd r (fst r))"

definition load :: "(breaker \<Rightarrow> 'a) \<Rightarrow> 'a prog" where
  "load f = Act (\<lambda>m. (m, Ret (f (brk m))))"

definition store :: "(('a \<Rightarrow> 'a) \<Rightarrow> breaker \<Rightarrow> breaker) \<Rightarrow> 'a \<Rightarrow> unit prog" where
  "store upd x = Act (\<lambda>m. (m\<lparr>brk := upd (\<lambda>_. x) (brk m)\<rparr>, Ret ()))"

definition swap :: "(breaker \<Rightarrow> 'a) \<Rightarrow> (('a \<Rightarrow> 'a) \<Rightarrow> breaker \<Rightarrow> breaker) \<Rightarrow> 'a \<Rightarrow> 'a prog" where
  "swap f upd x = Act (\<lambda>m. (m\<lparr>brk := upd (\<lambda>_. x) (brk m)\<rparr>, Ret (f (brk m))))"

definition compare_exchange ::
  "(breaker \<Rightarrow> 'a) \<Rightarrow> (('a \<Rightarrow> 'a) \<Rightarrow> breaker \<Rightarrow> breaker) \<Rightarrow> 'a \<Rightarrow> 'a \<Rightarrow> bool prog" where
  "compare_exchange f upd expected x =
     Act (\<lambda>m. if f (brk m) = expected
              then (m\<lparr>brk := upd (\<lambda>_. x) (brk m)\<rparr>, Ret True)
              else (m, Ret False))"

definition fetch_add ::
  "(breaker \<Rightarrow> 'a::plus) \<Rightarrow> (('a \<Rightarrow> 'a) \<Rightarrow> breaker \<Rightarrow> breaker) \<Rightarrow> 'a \<Rightarrow> 'a prog" where
  "fetch_add f upd x = Act (\<lambda>m. (m\<lparr>brk := upd (\<lambda>v. v + x) (brk m)\<rparr>, Ret (f (brk m))))"

definition now_millis :: "u64 prog" where
  "now_millis = Act (\<lambda>m. (m, Ret (clock m)))"

definition emit :: "effect \<Rightarrow> unit prog" where
  "emit e = Act (\<lambda>m. (m\<lparr>emitted := emitted m @ [e]\<rparr>, Ret ()))"

lemmas action_defs =
  load_def store_def swap_def compare_exchange_def fetch_add_def now_millis_def emit_def

text \<open>Induction over a program: an action hands on to a smaller program, whatever memory it sees.\<close>

lemma prog_induct [case_names Ret Act, induct type: prog]:
  assumes "\<And>x. P (Ret x)" and "\<And>g. (\<And>m. P (snd (g m))) \<Longrightarrow> P (Act g)"
  shows "P p"
proof (induction p rule: prog.induct)
  case (Act g)
  have "P (snd (g m))" for m
    by (rule Act [of "g m"]) (auto simp: snds.simps)
  then show ?case by (rule assms(2))
qed (rule assms(1))

lemma run_Act [simp]: "run (Act g) m = run (snd (g m)) (fst (g m))"
  by (simp add: Let_def)

declare run.simps(2) [simp del]

lemma run_bindp [simp]: "run (bindp p f) m = (case run p m of (x, m') \<Rightarrow> run (f x) m')"
  by (induction p arbitrary: m) simp_all

lemma bindp_Act: "bindp (Act g) f = Act (\<lambda>m. (fst (g m), bindp (snd (g m)) f))"
  by (simp add: fun_eq_iff prod_eq_iff)

lemma bindp_assoc: "bindp (bindp p f) g = bindp p (\<lambda>x. bindp (f x) g)"
  by (induction p) (simp_all add: fun_eq_iff prod_eq_iff)

lemma bindp_Ret [simp]: "bindp p Ret = p"
  by (induction p) (simp_all add: fun_eq_iff prod_eq_iff)

end
