(* ===== verification/Breaker.thy ===== *)
theory Breaker
  imports Atomics
begin

text \<open>
  The circuit breaker of \<open>crates/core/src/breaker.rs\<close>. All its state lives in atomics and its
  operations take no lock, so every operation is a program (\<open>prog\<close> of theory \<open>Atomics\<close>)
  whose steps are the single loads, stores, swaps and compare-and-exchanges of the code, in the
  order of the code. \<open>run\<close> executes a program alone, which gives the sequential meaning used by
  the routing table, the health checker and the proxy; theory \<open>Breaker_Conc\<close> interleaves the
  same programs.
\<close>

section \<open>Data\<close>

definition from_u8 :: "u8 \<Rightarrow> circuit_state" where
  "from_u8 v = (if v = 1 then Open else if v = 2 then HalfOpen else Closed)"

record breaker_config =
  cfg_failure_threshold :: u32
  cfg_cooldown :: duration
  cfg_name :: "string option"

definition default_breaker_config :: breaker_config where
  "default_breaker_config =
     \<lparr>cfg_failure_threshold = 3, cfg_cooldown = from_secs 30, cfg_name = None\<rparr>"

definition with_failure_threshold :: "u32 \<Rightarrow> breaker_config \<Rightarrow> breaker_config" where
  "with_failure_threshold t c = c\<lparr>cfg_failure_threshold := t\<rparr>"

definition with_cooldown :: "duration \<Rightarrow> breaker_config \<Rightarrow> breaker_config" where
  "with_cooldown d c = c\<lparr>cfg_cooldown := d\<rparr>"

definition with_name :: "string \<Rightarrow> breaker_config \<Rightarrow> breaker_config" where
  "with_name n c = c\<lparr>cfg_name := Some n\<rparr>"

text \<open>The reasons of the error are kept as values; \<open>Display\<close> renders them.\<close>

definition validate :: "breaker_config \<Rightarrow> (error, unit) result" where
  "validate c =
     (if cfg_failure_threshold c < 1
      then Inl (InvalidBreakerConfig ThresholdZero None)
      else if cfg_cooldown c < from_millis 1
      then Inl (InvalidBreakerConfig (CooldownTooShort (cfg_cooldown c)) None)
      else Inr ())"

section \<open>Construction\<close>

text \<open>\<open>reconfigure\<close> on a breaker that is not shared yet, or shared by other calls: two stores.\<close>

definition reconfigure :: "duration \<Rightarrow> u32 \<Rightarrow> unit prog" where
  "reconfigure cooldown threshold =
     bindp (store b_cooldown_millis_update (of_nat (as_millis cooldown))) (\<lambda>_.
     store b_failure_threshold_update threshold)"

definition fresh_breaker :: "string option \<Rightarrow> bool \<Rightarrow> breaker" where
  "fresh_breaker nm g =
     \<lparr>b_name = nm, b_gauges = g, b_state = as_u8 Closed, b_consecutive_failures = 0,
      b_opened_at_millis = 0, b_rearmed_at_millis = u64_max,
      b_failure_threshold = 0, b_cooldown_millis = 0\<rparr>"

definition unchecked_breaker :: "string option \<Rightarrow> bool \<Rightarrow> duration \<Rightarrow> u32 \<Rightarrow> breaker" where
  "unchecked_breaker nm g cooldown threshold =
     brk (snd (run (reconfigure cooldown threshold)
                 \<lparr>brk = fresh_breaker nm g, clock = 0, emitted = []\<rparr>))"

definition breaker_new :: "breaker_config \<Rightarrow> (error, breaker) result" where
  "breaker_new c =
     (case validate c of
        Inl e \<Rightarrow> Inl e
      | Inr _ \<Rightarrow> Inr (unchecked_breaker (cfg_name c) False (cfg_cooldown c) (cfg_failure_threshold c)))"

text \<open>\<open>map_err\<close> of \<open>for_upstream\<close>: an invalid configuration is reported with the upstream.\<close>

definition blame_upstream :: "string \<Rightarrow> error \<Rightarrow> error" where
  "blame_upstream nm e =
     (case e of InvalidBreakerConfig reason _ \<Rightarrow> InvalidBreakerConfig reason (Some nm) | _ \<Rightarrow> e)"

definition for_upstream :: "string \<Rightarrow> breaker_config \<Rightarrow> (error, breaker) result" where
  "for_upstream nm c =
     (case validate c of
        Inl e \<Rightarrow> Inl (blame_upstream nm e)
      | Inr _ \<Rightarrow> Inr (unchecked_breaker (Some nm) True (cfg_cooldown c) (cfg_failure_threshold c)))"

section \<open>Operations\<close>

definition state_of :: "circuit_state prog" where
  "state_of = bindp (load b_state) (\<lambda>v. Ret (from_u8 v))"

text \<open>\<open>set_gauges\<close> publishes the state read now, not a transition target.\<close>

definition set_gauges :: "unit prog" where
  "set_gauges =
     bindp (load (\<lambda>b. (b_gauges b, b_name b))) (\<lambda>gn.
     case gn of
       (True, Some nm) \<Rightarrow>
         bindp state_of (\<lambda>s.
         bindp (emit (GaugeCircuitState nm (as_u8 s))) (\<lambda>_.
         emit (GaugeUpstreamAlive nm (s = Closed))))
     | _ \<Rightarrow> Ret ())"

definition log_transition :: "circuit_state \<Rightarrow> circuit_state \<Rightarrow> unit prog" where
  "log_transition from_s to_s =
     bindp (load b_name) (\<lambda>nm.
     emit (LogTransition (case nm of Some n \<Rightarrow> n | None \<Rightarrow> ''unnamed'') from_s to_s (to_s = Open)))"

definition transition :: "circuit_state \<Rightarrow> circuit_state \<Rightarrow> bool prog" where
  "transition from_s to_s =
     bindp (compare_exchange b_state b_state_update (as_u8 from_s) (as_u8 to_s)) (\<lambda>ok.
     if ok
     then bindp (log_transition from_s to_s) (\<lambda>_. bindp set_gauges (\<lambda>_. Ret ok))
     else Ret ok)"

definition claim_probe_slot :: "bool prog" where
  "claim_probe_slot =
     bindp (load b_opened_at_millis) (\<lambda>opened_at.
     bindp now_millis (\<lambda>now.
     bindp (load b_cooldown_millis) (\<lambda>cooldown.
     if saturating_sub now opened_at < cooldown then Ret False
     else compare_exchange b_opened_at_millis b_opened_at_millis_update opened_at now)))"

definition try_acquire :: "admission option prog" where
  "try_acquire =
     bindp state_of (\<lambda>s.
     case s of
       Closed \<Rightarrow> Ret (Some Normal)
     | Open \<Rightarrow>
         bindp claim_probe_slot (\<lambda>claimed.
         if \<not> claimed then Ret None
         else bindp (transition Open HalfOpen) (\<lambda>ok. Ret (Some (if ok then Probe else Normal))))
     | HalfOpen \<Rightarrow>
         bindp claim_probe_slot (\<lambda>claimed. Ret (if claimed then Some Probe else None)))"

definition release :: "admission \<Rightarrow> unit prog" where
  "release adm =
     (if adm \<noteq> Probe then Ret ()
      else
        bindp (load b_cooldown_millis) (\<lambda>cooldown.
        bindp now_millis (\<lambda>now.
        bindp (load b_opened_at_millis) (\<lambda>stamp.
        bindp state_of (\<lambda>s.
        if s \<noteq> HalfOpen then Ret ()
        else
          bindp (load b_rearmed_at_millis) (\<lambda>last.
          if last \<noteq> u64_max \<and> saturating_sub now last < cooldown then Ret ()
          else
            bindp (compare_exchange b_rearmed_at_millis b_rearmed_at_millis_update last now) (\<lambda>ok.
            if \<not> ok then Ret ()
            else
              bindp (compare_exchange b_opened_at_millis b_opened_at_millis_update stamp
                       (saturating_sub now cooldown)) (\<lambda>_. Ret ()))))))))"

definition record_success :: "admission \<Rightarrow> unit prog" where
  "record_success adm =
     (case adm of
        Probe \<Rightarrow>
          bindp state_of (\<lambda>s.
          if s = Closed then Ret ()
          else
            bindp (store b_consecutive_failures_update 0) (\<lambda>_.
            bindp (swap b_state b_state_update (as_u8 Closed)) (\<lambda>v.
            let prev = from_u8 v in
            if prev \<noteq> Closed
            then bindp (log_transition prev Closed) (\<lambda>_. set_gauges)
            else Ret ())))
      | Normal \<Rightarrow>
          bindp state_of (\<lambda>s.
          if s = Closed then store b_consecutive_failures_update 0 else Ret ()))"

text \<open>The \<open>+ 1\<close> after \<open>fetch_add\<close> wraps as it does in a release build; \<open>no_count_overflow\<close>
  below shows that it never does.\<close>

definition record_failure :: "admission \<Rightarrow> unit prog" where
  "record_failure adm =
     bindp state_of (\<lambda>s.
     case (adm, s) of
       (Probe, HalfOpen) \<Rightarrow>
         bindp now_millis (\<lambda>now.
         bindp (store b_opened_at_millis_update now) (\<lambda>_.
         bindp (transition HalfOpen Open) (\<lambda>_. Ret ())))
     | (Probe, Open) \<Rightarrow> Ret ()
     | (_, Closed) \<Rightarrow>
         bindp (fetch_add b_consecutive_failures b_consecutive_failures_update 1) (\<lambda>old.
         bindp (load b_failure_threshold) (\<lambda>threshold.
         if old + 1 < threshold then Ret ()
         else
           bindp now_millis (\<lambda>now.
           bindp (store b_opened_at_millis_update now) (\<lambda>_.
           bindp (transition Closed Open) (\<lambda>_. Ret ())))))
     | (Normal, _) \<Rightarrow> Ret ())"

section \<open>The operations run alone\<close>

abbreviation cstate :: "memory \<Rightarrow> circuit_state" where
  "cstate m \<equiv> from_u8 (b_state (brk m))"

text \<open>The state cell holds a discriminant of \<open>CircuitState\<close>, and while the circuit is closed one
  more failure can be counted without wrapping.\<close>

definition breaker_inv :: "breaker \<Rightarrow> bool" where
  "breaker_inv b \<longleftrightarrow> b_state b \<in> {0, 1, 2}
     \<and> (b_state b = 0 \<longrightarrow> b_consecutive_failures b < - 1)"

definition transition_effects :: "breaker \<Rightarrow> circuit_state \<Rightarrow> circuit_state \<Rightarrow> effect list" where
  "transition_effects b s t =
     LogTransition (case b_name b of Some n \<Rightarrow> n | None \<Rightarrow> ''unnamed'') s t (t = Open)
     # (case (b_gauges b, b_name b) of
          (True, Some n) \<Rightarrow> [GaugeCircuitState n (as_u8 t), GaugeUpstreamAlive n (t = Closed)]
        | _ \<Rightarrow> [])"

lemma from_as_u8 [simp]: "from_u8 (as_u8 s) = s"
  by (cases s) (simp_all add: from_u8_def)

lemma from_u8_simps [simp]: "from_u8 0 = Closed" "from_u8 1 = Open" "from_u8 2 = HalfOpen"
  by (simp_all add: from_u8_def)

lemma as_u8_inject [simp]: "as_u8 s = as_u8 t \<longleftrightarrow> s = t"
  by (metis from_as_u8)

lemma as_from_u8: "breaker_inv b \<Longrightarrow> as_u8 (from_u8 (b_state b)) = b_state b"
  by (auto simp: breaker_inv_def from_u8_def)

lemma state_eq_iff: "breaker_inv b \<Longrightarrow> b_state b = as_u8 s \<longleftrightarrow> from_u8 (b_state b) = s"
  by (metis as_from_u8 from_as_u8)

lemma run_load [simp]: "run (load f) m = (f (brk m), m)"
  by (simp add: load_def)

lemma run_store [simp]: "run (store upd x) m = ((), m\<lparr>brk := upd (\<lambda>_. x) (brk m)\<rparr>)"
  by (simp add: store_def)

lemma run_swap [simp]: "run (swap f upd x) m = (f (brk m), m\<lparr>brk := upd (\<lambda>_. x) (brk m)\<rparr>)"
  by (simp add: swap_def)

lemma run_compare_exchange [simp]:
  "run (compare_exchange f upd e x) m =
     (if f (brk m) = e then (True, m\<lparr>brk := upd (\<lambda>_. x) (brk m)\<rparr>) else (False, m))"
  by (simp add: compare_exchange_def)

lemma run_fetch_add [simp]:
  "run (fetch_add f upd x) m = (f (brk m), m\<lparr>brk := upd (\<lambda>v. v + x) (brk m)\<rparr>)"
  by (simp add: fetch_add_def)

lemma run_now_millis [simp]: "run now_millis m = (clock m, m)"
  by (simp add: now_millis_def)

lemma run_emit [simp]: "run (emit e) m = ((), m\<lparr>emitted := emitted m @ [e]\<rparr>)"
  by (simp add: emit_def)

lemma run_state_of [simp]: "run state_of m = (cstate m, m)"
  by (simp add: state_of_def)

lemma run_set_gauges:
  "run set_gauges m =
     ((), m\<lparr>emitted := emitted m @
        (case (b_gauges (brk m), b_name (brk m)) of
          (True, Some n) \<Rightarrow> [GaugeCircuitState n (as_u8 (cstate m)),
                            GaugeUpstreamAlive n (cstate m = Closed)]
        | _ \<Rightarrow> [])\<rparr>)"
  by (simp add: set_gauges_def split: option.splits bool.splits)

lemma run_log_transition:
  "run (log_transition s t) m =
     ((), m\<lparr>emitted := emitted m @
        [LogTransition (case b_name (brk m) of Some n \<Rightarrow> n | None \<Rightarrow> ''unnamed'') s t (t = Open)]\<rparr>)"
  by (simp add: log_transition_def)

lemma run_transition:
  "run (transition s t) m =
     (if b_state (brk m) = as_u8 s
      then (True, m\<lparr>brk := (brk m)\<lparr>b_state := as_u8 t\<rparr>,
                   emitted := emitted m @ transition_effects (brk m) s t\<rparr>)
      else (False, m))"
  by (simp add: transition_def run_log_transition run_set_gauges transition_effects_def
           split: option.splits bool.splits)

lemma run_claim_probe_slot:
  "run claim_probe_slot m =
     (if saturating_sub (clock m) (b_opened_at_millis (brk m)) < b_cooldown_millis (brk m)
      then (False, m)
      else (True, m\<lparr>brk := (brk m)\<lparr>b_opened_at_millis := clock m\<rparr>\<rparr>))"
  by (simp add: claim_probe_slot_def)

lemma run_try_acquire:
  assumes "breaker_inv (brk m)"
  shows "run try_acquire m =
     (if cstate m = Closed then (Some Normal, m)
      else if saturating_sub (clock m) (b_opened_at_millis (brk m)) < b_cooldown_millis (brk m)
      then (None, m)
      else (Some Probe,
            m\<lparr>brk := (brk m)\<lparr>b_opened_at_millis := clock m, b_state := as_u8 HalfOpen\<rparr>,
              emitted := emitted m @
                (if cstate m = Open then transition_effects (brk m) Open HalfOpen else [])\<rparr>))"
  using state_eq_iff [OF assms, of Open] state_eq_iff [OF assms, of HalfOpen]
  by (cases "cstate m")
     (simp_all add: try_acquire_def run_claim_probe_slot run_transition transition_effects_def)

lemma run_release:
  "run (release adm) m =
     (if adm = Probe \<and> cstate m = HalfOpen
         \<and> \<not> (b_rearmed_at_millis (brk m) \<noteq> u64_max
              \<and> saturating_sub (clock m) (b_rearmed_at_millis (brk m)) < b_cooldown_millis (brk m))
      then ((), m\<lparr>brk := (brk m)\<lparr>b_rearmed_at_millis := clock m,
               b_opened_at_millis := saturating_sub (clock m) (b_cooldown_millis (brk m))\<rparr>\<rparr>)
      else ((), m))"
  by (simp add: release_def)

lemma run_record_success:
  "run (record_success adm) m =
     ((), if cstate m = Closed
          then (if adm = Normal then m\<lparr>brk := (brk m)\<lparr>b_consecutive_failures := 0\<rparr>\<rparr> else m)
          else (if adm = Normal then m
                else m\<lparr>brk := (brk m)\<lparr>b_consecutive_failures := 0, b_state := as_u8 Closed\<rparr>,
                       emitted := emitted m @ transition_effects (brk m) (cstate m) Closed\<rparr>))"
  by (cases adm)
     (simp_all add: record_success_def run_log_transition run_set_gauges transition_effects_def
               Let_def from_u8_def split: option.splits bool.splits)

text \<open>A failure that opens the circuit stamps it first.\<close>

definition tripped :: "circuit_state \<Rightarrow> memory \<Rightarrow> memory" where
  "tripped s m =
     m\<lparr>brk := (brk m)\<lparr>b_opened_at_millis := clock m, b_state := as_u8 Open\<rparr>,
       emitted := emitted m @ transition_effects (brk m) s Open\<rparr>"

lemma run_record_failure:
  assumes "breaker_inv (brk m)"
  shows "run (record_failure adm) m =
     ((), case cstate m of
            Closed \<Rightarrow>
              (let m' = m\<lparr>brk := (brk m)\<lparr>b_consecutive_failures :=
                              b_consecutive_failures (brk m) + 1\<rparr>\<rparr>
               in if b_consecutive_failures (brk m) + 1 < b_failure_threshold (brk m)
                  then m' else tripped Closed m')
          | Open \<Rightarrow> m
          | HalfOpen \<Rightarrow> if adm = Probe then tripped HalfOpen m else m)"
  using state_eq_iff [OF assms, of Closed] state_eq_iff [OF assms, of HalfOpen]
  by (cases "cstate m"; cases adm)
     (simp_all add: record_failure_def run_transition tripped_def transition_effects_def
               Let_def add.commute)

lemma run_reconfigure:
  "run (reconfigure d t) m =
     ((), m\<lparr>brk := (brk m)\<lparr>b_cooldown_millis := of_nat (as_millis d), b_failure_threshold := t\<rparr>\<rparr>)"
  by (simp add: reconfigure_def)

lemmas run_ops = run_try_acquire run_release run_record_success run_record_failure run_reconfigure

section \<open>The invariant\<close>

lemma add_one_less_max: "(x :: u32) + 1 < t \<Longrightarrow> x < - 1 \<Longrightarrow> x + 1 < - 1"
  by (meson leD le_less_trans not_le word_order.extremum)

lemma zero_less_max [simp]: "(0 :: u32) < - 1"
  by code_simp

lemma breaker_inv_unchecked: "breaker_inv (unchecked_breaker nm g d t)"
  by (simp add: unchecked_breaker_def run_reconfigure fresh_breaker_def breaker_inv_def)

lemma inv_try_acquire: "breaker_inv (brk m) \<Longrightarrow> breaker_inv (brk (snd (run try_acquire m)))"
  by (auto simp: run_try_acquire breaker_inv_def)

lemma inv_release: "breaker_inv (brk m) \<Longrightarrow> breaker_inv (brk (snd (run (release a) m)))"
  by (auto simp: run_release breaker_inv_def)

lemma inv_record_success:
  "breaker_inv (brk m) \<Longrightarrow> breaker_inv (brk (snd (run (record_success a) m)))"
  by (auto simp: run_record_success breaker_inv_def)

lemma inv_record_failure:
  "breaker_inv (brk m) \<Longrightarrow> breaker_inv (brk (snd (run (record_failure a) m)))"
  by (cases "cstate m")
     (auto simp: run_record_failure breaker_inv_def tripped_def Let_def from_u8_def
           intro: add_one_less_max split: if_splits)

lemma inv_reconfigure:
  "breaker_inv (brk m) \<Longrightarrow> breaker_inv (brk (snd (run (reconfigure d t) m)))"
  by (auto simp: run_reconfigure breaker_inv_def)

lemmas inv_ops = inv_try_acquire inv_release inv_record_success inv_record_failure inv_reconfigure

end
