(* ===== verification/Path_Normal.thy ===== *)
theory Path_Normal
  imports Ferryman_Prelude
begin

text \<open>
  Path normalisation and prefix matching, the private functions at the end of
  \<open>crates/core/src/route.rs\<close>. The source walks an index \<open>i\<close> over the bytes \<open>b\<close>; the model walks the
  suffix \<open>b[i..]\<close>.
\<close>

section \<open>Definitions\<close>

text \<open>\<open>char::to_digit(16)\<close>: both cases of the letters.\<close>

definition hex_val :: "char \<Rightarrow> nat option" where
  "hex_val c =
     (if 48 \<le> byte c \<and> byte c \<le> 57 then Some (byte c - 48)
      else if 97 \<le> byte c \<and> byte c \<le> 102 then Some (byte c - 87)
      else if 65 \<le> byte c \<and> byte c \<le> 70 then Some (byte c - 55)
      else None)"

definition is_unreserved :: "char \<Rightarrow> bool" where
  "is_unreserved c \<longleftrightarrow> is_ascii_alphanumeric c \<or> c \<in> {CHR ''-'', CHR ''.'', CHR ''_'', CHR ''~''}"

text \<open>\<open>rewrite_at b i\<close> on the suffix from \<open>i\<close>: how many bytes to consume and what to emit for
  them, or \<^const>\<open>None\<close> where the byte is already normal.\<close>

definition rewrite_at :: "string \<Rightarrow> (nat \<times> string) option" where
  "rewrite_at b =
     (case b of
        [] \<Rightarrow> None
      | x # r \<Rightarrow>
          if x = slash then
            (case r of [] \<Rightarrow> None | y # _ \<Rightarrow> if y = slash then Some (1, []) else None)
          else if x = percent then
            (case r of
               y # z # _ \<Rightarrow>
                 (case (hex_val y, hex_val z) of
                    (Some h, Some l) \<Rightarrow>
                      let c = char_of (push_bit 4 h OR l) in
                      if is_unreserved c then Some (3, [c])
                      else if is_ascii_lowercase y \<or> is_ascii_lowercase z
                      then Some (3, [percent, to_ascii_uppercase y, to_ascii_uppercase z])
                      else None
                  | _ \<Rightarrow> None)
             | _ \<Rightarrow> None)
          else None)"

lemma rewrite_at_pos: "rewrite_at b = Some (n, out) \<Longrightarrow> 0 < n \<and> n \<le> length b"
  by (auto simp: rewrite_at_def Let_def split: list.splits if_splits option.splits)

text \<open>The loop of \<open>normalize\<close>.\<close>

function norm_loop :: "string \<Rightarrow> string" where
  "norm_loop b =
     (case b of
        [] \<Rightarrow> []
      | c # r \<Rightarrow>
          (case rewrite_at b of
             Some (n, out) \<Rightarrow> out @ norm_loop (drop n b)
           | None \<Rightarrow> c # norm_loop r))"
  by pat_completeness auto
termination
  by (relation "measure length") (auto dest: rewrite_at_pos)

declare norm_loop.simps [simp del]

definition first_rewrite :: "string \<Rightarrow> nat option" where
  "first_rewrite b = find (\<lambda>i. rewrite_at (drop i b) \<noteq> None) [0 ..< length b]"

definition normalize :: "string \<Rightarrow> string" where
  "normalize path =
     (if \<not> contains_str [percent] path \<and> \<not> contains_str [slash, slash] path then path
      else case first_rewrite path of
             None \<Rightarrow> path
           | Some first \<Rightarrow> take first path @ norm_loop (drop first path))"

definition prefix_matches :: "string \<Rightarrow> string \<Rightarrow> bool" where
  "prefix_matches p path =
     (if suffix [slash] p then prefix p path
      else if \<not> prefix p path then False
      else (case drop (length p) path of [] \<Rightarrow> True | c # _ \<Rightarrow> c = slash))"

section \<open>The shortcuts of \<open>normalize\<close> change nothing\<close>

lemma norm_loop_Nil [simp]: "norm_loop [] = []"
  by (simp add: norm_loop.simps)

lemma norm_loop_None: "rewrite_at (c # r) = None \<Longrightarrow> norm_loop (c # r) = c # norm_loop r"
  by (subst norm_loop.simps) simp

lemma norm_loop_Some: "rewrite_at b = Some (n, out) \<Longrightarrow> norm_loop b = out @ norm_loop (drop n b)"
  by (cases b) (simp_all add: norm_loop.simps rewrite_at_def)

lemma norm_loop_take:
  assumes "\<forall>i < k. rewrite_at (drop i b) = None" and "k \<le> length b"
  shows "norm_loop b = take k b @ norm_loop (drop k b)"
  using assms
proof (induction k arbitrary: b)
  case (Suc k)
  then obtain c r where b: "b = c # r" by (cases b) auto
  have "rewrite_at b = None" using Suc.prems(1) by force
  then have "norm_loop b = c # norm_loop r" using b by (simp add: norm_loop_None)
  moreover have "norm_loop r = take k r @ norm_loop (drop k r)"
    using Suc.prems b by (intro Suc.IH) force+
  ultimately show ?case using b by simp
qed simp

lemma find_upt_Some:
  assumes "find P [0 ..< n] = Some k"
  shows "k < n" and "P k" and "\<forall>i < k. \<not> P i"
proof -
  obtain i where i: "i < length [0 ..< n]" "P ([0 ..< n] ! i)" "k = [0 ..< n] ! i"
    "\<forall>j < i. \<not> P ([0 ..< n] ! j)" using assms by (auto simp: find_Some_iff)
  then show "k < n" and "P k" and "\<forall>i < k. \<not> P i" by auto
qed

lemma no_rewrite_plain:
  assumes "percent \<notin> set b" and "\<not> sublist [slash, slash] b"
  shows "norm_loop b = b"
  using assms
proof (induction b)
  case (Cons c r)
  have "rewrite_at (c # r) = None"
    using Cons.prems by (auto simp: rewrite_at_def sublist_Cons_right split: list.split)
  then show ?case using Cons by (auto simp: norm_loop_None sublist_Cons_right)
qed simp

lemma sublist_char: "sublist [c] s \<longleftrightarrow> c \<in> set s"
  by (induction s) (auto simp: sublist_Cons_right)

lemma normalize_loop: "normalize path = norm_loop path"
proof (cases "first_rewrite path")
  case None
  then have "\<forall>i < length path. rewrite_at (drop i path) = None"
    by (auto simp: first_rewrite_def find_None_iff simp del: not_None_eq)
  then show ?thesis using None norm_loop_take [of "length path" path] no_rewrite_plain [of path]
    by (simp add: normalize_def)
next
  case (Some k)
  note k = find_upt_Some [OF Some [unfolded first_rewrite_def]]
  have "norm_loop path = take k path @ norm_loop (drop k path)"
    using k by (intro norm_loop_take) (auto simp del: not_None_eq)
  then show ?thesis using Some no_rewrite_plain [of path]
    by (auto simp: normalize_def contains_str_iff sublist_char)
qed

section \<open>What normalisation does\<close>

text \<open>The shapes of \<open>rewrite_at\<close>: a slash before a slash is dropped, an escape is rewritten.\<close>

lemma rewrite_at_cases:
  assumes "rewrite_at b = Some (n, out)"
  obtains (slashes) r where "b = slash # slash # r" "n = 1" "out = []"
  | (unreserved) y z r c where "b = percent # y # z # r" "n = 3" "out = [c]" "is_unreserved c"
      "hex_val y \<noteq> None" "hex_val z \<noteq> None"
  | (upper) y z r where "b = percent # y # z # r" "n = 3"
      "out = [percent, to_ascii_uppercase y, to_ascii_uppercase z]"
      "hex_val y \<noteq> None" "hex_val z \<noteq> None"
  using assms
  by (auto simp: rewrite_at_def Let_def split: list.splits if_splits option.splits)

lemma unreserved_facts: "is_unreserved c \<Longrightarrow> is_ascii c \<and> c \<noteq> slash \<and> c \<noteq> percent"
  by (auto simp: is_unreserved_def ascii_defs byte_def)

lemma hex_facts: "hex_val c \<noteq> None \<Longrightarrow> is_ascii c \<and> c \<noteq> slash \<and> c \<noteq> percent"
  by (auto simp: hex_val_def ascii_defs byte_def split: if_splits)

lemma rewrite_at_other: "c \<noteq> slash \<Longrightarrow> c \<noteq> percent \<Longrightarrow> rewrite_at (c # r) = None"
  by (simp add: rewrite_at_def)

lemma norm_loop_other: "c \<noteq> slash \<Longrightarrow> c \<noteq> percent \<Longrightarrow> norm_loop (c # r) = c # norm_loop r"
  by (simp add: norm_loop_None rewrite_at_other)

lemma norm_induct [case_names Nil Plain Rewrite]:
  assumes "P []"
    and "\<And>c r. rewrite_at (c # r) = None \<Longrightarrow> P r \<Longrightarrow> P (c # r)"
    and "\<And>b n out. rewrite_at b = Some (n, out) \<Longrightarrow> P (drop n b) \<Longrightarrow> P b"
  shows "P b"
proof (induction b rule: length_induct)
  case (1 b)
  show ?case
  proof (cases "rewrite_at b")
    case None
    then show ?thesis using 1 assms(1,2) by (cases b) auto
  next
    case (Some p)
    then show ?thesis using 1 assms(3) rewrite_at_pos [of b]
      by (cases p) (metis diff_less length_drop order_less_le_trans)
  qed
qed

lemma norm_loop_length: "length (norm_loop b) \<le> length b"
proof (induction b rule: norm_induct)
  case (Rewrite b n out)
  have "length out \<le> n" "n \<le> length b"
    using Rewrite(1) by (auto elim!: rewrite_at_cases)
  then show ?case using Rewrite by (simp add: norm_loop_Some)
qed (simp_all add: norm_loop_None)

text \<open>The first byte of a normalised path is a slash only if the path itself starts with one.\<close>

lemma norm_loop_hd_slash:
  assumes "norm_loop b = slash # t"
  shows "\<exists>r. b = slash # r"
proof (cases b)
  case (Cons c r)
  show ?thesis
  proof (cases "rewrite_at b")
    case None
    then show ?thesis using assms Cons by (simp add: norm_loop_None)
  next
    case (Some p)
    obtain n out where p: "p = (n, out)" by force
    with Some assms Cons show ?thesis
      by (auto elim!: rewrite_at_cases simp: norm_loop_Some dest: unreserved_facts)
  qed
qed (use assms in simp)

lemma to_upper_hex: "hex_val y \<noteq> None \<Longrightarrow> to_ascii_uppercase y \<noteq> slash"
  by (auto simp: hex_val_def to_ascii_uppercase_def ascii_defs byte_def
      split: if_splits dest!: arg_cong [where f = byte])

lemma norm_loop_no_double_slash: "\<not> sublist [slash, slash] (norm_loop b)"
proof (induction b rule: norm_induct)
  case (Plain c r)
  have "\<not> (c = slash \<and> (\<exists>t. norm_loop r = slash # t))"
    using Plain(1) by (auto simp: rewrite_at_def dest!: norm_loop_hd_slash)
  then show ?case using Plain
    by (auto simp: norm_loop_None sublist_Cons_right prefix_def)
next
  case (Rewrite b n out)
  from Rewrite(1) show ?case
  proof (cases rule: rewrite_at_cases)
    case (upper y z r)
    then show ?thesis using Rewrite to_upper_hex [of y] to_upper_hex [of z]
      by (auto simp: norm_loop_Some sublist_Cons_right prefix_def)
  qed (use Rewrite in \<open>auto simp: norm_loop_Some sublist_Cons_right prefix_def dest: unreserved_facts\<close>)
qed simp

section \<open>Normalisation keeps UTF-8\<close>

lemma not_ascii_other: "128 \<le> byte c \<Longrightarrow> norm_loop (c # r) = c # norm_loop r"
  by (rule norm_loop_other) (auto simp: byte_def)

text \<open>A character of more than one byte is copied whole.\<close>

lemma multibyte_copied:
  assumes "utf8_valid (a # r)" and "128 \<le> byte a"
  obtains bs t where "r = bs @ t" "utf8_valid t" "list_all (\<lambda>c. 128 \<le> byte c) bs"
    "\<forall>u. utf8_valid (a # bs @ u) = utf8_valid u" "len_utf8 a = Suc (length bs)"
proof -
  obtain b r2 where r: "r = b # r2" using assms by (cases r) (auto simp: utf8_valid.simps(2))
  show thesis
  proof (cases "between 194 223 a")
    case True
    then show thesis using that [of "[b]" r2] assms r by (auto simp: cont_def between_def len_utf8_def utf8_valid.simps(2) [of a])
  next
    case F1: False
    then obtain c r3 where r2: "r2 = c # r3" using assms r by (cases r2) (auto simp: utf8_valid.simps(2))
    show thesis
    proof (cases "between 224 239 a")
      case True
      then show thesis using that [of "[b, c]" r3] assms r r2 F1
        by (auto simp: cont_def between_def len_utf8_def utf8_valid.simps(2) [of a] split: if_splits)
    next
      case F2: False
      then obtain d r4 where r3: "r3 = d # r4" using assms r r2 F1 by (cases r3) (auto simp: utf8_valid.simps(2))
      show thesis using that [of "[b, c, d]" r4] assms r r2 r3 F1 F2
        by (auto simp: cont_def between_def len_utf8_def utf8_valid.simps(2) [of a] split: if_splits)
    qed
  qed
qed

lemma norm_loop_copies: "list_all (\<lambda>c. 128 \<le> byte c) bs \<Longrightarrow> norm_loop (bs @ t) = bs @ norm_loop t"
  by (induction bs) (simp_all add: not_ascii_other)

lemma rewrite_at_utf8:
  assumes "rewrite_at b = Some (n, out)" and "utf8_valid b"
  shows "list_all is_ascii out \<and> utf8_valid (drop n b)"
proof -
  have ascii: "is_ascii slash" "is_ascii percent" by (simp_all add: is_ascii_def byte_def)
  from assms(1) show ?thesis
    by (cases rule: rewrite_at_cases)
       (use assms(2) ascii in \<open>auto simp: hex_facts unreserved_facts simp del: not_None_eq\<close>)
qed

lemma norm_loop_utf8: "utf8_valid b \<Longrightarrow> utf8_valid (norm_loop b)"
proof (induction b rule: length_induct)
  case (1 b)
  show ?case
  proof (cases b)
    case (Cons a r)
    show ?thesis
    proof (cases "rewrite_at b")
      case (Some p)
      obtain n out where p: "p = (n, out)" by force
      note u = rewrite_at_utf8 [OF Some [unfolded p] 1(2)]
      have "utf8_valid (norm_loop (drop n b))"
        using 1(1) u rewrite_at_pos [OF Some [unfolded p]] by auto
      then show ?thesis using Some p u by (simp add: norm_loop_Some utf8_ascii_append)
    next
      case None
      show ?thesis
      proof (cases "byte a < 128")
        case True
        then have "is_ascii a" by (simp add: is_ascii_def)
        then show ?thesis using 1 None Cons by (auto simp: norm_loop_None)
      next
        case False
        then have "utf8_valid (a # r)" "128 \<le> byte a" using 1(2) Cons by auto
        then obtain bs t where m: "r = bs @ t" "utf8_valid t" "list_all (\<lambda>c. 128 \<le> byte c) bs"
          "\<forall>u. utf8_valid (a # bs @ u) = utf8_valid u" "len_utf8 a = Suc (length bs)"
          by (rule multibyte_copied)
        have "utf8_valid (norm_loop t)" using 1(1) m Cons by auto
        moreover have "norm_loop b = a # bs @ norm_loop t"
          using False Cons m by (simp add: not_ascii_other norm_loop_copies)
        ultimately show ?thesis using m(4) by metis
      qed
    qed
  qed simp
qed

text \<open>C30. Normalisation, with its two shortcuts for paths that need none, is the plain rewriting loop.
  Its result holds no double slash, is no longer than the path, and is well-formed UTF-8 whenever
  the path is, so that the \<open>expect\<close> at its end never panics.\<close>

theorem normalize_normal:
  assumes "utf8_valid path"
  shows "normalize path = norm_loop path \<and> \<not> contains_str ''//'' (normalize path)
    \<and> length (normalize path) \<le> length path \<and> utf8_valid (normalize path)"
  using norm_loop_utf8 [OF assms] norm_loop_no_double_slash [of path] norm_loop_length [of path]
  by (simp add: normalize_loop contains_str_iff)

theorem normalize_normal_witness:
  "normalize ''//%61pi///x%2f%C3'' = ''/api/x%2F%C3''
   \<and> \<not> contains_str ''//'' ''/api/x%2F%C3'' \<and> utf8_valid ''/api/x%2F%C3''"
proof -
  have u: "utf8_valid ''//%61pi///x%2f%C3''" "normalize ''//%61pi///x%2f%C3'' = ''/api/x%2F%C3''" by code_simp+
  show ?thesis using normalize_normal [OF u(1)] unfolding u(2) by blast
qed

end
