(* ===== verification/Bad_Path.thy ===== *)
theory Bad_Path
  imports Path_Normal
begin

text \<open>
  The request-path checks of \<open>crates/core/src/path.rs\<close> that need no routing table: \<open>suspicious\<close>,
  \<open>flatten\<close>, \<open>strip_params\<close>, \<open>bad_path\<close>, \<open>bad_path_normalized\<close> and \<open>dot_piece\<close>. Loops over an index
  walk the suffix \<open>b[i..]\<close>, and slice patterns are lists of byte predicates.
\<close>

section \<open>Definitions\<close>

fun starts :: "(char \<Rightarrow> bool) list \<Rightarrow> string \<Rightarrow> bool" where
  "starts [] s = True"
| "starts (P # Ps) [] = False"
| "starts (P # Ps) (c # cs) = (P c \<and> starts Ps cs)"

abbreviation one :: "char \<Rightarrow> char \<Rightarrow> bool" where "one c \<equiv> \<lambda>x. x = c"
abbreviation either :: "char \<Rightarrow> char \<Rightarrow> char \<Rightarrow> bool" where "either c d \<equiv> \<lambda>x. x = c \<or> x = d"

text \<open>\<open>%2f\<close> and \<open>%5c\<close>, and the same encoded twice.\<close>

definition enc_sep :: "string \<Rightarrow> bool" where
  "enc_sep s \<longleftrightarrow>
     starts [one percent, one CHR ''2'', either CHR ''f'' CHR ''F''] s
     \<or> starts [one percent, one CHR ''5'', either CHR ''c'' CHR ''C''] s"

definition enc_sep2 :: "string \<Rightarrow> bool" where
  "enc_sep2 s \<longleftrightarrow>
     starts [one percent, one CHR ''2'', one CHR ''5'', one CHR ''2'', either CHR ''f'' CHR ''F''] s
     \<or> starts [one percent, one CHR ''2'', one CHR ''5'', one CHR ''5'', either CHR ''c'' CHR ''C''] s"

fun suspicious :: "string \<Rightarrow> bool" where
  "suspicious [] = False"
| "suspicious (c # r) =
     (c = backslash \<or> c = semicolon \<or> enc_sep (c # r) \<or> enc_sep2 (c # r) \<or> suspicious r)"

function flatten :: "string \<Rightarrow> string" where
  "flatten s =
     (case s of
        [] \<Rightarrow> []
      | c # r \<Rightarrow>
          if enc_sep2 s then slash # flatten (drop 5 s)
          else if enc_sep s then slash # flatten (drop 3 s)
          else if c = backslash then slash # flatten r
          else (let n = len_utf8 c in take n s @ flatten (drop n s)))"
  by pat_completeness auto
termination
  by (relation "measure length") (auto simp: len_utf8_def)

declare flatten.simps [simp del]

definition strip_params :: "string \<Rightarrow> string" where
  "strip_params s = join_with [slash] (map (\<lambda>seg. hd (split_on semicolon seg)) (split_on slash s))"

text \<open>The loop of \<open>dot_piece\<close>: how many dots, or \<^const>\<open>None\<close> where it returns false.\<close>

function dot_loop :: "nat \<Rightarrow> string \<Rightarrow> nat option" where
  "dot_loop dots b =
     (case b of
        [] \<Rightarrow> Some dots
      | c # r \<Rightarrow>
          if c = dot then dot_loop (Suc dots) r
          else if starts [one percent, one CHR ''2'', either CHR ''e'' CHR ''E''] b
          then dot_loop (Suc dots) (drop 3 b)
          else None)"
  by pat_completeness auto
termination
  by (relation "measure (\<lambda>(d, b). length b)") auto

declare dot_loop.simps [simp del]

definition dot_piece :: "string \<Rightarrow> bool" where
  "dot_piece piece = (dot_loop 0 (takeWhile (\<lambda>c. c \<noteq> semicolon) piece) \<in> {Some 1, Some 2})"

text \<open>The match of \<open>bad_path\<close>: a separator of some length, an outright refusal, or neither.\<close>

datatype separator = Sep nat | Reject | NoSep

definition sep_at :: "string \<Rightarrow> separator" where
  "sep_at b =
     (if b = [] then Sep 0
      else if starts [either slash backslash] b then Sep 1
      else if enc_sep b then Sep 3
      else if starts [one percent, one CHR ''0'', one CHR ''0''] b
           \<or> starts [one percent, either CHR ''u'' CHR ''U''] b then Reject
      else if starts [one percent, one CHR ''2'', one CHR ''5'', one CHR ''2'',
                      \<lambda>x. x \<in> {CHR ''e'', CHR ''E'', CHR ''f'', CHR ''F''}] b
           \<or> starts [one percent, one CHR ''2'', one CHR ''5'', one CHR ''5'',
                     either CHR ''c'' CHR ''C''] b then Reject
      else NoSep)"

text \<open>\<open>piece\<close> is \<open>b[start..i]\<close>; the loop ends after the separator at the end of the path.\<close>

function bad_loop :: "string \<Rightarrow> string \<Rightarrow> bool" where
  "bad_loop piece b =
     (case sep_at b of
        Reject \<Rightarrow> True
      | Sep n \<Rightarrow>
          if dot_piece piece then True
          else if b = [] then False else bad_loop [] (drop (max n 1) b)
      | NoSep \<Rightarrow> (case b of [] \<Rightarrow> False | c # r \<Rightarrow> bad_loop (piece @ [c]) r))"
  by pat_completeness auto
termination
  by (relation "measure (\<lambda>(p, b). length b)") auto

declare bad_loop.simps [simp del]

definition bad_path :: "string \<Rightarrow> bool" where
  "bad_path path = bad_loop [] path"

definition bad_path_normalized :: "string \<Rightarrow> bool" where
  "bad_path_normalized raw \<longleftrightarrow>
     bad_path raw \<or> (contains_str [percent] raw \<and> bad_path (normalize raw))"

section \<open>Dot pieces\<close>

text \<open>What an upstream reads that decodes \<open>%2e\<close>.\<close>

function decode_dots :: "string \<Rightarrow> string" where
  "decode_dots b =
     (case b of
        [] \<Rightarrow> []
      | c # r \<Rightarrow>
          if starts [one percent, one CHR ''2'', either CHR ''e'' CHR ''E''] b
          then dot # decode_dots (drop 3 b) else c # decode_dots r)"
  by pat_completeness auto
termination
  by (relation "measure length") auto

declare decode_dots.simps [simp del]

lemma decode_dots_simps [simp]:
  "decode_dots [] = []"
  "c \<noteq> percent \<Longrightarrow> decode_dots (c # r) = c # decode_dots r"
  "c = CHR ''e'' \<or> c = CHR ''E'' \<Longrightarrow> decode_dots (percent # CHR ''2'' # c # r) = dot # decode_dots r"
  by (subst decode_dots.simps, auto)+

lemma decode_dots_other:
  assumes "\<not> starts [one percent, one CHR ''2'', either CHR ''e'' CHR ''E''] (c # r)"
  shows "decode_dots (c # r) = c # decode_dots r"
  using assms by (subst decode_dots.simps) simp

lemma starts_dot:
  assumes "starts [one percent, one CHR ''2'', either CHR ''e'' CHR ''E''] b"
  obtains c r where "b = percent # CHR ''2'' # c # r" "c = CHR ''e'' \<or> c = CHR ''E''"
  using assms by (auto elim!: starts.elims)

lemma dot_loop_decode:
  "dot_loop n b = (if \<forall>c \<in> set (decode_dots b). c = dot then Some (n + length (decode_dots b)) else None)"
proof (induction n b rule: dot_loop.induct)
  case (1 n b)
  show ?case
  proof (cases b)
    case (Cons c r)
    show ?thesis
    proof (cases "starts [one percent, one CHR ''2'', either CHR ''e'' CHR ''E''] b")
      case True
      then obtain e t where b: "b = percent # CHR ''2'' # e # t" "e = CHR ''e'' \<or> e = CHR ''E''"
        by (rule starts_dot)
      have "dot_loop n b = dot_loop (Suc n) t" using b by (subst dot_loop.simps) auto
      then show ?thesis using 1(2) [of percent "CHR ''2'' # e # t"] b by simp
    next
      case False
      then have d: "decode_dots b = c # decode_dots r" using Cons by (simp add: decode_dots_other)
      have "dot_loop n b = (if c = dot then dot_loop (Suc n) r else None)"
        using False Cons by (subst dot_loop.simps) auto
      then show ?thesis using 1(1) [of c r] Cons d by simp
    qed
  qed (simp add: dot_loop.simps)
qed

text \<open>A piece is a dot segment when an upstream that drops \<open>;params\<close> and decodes \<open>%2e\<close> reads \<open>.\<close> or \<open>..\<close>.\<close>

definition reads_as_dots :: "string \<Rightarrow> bool" where
  "reads_as_dots seg \<longleftrightarrow>
     decode_dots (takeWhile (\<lambda>c. c \<noteq> semicolon) seg) \<in> {[dot], [dot, dot]}"

lemma only_dots:
  "(if \<forall>c \<in> set d. c = dot then Some (length d) else None) \<in> {Some 1, Some 2}
   \<longleftrightarrow> d \<in> {[dot], [dot, dot]}"
  by (cases d; cases "tl d"; cases "tl (tl d)") auto

lemma dot_piece_iff: "dot_piece seg = reads_as_dots seg"
  unfolding dot_piece_def reads_as_dots_def dot_loop_decode add_0 only_dots ..

section \<open>What the path checks promise\<close>

text \<open>\<open>flatten\<close> copies whole characters; on well-formed UTF-8 that is the same as copying bytes.\<close>

fun flat :: "string \<Rightarrow> string" where
  "flat [] = []"
| "flat (c # r) =
     (if enc_sep2 (c # r) then slash # flat (drop 4 r)
      else if enc_sep (c # r) then slash # flat (drop 2 r)
      else if c = backslash then slash # flat r
      else c # flat r)"

lemma enc_head: "enc_sep (c # r) \<or> enc_sep2 (c # r) \<Longrightarrow> c = percent"
  by (auto simp: enc_sep_def enc_sep2_def)

lemma enc_sepE:
  assumes "enc_sep b"
  obtains x y r where "b = percent # x # y # r" "x \<noteq> percent" "y \<noteq> percent" "is_ascii x" "is_ascii y"
  using assms by (auto simp: enc_sep_def is_ascii_def byte_def elim!: starts.elims)

lemma enc_sep2E:
  assumes "enc_sep2 b"
  obtains w x y z r where "b = percent # w # x # y # z # r"
    "is_ascii w" "is_ascii x" "is_ascii y" "is_ascii z"
  using assms by (auto simp: enc_sep2_def is_ascii_def byte_def elim!: starts.elims)

lemma flat_copies: "list_all (\<lambda>c. 128 \<le> byte c) bs \<Longrightarrow> flat (bs @ t) = bs @ flat t"
proof (induction bs)
  case (Cons c bs)
  then have "c \<noteq> percent" "c \<noteq> backslash" by (auto simp: byte_def)
  then show ?case using Cons enc_head [of c "bs @ t"] by auto
qed simp

lemma ascii_percent: "is_ascii percent" "is_ascii backslash"
  by (simp_all add: is_ascii_def byte_def)

lemma flatten_flat: "utf8_valid s \<Longrightarrow> flatten s = flat s"
proof (induction s rule: length_induct)
  case (1 s)
  show ?case
  proof (cases s)
    case (Cons c r)
    consider (two) "enc_sep2 s" | (one) "\<not> enc_sep2 s" "enc_sep s"
      | (bs) "\<not> enc_sep2 s" "\<not> enc_sep s" "c = backslash"
      | (ascii) "\<not> enc_sep2 s" "\<not> enc_sep s" "c \<noteq> backslash" "byte c < 128"
      | (multi) "\<not> enc_sep2 s" "\<not> enc_sep s" "c \<noteq> backslash" "128 \<le> byte c" by linarith
    then show ?thesis
    proof cases
      case two
      then obtain w x y z t where s: "s = percent # w # x # y # z # t"
        "is_ascii w" "is_ascii x" "is_ascii y" "is_ascii z" by (rule enc_sep2E)
      then have "flatten t = flat t" using 1 by (simp add: ascii_percent)
      then show ?thesis using two s by (subst flatten.simps) simp
    next
      case one
      then obtain x y t where s: "s = percent # x # y # t" "is_ascii x" "is_ascii y"
        by (blast elim: enc_sepE)
      then have "flatten t = flat t" using 1 by (simp add: ascii_percent)
      then show ?thesis using one s by (subst flatten.simps) simp
    next
      case bs
      then have "flatten r = flat r" using 1 Cons by (simp add: ascii_percent)
      then show ?thesis using bs Cons by (subst flatten.simps) simp
    next
      case ascii
      then have "flatten r = flat r" using 1 Cons by (simp add: is_ascii_def)
      then show ?thesis using ascii Cons by (subst flatten.simps) (simp add: len_utf8_def)
    next
      case multi
      have "utf8_valid (c # r)" using 1(2) Cons by simp
      then obtain bs t where m: "r = bs @ t" "utf8_valid t" "list_all (\<lambda>c. 128 \<le> byte c) bs"
        "\<forall>u. utf8_valid (c # bs @ u) = utf8_valid u" "len_utf8 c = Suc (length bs)"
        using multi(4) by (rule multibyte_copied)
      have "flatten t = flat t" using 1 Cons m by simp
      then have "flatten s = c # bs @ flat t"
        using multi Cons m by (subst flatten.simps) (simp add: Let_def)
      then show ?thesis using multi Cons flat_copies [of "c # bs" t] m by simp
    qed
  qed (simp add: flatten.simps)
qed

text \<open>The escapes refused wherever they occur: \<open>%00\<close>, \<open>%u\<close>, and a dot or separator encoded twice.\<close>

definition forbidden :: "string \<Rightarrow> bool" where
  "forbidden b \<longleftrightarrow>
     starts [one percent, one CHR ''0'', one CHR ''0''] b
     \<or> starts [one percent, either CHR ''u'' CHR ''U''] b
     \<or> starts [one percent, one CHR ''2'', one CHR ''5'', one CHR ''2'', either CHR ''e'' CHR ''E''] b
     \<or> enc_sep2 b"

lemma forbidden_head: "forbidden b \<Longrightarrow> \<exists>r. b = percent # r"
  by (cases b) (auto simp: forbidden_def enc_sep2_def)

lemma forbidden_not_sep: "forbidden b \<Longrightarrow> \<not> enc_sep b"
  by (auto simp: forbidden_def enc_sep_def enc_sep2_def elim!: starts.elims)

lemma starts_mono: "list_all2 (\<lambda>P Q. \<forall>c. P c \<longrightarrow> Q c) Ps Qs \<Longrightarrow> starts Ps s \<Longrightarrow> starts Qs s"
  by (induction Ps s arbitrary: Qs rule: starts.induct) (auto simp: list_all2_Cons1)

lemma starts_e_or_f:
  "starts [one percent, one CHR ''2'', one CHR ''5'', one CHR ''2'',
           \<lambda>x. x \<in> {CHR ''e'', CHR ''E'', CHR ''f'', CHR ''F''}] b
   \<longleftrightarrow> starts [one percent, one CHR ''2'', one CHR ''5'', one CHR ''2'', either CHR ''e'' CHR ''E''] b
     \<or> starts [one percent, one CHR ''2'', one CHR ''5'', one CHR ''2'', either CHR ''f'' CHR ''F''] b"
  by (cases b; cases "tl b"; cases "tl (tl b)"; cases "tl (tl (tl b))";
      cases "tl (tl (tl (tl b)))") auto

lemma sep_at_cases:
  obtains (empty) "b = []" "sep_at b = Sep 0"
  | (char) c r where "b = c # r" "c = slash \<or> c = backslash" "sep_at b = Sep 1"
  | (escape) x y r where "b = percent # x # y # r" "x \<noteq> percent" "y \<noteq> percent"
      "enc_sep b" "\<not> enc_sep2 b" "sep_at b = Sep 3"
  | (reject) "forbidden b" "sep_at b = Reject"
  | (none) c r where "b = c # r" "c \<noteq> slash" "c \<noteq> backslash" "\<not> enc_sep b" "\<not> enc_sep2 b"
      "\<not> forbidden b" "sep_at b = NoSep"
proof -
  have sep: "sep_at b =
     (if b = [] then Sep 0
      else if starts [either slash backslash] b then Sep 1
      else if enc_sep b then Sep 3
      else if forbidden b then Reject else NoSep)"
    unfolding sep_at_def starts_e_or_f by (auto simp: forbidden_def enc_sep2_def)
  show thesis
  proof (cases b)
    case Nil
    then show thesis using that(1) sep by simp
  next
    case (Cons c r)
    consider (a) "c = slash \<or> c = backslash" | (b) "c \<noteq> slash" "c \<noteq> backslash" "enc_sep b"
      | (c) "c \<noteq> slash" "c \<noteq> backslash" "\<not> enc_sep b" by blast
    then show thesis
    proof cases
      case a
      then have "sep_at b = Sep 1" using Cons sep by simp
      then show thesis using that(2) Cons a by blast
    next
      case b
      from b(3) obtain x y t where "b = percent # x # y # t" "x \<noteq> percent" "y \<noteq> percent"
        "is_ascii x" "is_ascii y" by (rule enc_sepE)
      moreover have "\<not> enc_sep2 b" using b(3) forbidden_not_sep by (auto simp: forbidden_def)
      moreover have "sep_at b = Sep 3" using b Cons sep by simp
      ultimately show thesis using that(3) b(3) by blast
    next
      case c
      show thesis
      proof (cases "forbidden b")
        case True
        then have "sep_at b = Reject" using c Cons sep by simp
        then show thesis using that(4) True by blast
      next
        case False
        then have "\<not> enc_sep2 b" by (simp add: forbidden_def)
        moreover have "sep_at b = NoSep" using c Cons sep False by simp
        ultimately show thesis using that(5) c Cons False by blast
      qed
    qed
  qed
qed

lemma suffix_Cons_forbidden:
  "c \<noteq> percent \<or> \<not> forbidden (c # r) \<Longrightarrow>
   (\<exists>t. suffix t (c # r) \<and> forbidden t) \<longleftrightarrow> (\<exists>t. suffix t r \<and> forbidden t)"
  by (auto simp: suffix_Cons dest: forbidden_head)

lemma suffix_escape_forbidden:
  assumes "\<not> forbidden (percent # x # y # r)" "x \<noteq> percent" "y \<noteq> percent"
  shows "(\<exists>t. suffix t (percent # x # y # r) \<and> forbidden t) \<longleftrightarrow> (\<exists>t. suffix t r \<and> forbidden t)"
  using assms by (simp add: suffix_Cons_forbidden)

lemma bad_loop_iff:
  "slash \<notin> set piece \<Longrightarrow>
   bad_loop piece b \<longleftrightarrow>
     (\<exists>t. suffix t b \<and> forbidden t) \<or> (\<exists>seg \<in> set (split_on slash (piece @ flat b)). reads_as_dots seg)"
proof (induction piece b rule: bad_loop.induct)
  case (1 piece b)
  show ?case
  proof (cases b rule: sep_at_cases)
    case empty
    then show ?thesis using 1(3) forbidden_head
      by (subst bad_loop.simps) (auto simp: dot_piece_iff split_on_single)
  next
    case (char c r)
    then have "flat b = slash # flat r" using enc_head [of c r] by auto
    moreover have "c \<noteq> percent" using char by auto
    moreover have "bad_loop piece b \<longleftrightarrow> reads_as_dots piece \<or> bad_loop [] r"
      using char by (subst bad_loop.simps) (simp add: dot_piece_iff)
    ultimately show ?thesis using char 1
      by (auto simp: split_on_append_sep split_on_single suffix_Cons_forbidden dot_piece_iff)
  next
    case (escape x y r)
    then have "flat b = slash # flat r" by simp
    moreover have "\<not> forbidden b" using escape forbidden_not_sep by blast
    moreover have "bad_loop piece b \<longleftrightarrow> reads_as_dots piece \<or> bad_loop [] r"
      using escape by (subst bad_loop.simps) (simp add: dot_piece_iff)
    ultimately show ?thesis using escape 1
      by (auto simp: split_on_append_sep split_on_single suffix_escape_forbidden dot_piece_iff)
  next
    case reject
    then show ?thesis by (subst bad_loop.simps) auto
  next
    case (none c r)
    then have "flat b = c # flat r" by simp
    moreover have "bad_loop piece b \<longleftrightarrow> bad_loop (piece @ [c]) r"
      using none by (subst bad_loop.simps) simp
    moreover have "(\<exists>t. suffix t b \<and> forbidden t) \<longleftrightarrow> (\<exists>t. suffix t r \<and> forbidden t)"
      using none by (simp add: suffix_Cons_forbidden)
    ultimately show ?thesis using none 1 by simp
  qed
qed

text \<open>C29. \<open>bad_path\<close> refuses exactly the paths that hold one of the forbidden escapes (\<open>%00\<close>, \<open>%u\<close>, a
  doubly encoded dot or separator) or that a normalising upstream could read as holding a dot
  segment: one that takes \<open>%2f\<close>, \<open>%5c\<close> and \<open>\\<close> for slashes, splits there, drops \<open>;params\<close> from
  each piece and decodes \<open>%2e\<close>.\<close>

theorem bad_path_iff:
  assumes "utf8_valid path"
  shows "bad_path path \<longleftrightarrow>
    (\<exists>t. suffix t path \<and> forbidden t)
    \<or> (\<exists>seg \<in> set (split_on slash (flatten path)). reads_as_dots seg)"
  using bad_loop_iff [of "[]" path] flatten_flat [OF assms] by (simp add: bad_path_def)

theorem bad_path_iff_witness:
  "bad_path ''/a%2F%2e.;x/b'' \<and> reads_as_dots ''%2e.;x'' \<and> \<not> bad_path ''/group%2Fproject/a.b''
   \<and> \<not> forbidden ''%2Fproject/a.b''"
proof -
  have u: "utf8_valid ''/a%2F%2e.;x/b''" "utf8_valid ''/group%2Fproject/a.b''"
    "''%2e.;x'' \<in> set (split_on slash (flatten ''/a%2F%2e.;x/b''))" "reads_as_dots ''%2e.;x''"
    "suffix ''%2Fproject/a.b'' ''/group%2Fproject/a.b''" "\<not> bad_path ''/group%2Fproject/a.b''" by code_simp+
  show ?thesis using bad_path_iff [OF u(1)] bad_path_iff [OF u(2)] u(3-) by blast
qed

end
