(* ===== verification/Std_Net.thy ===== *)
theory Std_Net
  imports Core_Error
begin

text \<open>
  What the sources use of \<open>std::net\<close> and of integer parsing: \<open>IpAddr\<close>, its parser (the
  recursive-descent parser of the standard library, with its leading-zero and group rules), its
  \<open>Display\<close>, the parser of \<open>SocketAddr\<close> and the classification of addresses.
\<close>

section \<open>Addresses\<close>

datatype ip_addr = V4 "32 word" | V6 "128 word"

record socket_addr =
  sa_ip :: ip_addr
  sa_port :: u16

definition to_ipv4_mapped :: "128 word \<Rightarrow> 32 word option" where
  "to_ipv4_mapped w = (if drop_bit 32 w = 0xFFFF then Some (ucast w) else None)"

definition of_octets :: "int list \<Rightarrow> 32 word" where
  "of_octets os = fold (\<lambda>o' a. a * 256 + of_int o') os 0"

definition of_groups :: "int list \<Rightarrow> 128 word" where
  "of_groups gs = fold (\<lambda>g a. a * 65536 + of_int g) gs 0"

definition octet :: "32 word \<Rightarrow> nat \<Rightarrow> int" where
  "octet w i = uint (drop_bit (8 * (3 - i)) w) mod 256"

definition segment :: "128 word \<Rightarrow> nat \<Rightarrow> int" where
  "segment w i = uint (drop_bit (16 * (7 - i)) w) mod 65536"

section \<open>Integers\<close>

text \<open>\<open>u8::from_str\<close> and its siblings: an optional \<open>+\<close>, then at least one decimal digit, at most \<open>m\<close>.\<close>

definition digits_value :: "string \<Rightarrow> int" where
  "digits_value s = fold (\<lambda>c a. a * 10 + int (byte c - 48)) s 0"

definition parse_uint :: "int \<Rightarrow> string \<Rightarrow> int option" where
  "parse_uint m s =
     (let d = (case s of c # r \<Rightarrow> if c = CHR ''+'' then r else s | [] \<Rightarrow> []) in
      if d = [] \<or> \<not> list_all is_ascii_digit d \<or> m < digits_value d then None
      else Some (digits_value d))"

definition digit_char :: "int \<Rightarrow> char" where
  "digit_char d = char_of (nat (if d < 10 then 48 + d else 87 + d))"

function show_radix :: "int \<Rightarrow> int \<Rightarrow> string" where
  "show_radix b n =
     (if b < 2 \<or> n < b then [digit_char n] else show_radix b (n div b) @ [digit_char (n mod b)])"
  by pat_completeness auto
termination
  by (relation "measure (nat \<circ> snd)") (auto simp: int_div_less_self)

declare show_radix.simps [simp del]

abbreviation show_int :: "int \<Rightarrow> string" where
  "show_int \<equiv> show_radix 10"

section \<open>The address parser\<close>

text \<open>A parser takes the input and returns a value and the rest, or \<^const>\<open>None\<close> with the input untouched.\<close>

definition to_digit :: "int \<Rightarrow> char \<Rightarrow> int option" where
  "to_digit radix c =
     (let v = (if is_ascii_digit c then Some (int (byte c - 48))
               else if is_ascii_lowercase c then Some (int (byte c - 87))
               else if is_ascii_uppercase c then Some (int (byte c - 55))
               else None) in
      case v of Some d \<Rightarrow> if d < radix then Some d else None | None \<Rightarrow> None)"

text \<open>The digits of \<open>read_number\<close>: value, how many, and the rest; \<open>m\<close> is the largest value of the type.\<close>

fun read_digits :: "int \<Rightarrow> nat option \<Rightarrow> int \<Rightarrow> int \<Rightarrow> nat \<Rightarrow> string \<Rightarrow> (int \<times> nat \<times> string) option" where
  "read_digits radix max_digits m v n [] = Some (v, n, [])"
| "read_digits radix max_digits m v n (c # s) =
     (case to_digit radix c of
        None \<Rightarrow> Some (v, n, c # s)
      | Some d \<Rightarrow>
          let v' = v * radix + d in
          if m < v' then None
          else if (case max_digits of Some k \<Rightarrow> k < Suc n | None \<Rightarrow> False) then None
          else read_digits radix max_digits m v' (Suc n) s)"

definition read_number :: "int \<Rightarrow> nat option \<Rightarrow> bool \<Rightarrow> int \<Rightarrow> string \<Rightarrow> (int \<times> string) option" where
  "read_number radix max_digits allow_zero_prefix m s =
     (case read_digits radix max_digits m 0 0 s of
        None \<Rightarrow> None
      | Some (v, n, r) \<Rightarrow>
          if n = 0 then None
          else if \<not> allow_zero_prefix \<and> hd s = CHR ''0'' \<and> 1 < n then None
          else Some (v, r))"

definition read_char :: "char \<Rightarrow> string \<Rightarrow> string option" where
  "read_char c s = (case s of x # r \<Rightarrow> if x = c then Some r else None | [] \<Rightarrow> None)"

definition read_separator ::
    "char \<Rightarrow> nat \<Rightarrow> (string \<Rightarrow> ('a \<times> string) option) \<Rightarrow> string \<Rightarrow> ('a \<times> string) option" where
  "read_separator sep i inner s =
     (if 0 < i then (case read_char sep s of None \<Rightarrow> None | Some r \<Rightarrow> inner r) else inner s)"

fun read_octets :: "nat \<Rightarrow> nat \<Rightarrow> string \<Rightarrow> (int list \<times> string) option" where
  "read_octets i 0 s = Some ([], s)"
| "read_octets i (Suc k) s =
     (case read_separator dot i (read_number 10 (Some 3) False 255) s of
        None \<Rightarrow> None
      | Some (v, r) \<Rightarrow> map_option (\<lambda>(vs, t). (v # vs, t)) (read_octets (Suc i) k r))"

definition read_ipv4_addr :: "string \<Rightarrow> (int list \<times> string) option" where
  "read_ipv4_addr s = read_octets 0 4 s"

text \<open>\<open>read_groups\<close> with \<open>k\<close> slots left of a slice of \<open>i + k\<close>: the groups read, whether they end
  in an embedded IPv4 address, and the rest.\<close>

fun read_groups :: "nat \<Rightarrow> nat \<Rightarrow> string \<Rightarrow> int list \<times> bool \<times> string" where
  "read_groups i 0 s = ([], False, s)"
| "read_groups i (Suc k) s =
     (case (if 0 < k then read_separator CHR '':'' i read_ipv4_addr s else None) of
        Some (os, r) \<Rightarrow> ([os ! 0 * 256 + os ! 1, os ! 2 * 256 + os ! 3], True, r)
      | None \<Rightarrow>
          (case read_separator CHR '':'' i (read_number 16 (Some 4) True 65535) s of
             None \<Rightarrow> ([], False, s)
           | Some (g, r) \<Rightarrow>
               let (gs, v4, t) = read_groups (Suc i) k r in (g # gs, v4, t)))"

definition read_ipv6_addr :: "string \<Rightarrow> (128 word \<times> string) option" where
  "read_ipv6_addr s =
     (let (head, head_ipv4, r) = read_groups 0 8 s in
      if length head = 8 then Some (of_groups head, r)
      else if head_ipv4 then None
      else case read_char CHR '':'' r of
        None \<Rightarrow> None
      | Some r1 \<Rightarrow>
          (case read_char CHR '':'' r1 of
             None \<Rightarrow> None
           | Some r2 \<Rightarrow>
               let (tail, _, t) = read_groups 0 (8 - (length head + 1)) r2 in
               Some (of_groups (head @ replicate (8 - length head - length tail) 0 @ tail), t)))"

definition read_ip_addr :: "string \<Rightarrow> (ip_addr \<times> string) option" where
  "read_ip_addr s =
     (case read_ipv4_addr s of
        Some (os, r) \<Rightarrow> Some (V4 (of_octets os), r)
      | None \<Rightarrow> map_option (\<lambda>(w, r). (V6 w, r)) (read_ipv6_addr s))"

text \<open>\<open>IpAddr::from_str\<close>: the whole input must be read.\<close>

definition parse_ip :: "string \<Rightarrow> ip_addr option" where
  "parse_ip s = (case read_ip_addr s of Some (ip, []) \<Rightarrow> Some ip | _ \<Rightarrow> None)"

definition read_port :: "string \<Rightarrow> (int \<times> string) option" where
  "read_port s = (case read_char CHR '':'' s of None \<Rightarrow> None | Some r \<Rightarrow> read_number 10 None True 65535 r)"

definition read_scope_id :: "string \<Rightarrow> (int \<times> string) option" where
  "read_scope_id s =
     (case read_char percent s of None \<Rightarrow> None | Some r \<Rightarrow> read_number 10 None True 4294967295 r)"

definition read_socket_addr_v4 :: "string \<Rightarrow> (socket_addr \<times> string) option" where
  "read_socket_addr_v4 s =
     (case read_ipv4_addr s of
        None \<Rightarrow> None
      | Some (os, r) \<Rightarrow>
          map_option (\<lambda>(p, t). (\<lparr>sa_ip = V4 (of_octets os), sa_port = of_int p\<rparr>, t)) (read_port r))"

definition read_socket_addr_v6 :: "string \<Rightarrow> (socket_addr \<times> string) option" where
  "read_socket_addr_v6 s =
     (case read_char CHR ''['' s of
        None \<Rightarrow> None
      | Some r \<Rightarrow>
          (case read_ipv6_addr r of
             None \<Rightarrow> None
           | Some (w, r1) \<Rightarrow>
               let r2 = (case read_scope_id r1 of Some (_, t) \<Rightarrow> t | None \<Rightarrow> r1) in
               (case read_char CHR '']'' r2 of
                  None \<Rightarrow> None
                | Some r3 \<Rightarrow>
                    map_option (\<lambda>(p, t). (\<lparr>sa_ip = V6 w, sa_port = of_int p\<rparr>, t)) (read_port r3))))"

text \<open>\<open>SocketAddr::from_str\<close>.\<close>

definition parse_socket_addr :: "string \<Rightarrow> socket_addr option" where
  "parse_socket_addr s =
     (case (case read_socket_addr_v4 s of Some x \<Rightarrow> Some x | None \<Rightarrow> read_socket_addr_v6 s) of
        Some (a, []) \<Rightarrow> Some a
      | _ \<Rightarrow> None)"

section \<open>Display\<close>

definition show_ipv4 :: "32 word \<Rightarrow> string" where
  "show_ipv4 w = join_with [dot] (map (\<lambda>i. show_int (octet w i)) [0, 1, 2, 3])"

text \<open>The first longest run of zero groups, as start and length.\<close>

fun zero_run :: "nat \<Rightarrow> int list \<Rightarrow> nat \<times> nat \<Rightarrow> nat \<times> nat \<Rightarrow> nat \<times> nat" where
  "zero_run i [] longest current = longest"
| "zero_run i (g # gs) longest current =
     (if g = 0 then
        (let cur = (if snd current = 0 then i else fst current, Suc (snd current)) in
         zero_run (Suc i) gs (if snd longest < snd cur then cur else longest) cur)
      else zero_run (Suc i) gs longest (0, 0))"

definition show_groups :: "int list \<Rightarrow> string" where
  "show_groups gs = join_with '':'' (map (show_radix 16) gs)"

definition show_ipv6 :: "128 word \<Rightarrow> string" where
  "show_ipv6 w =
     (case to_ipv4_mapped w of
        Some v4 \<Rightarrow> ''::ffff:'' @ show_ipv4 v4
      | None \<Rightarrow>
          (let gs = map (segment w) [0, 1, 2, 3, 4, 5, 6, 7];
               (start, len) = zero_run 0 gs (0, 0) (0, 0) in
           if 1 < len then show_groups (take start gs) @ ''::'' @ show_groups (drop (start + len) gs)
           else show_groups gs))"

definition show_ip :: "ip_addr \<Rightarrow> string" where
  "show_ip ip = (case ip of V4 w \<Rightarrow> show_ipv4 w | V6 w \<Rightarrow> show_ipv6 w)"

definition to_canonical :: "ip_addr \<Rightarrow> ip_addr" where
  "to_canonical ip =
     (case ip of V4 w \<Rightarrow> V4 w
      | V6 w \<Rightarrow> (case to_ipv4_mapped w of Some v4 \<Rightarrow> V4 v4 | None \<Rightarrow> V6 w))"

lemma ascii_digit_char: "0 \<le> d \<Longrightarrow> d < 16 \<Longrightarrow> is_ascii_graphic (digit_char d)"
  by (auto simp: digit_char_def is_ascii_graphic_def byte_char_of)

end
