(* ===== verification/Proxies.thy ===== *)
theory Proxies
  imports Std_Net
begin

text \<open>The trusted-proxy ranges of \<open>crates/core/src/proxies.rs\<close>.\<close>

section \<open>Definitions\<close>

record trusted_proxies =
  nets :: "(ip_addr \<times> u8) list"

definition default_trusted_proxies :: trusted_proxies where
  "default_trusted_proxies = \<lparr>nets = []\<rparr>"

definition normalise :: "ip_addr \<Rightarrow> ip_addr" where
  "normalise ip =
     (case ip of
        V6 v6 \<Rightarrow> (case to_ipv4_mapped v6 of None \<Rightarrow> V6 v6 | Some v4 \<Rightarrow> V4 v4)
      | v4 \<Rightarrow> v4)"

definition bits :: "ip_addr \<Rightarrow> u128 \<times> u8" where
  "bits ip = (case ip of V4 v4 \<Rightarrow> (ucast v4, 32) | V6 v6 \<Rightarrow> (v6, 128))"

text \<open>\<open>raw.split_once('/')\<close>.\<close>

definition split_once :: "char \<Rightarrow> string \<Rightarrow> (string \<times> string) option" where
  "split_once c s =
     (case dropWhile (\<lambda>x. x \<noteq> c) s of [] \<Rightarrow> None | _ # r \<Rightarrow> Some (takeWhile (\<lambda>x. x \<noteq> c) s, r))"

definition prefix_length :: "int \<Rightarrow> string option \<Rightarrow> int option" where
  "prefix_length mx p =
     (case p of
        None \<Rightarrow> Some mx
      | Some p \<Rightarrow>
          if \<not> list_all is_ascii_digit p then None
          else (case parse_uint 255 p of
                  None \<Rightarrow> None
                | Some l \<Rightarrow> if l \<le> mx then Some l else None))"

text \<open>\<open>::ffff:a.b.c.d/N\<close> with \<open>N\<close> at least 96 is the IPv4 range \<open>a.b.c.d/(N-96)\<close>.\<close>

definition net_of :: "string \<Rightarrow> ip_addr \<Rightarrow> int \<Rightarrow> (error, ip_addr \<times> u8) result" where
  "net_of raw ip len =
     (case (normalise ip, ip) of
        (V4 v4, V6 _) \<Rightarrow>
          if 96 \<le> len then Inr (V4 v4, of_int len - 96) else Inl (InvalidCidr raw MappedRangeNeeds96)
      | _ \<Rightarrow> Inr (ip, of_int len))"

text \<open>One round of the loop of \<open>parse\<close>.\<close>

definition parse_cidr :: "string \<Rightarrow> (error, ip_addr \<times> u8) result" where
  "parse_cidr raw =
     (let (addr, p) = (case split_once slash raw of Some (a, p) \<Rightarrow> (a, Some p) | None \<Rightarrow> (raw, None)) in
      case parse_ip addr of
        None \<Rightarrow> Inl (InvalidCidr raw NotAnIpAddress)
      | Some ip \<Rightarrow>
          (let max = (case ip of V4 _ \<Rightarrow> 32 | V6 _ \<Rightarrow> 128) in
           case prefix_length max p of
             None \<Rightarrow> Inl (InvalidCidr raw (PrefixLengthRange max))
           | Some len \<Rightarrow> net_of raw ip len))"

fun parse_loop :: "string list \<Rightarrow> (ip_addr \<times> u8) list \<Rightarrow> (error, trusted_proxies) result" where
  "parse_loop [] acc = Inr \<lparr>nets = acc\<rparr>"
| "parse_loop (raw # rest) acc =
     (case parse_cidr raw of Inl e \<Rightarrow> Inl e | Inr net \<Rightarrow> parse_loop rest (acc @ [net]))"

definition parse_proxies :: "string list \<Rightarrow> (error, trusted_proxies) result" where
  "parse_proxies cidrs = parse_loop cidrs []"

definition is_empty :: "trusted_proxies \<Rightarrow> bool" where
  "is_empty t \<longleftrightarrow> nets t = []"

text \<open>The subtractions of the two shift amounts wrap here; \<open>parsed_lengths\<close> shows that they do not.\<close>

definition net_contains :: "ip_addr \<times> u8 \<Rightarrow> ip_addr \<Rightarrow> bool" where
  "net_contains nl ip =
     (let (addr, width) = bits ip; (naddr, nwidth) = bits (fst nl); len = snd nl in
      if nwidth \<noteq> width then False
      else
        (let mask = (if len = 0 then 0 else push_bit (unat (width - len)) (- 1)) in
         (addr XOR naddr) AND mask AND drop_bit (unat (128 - width)) (- 1) = 0))"

definition contains :: "trusted_proxies \<Rightarrow> ip_addr \<Rightarrow> bool" where
  "contains t ip = list_ex (\<lambda>n. net_contains n (normalise ip)) (nets t)"

lemmas contains_eval = contains_def net_contains_def normalise_def to_ipv4_mapped_def bits_def
  mask_eq_exp_minus_1

section \<open>Parsed ranges are in range\<close>

definition width :: "ip_addr \<Rightarrow> nat" where
  "width ip = (case ip of V4 _ \<Rightarrow> 32 | V6 _ \<Rightarrow> 128)"

definition net_ok :: "ip_addr \<times> u8 \<Rightarrow> bool" where
  "net_ok nl \<longleftrightarrow> unat (snd nl) \<le> width (fst nl) \<and> normalise (fst nl) = fst nl"

lemma normalise_idem [simp]: "normalise (normalise ip) = normalise ip"
  by (auto simp: normalise_def split: ip_addr.split option.split)

lemma unat_bits_width: "unat (snd (bits ip)) = width ip"
  by (auto simp: bits_def width_def split: ip_addr.split)

lemma bits_width: "snd (bits ip) = of_nat (width ip)"
  by (auto simp: bits_def width_def split: ip_addr.split)

lemma width_le: "width ip \<le> 128"
  by (auto simp: width_def split: ip_addr.split)

lemma parse_uint_pos: "parse_uint m s = Some l \<Longrightarrow> 0 \<le> l"
proof -
  have "0 \<le> a \<Longrightarrow> 0 \<le> fold (\<lambda>c a. a * 10 + int (byte c - 48)) d a" for d a
    by (induction d arbitrary: a) auto
  then show "parse_uint m s = Some l \<Longrightarrow> 0 \<le> l"
    by (auto simp: parse_uint_def digits_value_def Let_def split: if_splits)
qed

lemma prefix_length_range: "0 \<le> mx \<Longrightarrow> prefix_length mx p = Some len \<Longrightarrow> 0 \<le> len \<and> len \<le> mx"
  by (auto simp: prefix_length_def split: option.splits if_splits dest: parse_uint_pos)

lemma unat_len: "0 \<le> len \<Longrightarrow> len \<le> 128 \<Longrightarrow> unat (of_int len :: u8) = nat len"
proof -
  assume "0 \<le> len" "len \<le> 128"
  then have "uint (of_int len :: u8) = len" by (simp add: unsigned_of_int take_bit_int_eq_self)
  then show ?thesis by (metis unat_eq_nat_uint)
qed

lemma net_of_ok:
  assumes "net_of raw ip len = Inr n" and len: "0 \<le> len" "len \<le> int (width ip)"
  shows "net_ok n"
proof (cases "normalise ip = ip")
  case True
  then have "n = (ip, of_int len)"
    using assms(1) by (auto simp: net_of_def split: ip_addr.splits)
  then show ?thesis using len True unat_len [of len] width_le [of ip] by (simp add: net_ok_def)
next
  case False
  then obtain w v4 where ip: "ip = V6 w" "normalise ip = V4 v4"
    by (auto simp: normalise_def split: ip_addr.splits option.splits)
  then have n: "96 \<le> len" "n = (V4 v4, of_int len - 96)"
    using assms(1) by (auto simp: net_of_def split: if_splits)
  have "unat (of_int len - 96 :: u8) = nat len - 96"
    using n(1) len ip unat_len [of len] by (subst unat_sub) (auto simp: word_le_nat_alt width_def)
  then show ?thesis using n len ip by (simp add: net_ok_def width_def normalise_def)
qed

lemma parse_cidr_ok:
  assumes "parse_cidr raw = Inr n"
  shows "net_ok n"
proof -
  obtain ip p len where "prefix_length (int (width ip)) p = Some len" "net_of raw ip len = Inr n"
  proof -
    obtain addr p where ap: "(case split_once slash raw of Some (a, p) \<Rightarrow> (a, Some p) | None \<Rightarrow> (raw, None)) = (addr, p)"
      by fastforce
    have w: "(case ip of V4 _ \<Rightarrow> 32 | V6 _ \<Rightarrow> 128) = int (width ip)" for ip
      by (simp add: width_def split: ip_addr.split)
    show thesis using assms that
      by (auto simp: parse_cidr_def ap Let_def w split: option.splits)
  qed
  then show ?thesis using net_of_ok prefix_length_range by (metis of_nat_0_le_iff)
qed

lemma parse_loop_nets:
  "parse_loop cs acc = Inr t \<Longrightarrow> \<exists>ns. nets t = acc @ ns \<and> list_all2 (\<lambda>c n. parse_cidr c = Inr n) cs ns"
proof (induction cs arbitrary: acc)
  case (Cons c cs)
  then obtain n where n: "parse_cidr c = Inr n" "parse_loop cs (acc @ [n]) = Inr t"
    by (auto split: sum.splits)
  from Cons.IH [OF n(2)] obtain ns where "nets t = acc @ n # ns" "list_all2 (\<lambda>c n. parse_cidr c = Inr n) cs ns"
    by auto
  then show ?case using n(1) by (intro exI [of _ "n # ns"]) simp
qed auto

lemma parsed_lengths: "parse_proxies cs = Inr t \<Longrightarrow> n \<in> set (nets t) \<Longrightarrow> net_ok n"
  using parse_loop_nets [of cs "[]" t]
  by (auto simp: parse_proxies_def list_all2_conv_all_nth in_set_conv_nth intro: parse_cidr_ok)

section \<open>Membership\<close>

definition leading_bits_agree :: "nat \<Rightarrow> ip_addr \<Rightarrow> ip_addr \<Rightarrow> bool" where
  "leading_bits_agree len a b \<longleftrightarrow>
     width a = width b
     \<and> (\<forall>i. width a - len \<le> i \<and> i < width a \<longrightarrow> bit (fst (bits a)) i = bit (fst (bits b)) i)"

lemma bits_above: "width ip \<le> i \<Longrightarrow> \<not> bit (fst (bits ip)) i"
  by (cases ip) (auto simp: bits_def width_def bit_simps dest: bit_imp_le_length)

lemma masked_zero:
  fixes x y :: u128
  assumes "len \<le> w" "w \<le> 128"
  shows "(x XOR y) AND (if len = 0 then 0 else push_bit (w - len) (- 1)) AND drop_bit (128 - w) (- 1) = 0
     \<longleftrightarrow> (\<forall>i. w - len \<le> i \<and> i < w \<longrightarrow> bit x i = bit y i)"
proof (cases "len = 0")
  case False
  have "(\<forall>i < 128. bit x i = bit y i \<or> i < w - len \<or> \<not> i < w)
      \<longleftrightarrow> (\<forall>i. w - len \<le> i \<and> i < w \<longrightarrow> bit x i = bit y i)"
    using assms by (meson leD le_less_linear less_le_trans)
  then show ?thesis using assms False by (auto simp: bit_eq_iff [of _ "0 :: u128"] bit_simps)
qed (use assms in auto)

lemma net_contains_iff:
  assumes "net_ok n"
  shows "net_contains n ip \<longleftrightarrow> leading_bits_agree (unat (snd n)) (fst n) ip"
proof (cases "width (fst n) = width ip")
  case True
  have len: "unat (snd n) \<le> width ip" using assms True by (simp add: net_ok_def)
  have "unat (snd (bits ip) - snd n) = width ip - unat (snd n)"
    using len by (subst unat_sub) (simp_all add: word_le_nat_alt unat_bits_width)
  moreover have "unat (128 - snd (bits ip)) = 128 - width ip"
    using width_le [of ip] by (subst unat_sub) (simp_all add: word_le_nat_alt unat_bits_width)
  moreover have "snd n = 0 \<longleftrightarrow> unat (snd n) = 0" by (simp add: unat_eq_zero)
  moreover note masked_zero [OF len width_le, of "fst (bits ip)" "fst (bits (fst n))"]
  ultimately show ?thesis using True
    by (auto simp: net_contains_def leading_bits_agree_def Let_def case_prod_beta bits_width)
next
  case False
  then have "snd (bits (fst n)) \<noteq> snd (bits ip)" by (metis unat_bits_width)
  then show ?thesis using False
    by (auto simp: net_contains_def leading_bits_agree_def Let_def case_prod_beta)
qed

text \<open>C31. The trusted-proxy list built from \<open>trusted_proxies\<close> has one range per entry, in order, and
  trusts a peer exactly when, after IPv4-mapped IPv6 addresses have been read as IPv4, the peer and
  some range are of one family and agree on the range's prefix bits. The prefix is never longer than
  the address, so the shift amounts of \<open>contains\<close> do not underflow.\<close>

theorem contains_iff:
  assumes "parse_proxies cidrs = Inr t"
  shows "list_all2 (\<lambda>c n. parse_cidr c = Inr n) cidrs (nets t)
    \<and> list_all net_ok (nets t)
    \<and> (contains t ip \<longleftrightarrow>
        (\<exists>(net, len) \<in> set (nets t). leading_bits_agree (unat len) net (normalise ip)))"
proof -
  have "list_all2 (\<lambda>c n. parse_cidr c = Inr n) cidrs (nets t)"
    using parse_loop_nets [of cidrs "[]" t] assms by (auto simp: parse_proxies_def)
  moreover have ok: "\<forall>n \<in> set (nets t). net_ok n" using parsed_lengths [OF assms] by simp
  ultimately show ?thesis
    by (auto simp: contains_def list_ex_iff list_all_iff net_contains_iff case_prod_beta)
qed

theorem contains_iff_witness:
  "let t = \<lparr>nets = [(V4 0x0A000000, 8), (V6 0xFD000000000000000000000000000000, 8), (V4 0xC0A80000, 16)]\<rparr> in
   parse_proxies [''10.0.0.0/8'', ''fd00::/8'', ''::ffff:192.168.0.0/112''] = Inr t
   \<and> (contains t (V6 0xFFFF0A010203) \<longleftrightarrow>
        (\<exists>(net, len) \<in> set (nets t). leading_bits_agree (unat len) net (normalise (V6 0xFFFF0A010203))))
   \<and> contains t (V6 0xFFFF0A010203) \<and> \<not> contains t (V4 0x0B000000)"
proof -
  let ?t = "\<lparr>nets = [(V4 0x0A000000, 8), (V6 0xFD000000000000000000000000000000, 8), (V4 0xC0A80000, 16)]\<rparr>"
  have p: "parse_proxies [''10.0.0.0/8'', ''fd00::/8'', ''::ffff:192.168.0.0/112''] = Inr ?t"
    by code_simp
  have c: "contains ?t (V6 0xFFFF0A010203)" "\<not> contains ?t (V4 0x0B000000)"
    by (simp_all add: contains_eval)
  show ?thesis using p c contains_iff [OF p, of "V6 0xFFFF0A010203"] unfolding Let_def by blast
qed

text \<open>IPv4 clients are matched only by IPv4 ranges however they reach the listener: a peer seen
  as an IPv4-mapped IPv6 address is trusted exactly when the IPv4 address itself is, and IPv6
  ranges alone, whatever their length, never trust it.\<close>

theorem mapped_peer_is_ipv4:
  assumes "parse_proxies cidrs = Inr t" and "to_ipv4_mapped w = Some v4"
  shows "contains t (V6 w) = contains t (V4 v4)
    \<and> ((\<forall>n \<in> set (nets t). width (fst n) = 128) \<longrightarrow> \<not> contains t (V6 w))"
proof -
  have n: "normalise (V6 w) = V4 v4" "normalise (V4 v4) = V4 v4" using assms(2) by (simp_all add: normalise_def)
  have "\<not> net_contains n (V4 v4)" if "n \<in> set (nets t)" "width (fst n) = 128" for n
    using net_contains_iff [OF parsed_lengths [OF assms(1) that(1)]] that(2)
    by (simp add: leading_bits_agree_def width_def)
  then show ?thesis using n by (auto simp: contains_def list_ex_iff)
qed

theorem mapped_peer_is_ipv4_witness:
  "parse_proxies [''::/0''] = Inr \<lparr>nets = [(V6 0, 0)]\<rparr>
   \<and> to_ipv4_mapped 0xFFFF0A010203 = Some 0x0A010203
   \<and> \<not> contains \<lparr>nets = [(V6 0, 0)]\<rparr> (V6 0xFFFF0A010203)"
proof -
  have p: "parse_proxies [''::/0''] = Inr \<lparr>nets = [(V6 0, 0)]\<rparr>" by code_simp
  have m: "to_ipv4_mapped 0xFFFF0A010203 = Some 0x0A010203" by code_simp
  have w: "\<forall>n \<in> set (nets \<lparr>nets = [(V6 0, 0)]\<rparr>). width (fst n) = 128" by (simp add: width_def)
  show ?thesis using p m w mapped_peer_is_ipv4 [OF p m] by blast
qed

end
