(* ===== verification/Route_Table.thy ===== *)
theory Route_Table
  imports Breaker Bad_Path Proxies
begin

text \<open>
  Upstreams, routes and the routing table of \<open>crates/core/src/route.rs\<close>.

  An \<open>Arc<Breaker>\<close> is the index of a breaker in a store: cloning an upstream copies the index, so
  that routes, old tables and in-flight requests share one breaker. An \<open>http::Uri\<close> is seen through
  the accessors the sources call.
\<close>

section \<open>Shared breakers\<close>

record store =
  breakers :: "breaker list"
  st_clock :: u64
  st_log :: "effect list"

text \<open>A call on the breaker behind an \<open>Arc\<close>, run to its end.\<close>

definition on_breaker :: "nat \<Rightarrow> 'a prog \<Rightarrow> store \<Rightarrow> 'a \<times> store" where
  "on_breaker i p s =
     (let (x, m) = run p \<lparr>brk = breakers s ! i, clock = st_clock s, emitted = st_log s\<rparr> in
      (x, s\<lparr>breakers := (breakers s)[i := brk m], st_log := emitted m\<rparr>))"

definition alloc :: "breaker \<Rightarrow> store \<Rightarrow> nat \<times> store" where
  "alloc b s = (length (breakers s), s\<lparr>breakers := breakers s @ [b]\<rparr>)"

section \<open>Upstreams\<close>

record uri =
  uri_scheme :: "string option"
  uri_authority :: "string option"
  uri_host :: "string option"
  uri_port :: "u16 option"
  uri_path_and_query :: "(string \<times> string option) option"

record upstream =
  u_uri :: uri
  u_name :: string
  u_breaker :: nat
  u_health_path :: "string option"
  u_health_disabled :: bool

definition upstream_name :: "uri \<Rightarrow> string" where
  "upstream_name u =
     (let host = map to_ascii_lowercase (case uri_host u of Some h \<Rightarrow> h | None \<Rightarrow> []);
          port = (case uri_port u of
                    Some p \<Rightarrow> uint p
                  | None \<Rightarrow> if uri_scheme u = Some ''https'' then 443 else 80) in
      host @ '':'' @ show_int port)"

definition upstream_new :: "uri \<Rightarrow> breaker_config \<Rightarrow> store \<Rightarrow> (error, upstream) result \<times> store" where
  "upstream_new u cfg s =
     (let nm = upstream_name u in
      case for_upstream nm cfg of
        Inl e \<Rightarrow> (Inl e, s)
      | Inr b \<Rightarrow>
          (let (i, s') = alloc b s in
           (Inr \<lparr>u_uri = u, u_name = nm, u_breaker = i, u_health_path = None, u_health_disabled = False\<rparr>,
            s')))"

definition with_health :: "string option \<Rightarrow> bool \<Rightarrow> upstream \<Rightarrow> upstream" where
  "with_health p d u = u\<lparr>u_health_path := p, u_health_disabled := d\<rparr>"

definition health_path :: "upstream \<Rightarrow> string" where
  "health_path u = (case u_health_path u of Some p \<Rightarrow> p | None \<Rightarrow> ''/health'')"

definition upstream_try_acquire :: "upstream \<Rightarrow> store \<Rightarrow> admission option \<times> store" where
  "upstream_try_acquire u = on_breaker (u_breaker u) try_acquire"

definition upstream_release :: "admission \<Rightarrow> upstream \<Rightarrow> store \<Rightarrow> store" where
  "upstream_release a u s = snd (on_breaker (u_breaker u) (release a) s)"

definition upstream_record_success :: "admission \<Rightarrow> upstream \<Rightarrow> store \<Rightarrow> store" where
  "upstream_record_success a u s = snd (on_breaker (u_breaker u) (record_success a) s)"

definition upstream_record_failure :: "admission \<Rightarrow> upstream \<Rightarrow> store \<Rightarrow> store" where
  "upstream_record_failure a u s = snd (on_breaker (u_breaker u) (record_failure a) s)"

definition upstream_state :: "upstream \<Rightarrow> store \<Rightarrow> circuit_state" where
  "upstream_state u s = fst (on_breaker (u_breaker u) state_of s)"

definition reuse :: "duration \<Rightarrow> u32 \<Rightarrow> string option \<Rightarrow> bool \<Rightarrow> upstream \<Rightarrow> store \<Rightarrow> upstream \<times> store" where
  "reuse cooldown threshold hp hdis u s =
     (with_health hp hdis u, snd (on_breaker (u_breaker u) (reconfigure cooldown threshold) s))"

section \<open>Routes\<close>

record route =
  r_prefix :: string
  r_upstream :: upstream
  r_rewrite_host :: bool
  r_strip_prefix :: bool

definition route_new :: "string \<Rightarrow> upstream \<Rightarrow> route" where
  "route_new p u = \<lparr>r_prefix = p, r_upstream = u, r_rewrite_host = False, r_strip_prefix = False\<rparr>"

definition with_strip_prefix :: "bool \<Rightarrow> route \<Rightarrow> route" where
  "with_strip_prefix b r = r\<lparr>r_strip_prefix := b\<rparr>"

definition with_rewrite_host :: "bool \<Rightarrow> route \<Rightarrow> route" where
  "with_rewrite_host b r = r\<lparr>r_rewrite_host := b\<rparr>"

definition stripped_prefix :: "route \<Rightarrow> string" where
  "stripped_prefix r = trim_end_matches (\<lambda>c. c = slash) (r_prefix r)"

definition stripped_path :: "route \<Rightarrow> string \<Rightarrow> string option" where
  "stripped_path r raw_path =
     (let p = stripped_prefix r in
      if p = [] then Some raw_path
      else
        (case strip_prefix p (normalize raw_path) of
           None \<Rightarrow> None
         | Some rest \<Rightarrow>
             (let out = (if rest = [] then ''/'' else rest) in
              if prefix [slash] out \<and> \<not> bad_path out then Some out else None)))"

section \<open>The table\<close>

datatype xff_mode = Append | Replace

record route_table =
  routes :: "route list"
  upstream_timeout :: duration
  keepalive_timeout :: duration
  request_body_idle_timeout :: duration
  request_body_timeout :: duration
  drain_timeout :: duration
  shutdown_delay :: duration
  t_trusted_proxies :: trusted_proxies
  forwarded_header :: bool
  t_xff_mode :: xff_mode
  local_health_path :: "string option"
  access_log :: bool
  request_id :: bool

text \<open>\<open>sort_by_key\<close> is stable, and so is \<^const>\<open>sort_key\<close>.\<close>

definition table_new :: "route list \<Rightarrow> duration \<Rightarrow> route_table" where
  "table_new rs timeout =
     \<lparr>routes = sort_key (\<lambda>r. - int (length (r_prefix r))) rs,
      upstream_timeout = timeout,
      keepalive_timeout = from_secs 10,
      request_body_idle_timeout = from_secs 30,
      request_body_timeout = from_secs 300,
      drain_timeout = from_secs 25,
      shutdown_delay = 0,
      t_trusted_proxies = default_trusted_proxies,
      forwarded_header = False,
      t_xff_mode = Append,
      local_health_path = None,
      access_log = False,
      request_id = False\<rparr>"

definition with_local_health_path :: "string option \<Rightarrow> route_table \<Rightarrow> route_table" where
  "with_local_health_path p t = t\<lparr>local_health_path := p\<rparr>"

definition with_keepalive_timeout :: "duration \<Rightarrow> route_table \<Rightarrow> route_table" where
  "with_keepalive_timeout d t = t\<lparr>keepalive_timeout := d\<rparr>"

definition with_request_body_idle_timeout :: "duration \<Rightarrow> route_table \<Rightarrow> route_table" where
  "with_request_body_idle_timeout d t = t\<lparr>request_body_idle_timeout := d\<rparr>"

definition with_request_body_timeout :: "duration \<Rightarrow> route_table \<Rightarrow> route_table" where
  "with_request_body_timeout d t = t\<lparr>request_body_timeout := d\<rparr>"

definition with_drain_timeout :: "duration \<Rightarrow> route_table \<Rightarrow> route_table" where
  "with_drain_timeout d t = t\<lparr>drain_timeout := d\<rparr>"

definition with_shutdown_delay :: "duration \<Rightarrow> route_table \<Rightarrow> route_table" where
  "with_shutdown_delay d t = t\<lparr>shutdown_delay := d\<rparr>"

definition with_trusted_proxies :: "trusted_proxies \<Rightarrow> route_table \<Rightarrow> route_table" where
  "with_trusted_proxies p t = t\<lparr>t_trusted_proxies := p\<rparr>"

definition with_forwarded_header :: "bool \<Rightarrow> route_table \<Rightarrow> route_table" where
  "with_forwarded_header b t = t\<lparr>forwarded_header := b\<rparr>"

definition with_access_log :: "bool \<Rightarrow> route_table \<Rightarrow> route_table" where
  "with_access_log b t = t\<lparr>access_log := b\<rparr>"

definition with_request_id :: "bool \<Rightarrow> route_table \<Rightarrow> route_table" where
  "with_request_id b t = t\<lparr>request_id := b\<rparr>"

definition with_xff_mode :: "xff_mode \<Rightarrow> route_table \<Rightarrow> route_table" where
  "with_xff_mode m t = t\<lparr>t_xff_mode := m\<rparr>"

lemmas with_defs = with_local_health_path_def with_keepalive_timeout_def
  with_request_body_idle_timeout_def with_request_body_timeout_def with_drain_timeout_def
  with_shutdown_delay_def with_trusted_proxies_def with_forwarded_header_def with_access_log_def
  with_request_id_def with_xff_mode_def

definition lookup :: "route_table \<Rightarrow> string \<Rightarrow> route option" where
  "lookup t path = (let path = normalize path in find (\<lambda>r. prefix_matches (r_prefix r) path) (routes t))"

fun unseen :: "string list \<Rightarrow> route list \<Rightarrow> upstream list" where
  "unseen seen [] = []"
| "unseen seen (r # rs) =
     (let nm = u_name (r_upstream r) in
      if nm \<in> set seen then unseen seen rs else r_upstream r # unseen (nm # seen) rs)"

definition upstreams :: "route_table \<Rightarrow> upstream list" where
  "upstreams t = unseen [] (routes t)"

definition publish_gauges :: "route_table \<Rightarrow> store \<Rightarrow> store" where
  "publish_gauges t s = fold (\<lambda>u s. snd (on_breaker (u_breaker u) set_gauges s)) (upstreams t) s"

section \<open>Prefixes are matched by whole segments\<close>

lemma matches_prefix: "prefix_matches p path \<Longrightarrow> prefix p path"
  by (auto simp: prefix_matches_def split: if_splits)

lemma join_append:
  "xs \<noteq> [] \<Longrightarrow> ys \<noteq> [] \<Longrightarrow> join_with [d] (xs @ ys) = join_with [d] xs @ d # join_with [d] ys"
proof (induction xs)
  case (Cons x xs)
  then show ?case by (cases "xs = []") (simp_all add: join_Cons)
qed simp

lemma prefix_splits:
  assumes "prefix (split_on d p) (split_on d path)"
  shows "prefix p path \<and> (drop (length p) path = [] \<or> hd (drop (length p) path) = d)"
proof -
  obtain ws where ws: "split_on d path = split_on d p @ ws" using assms by (auto simp: prefix_def)
  have "path = p @ (if ws = [] then [] else d # join_with [d] ws)"
    using arg_cong [OF ws, of "join_with [d]"] join_append [of "split_on d p" ws d] by simp
  then show ?thesis by auto
qed

text \<open>A route prefix matches whole path segments: a prefix without a final slash matches the paths
  whose segments start with its own (\<open>/svc-a\<close> matches \<open>/svc-a\<close> and \<open>/svc-a/x\<close> and not \<open>/svc-ab\<close>),
  and one with a final slash the paths that have at least one more, possibly empty, segment after
  the ones before that slash.\<close>

theorem prefix_matches_segments:
  "prefix_matches p path \<longleftrightarrow>
     (if suffix [slash] p
      then prefix (split_on slash (butlast p)) (split_on slash path)
           \<and> length (split_on slash (butlast p)) < length (split_on slash path)
      else prefix (split_on slash p) (split_on slash path))"
proof (cases "suffix [slash] p")
  case True
  then obtain q where q: "p = q @ [slash]" by (auto simp: suffix_def)
  have "prefix p path \<longleftrightarrow> prefix (split_on slash q) (split_on slash path)
      \<and> length (split_on slash q) < length (split_on slash path)"
  proof
    assume "prefix p path"
    then obtain t where "path = q @ slash # t" using q by (auto simp: prefix_def)
    then show "prefix (split_on slash q) (split_on slash path)
      \<and> length (split_on slash q) < length (split_on slash path)"
      by (simp add: split_on_append_sep)
  next
    assume a: "prefix (split_on slash q) (split_on slash path)
      \<and> length (split_on slash q) < length (split_on slash path)"
    then have "prefix q path" "drop (length q) path = [] \<or> hd (drop (length q) path) = slash"
      using prefix_splits by blast+
    moreover have "drop (length q) path \<noteq> []" using a \<open>prefix q path\<close> by (auto simp: prefix_def)
    ultimately show "prefix p path" unfolding q by (auto simp: prefix_def neq_Nil_conv)
  qed
  then show ?thesis using True q by (simp add: prefix_matches_def)
next
  case False
  have "prefix p path \<and> (drop (length p) path = [] \<or> hd (drop (length p) path) = slash)
      \<longleftrightarrow> prefix (split_on slash p) (split_on slash path)"
  proof
    assume "prefix p path \<and> (drop (length p) path = [] \<or> hd (drop (length p) path) = slash)"
    then obtain t where "path = p \<or> path = p @ slash # t"
      by (metis append_Nil2 append_eq_conv_conj list.collapse prefix_def)
    then show "prefix (split_on slash p) (split_on slash path)" by (auto simp: split_on_append_sep)
  qed (rule prefix_splits)
  then show ?thesis using False by (auto simp: prefix_matches_def split: list.split)
qed

section \<open>The longest matching prefix wins\<close>

lemma find_sorted_longest:
  assumes "find P (sort_key (\<lambda>r. - int (length (f r))) rs) = Some r"
  shows "r \<in> set rs \<and> P r \<and> (\<forall>r' \<in> set rs. P r' \<longrightarrow> length (f r') \<le> length (f r))"
proof -
  let ?k = "\<lambda>r. - int (length (f r))" and ?s = "sort_key (\<lambda>r. - int (length (f r))) rs"
  obtain i where i: "i < length ?s" "P (?s ! i)" "r = ?s ! i" "\<forall>j < i. \<not> P (?s ! j)"
    using assms unfolding find_Some_iff by blast
  have "length (f r') \<le> length (f r)" if "r' \<in> set rs" "P r'" for r'
  proof -
    obtain j where j: "j < length ?s" "?s ! j = r'" using \<open>r' \<in> set rs\<close> by (metis in_set_conv_nth set_sort)
    then have "i \<le> j" using i \<open>P r'\<close> by (meson not_less)
    then have "map ?k ?s ! i \<le> map ?k ?s ! j"
      using j sorted_sort_key [of ?k rs] by (intro sorted_nth_mono) simp_all
    then have "?k (?s ! i) \<le> ?k (?s ! j)" using i(1) j(1) by simp
    then show ?thesis unfolding i(3) j(2) by simp
  qed
  moreover have "r \<in> set rs" using i by (metis nth_mem set_sort)
  ultimately show ?thesis using i by auto
qed

lemma lookup_longest:
  "case lookup (table_new rs timeout) path of
     None \<Rightarrow> \<forall>r \<in> set rs. \<not> prefix_matches (r_prefix r) (normalize path)
   | Some r \<Rightarrow> r \<in> set rs \<and> prefix_matches (r_prefix r) (normalize path)
       \<and> (\<forall>r' \<in> set rs. prefix_matches (r_prefix r') (normalize path) \<longrightarrow> length (r_prefix r') \<le> length (r_prefix r))"
proof (cases "lookup (table_new rs timeout) path")
  case None
  then have "\<forall>r \<in> set rs. \<not> prefix_matches (r_prefix r) (normalize path)"
    by (auto simp: lookup_def table_new_def Let_def find_None_iff)
  then show ?thesis using None by simp
next
  case (Some r)
  then show ?thesis using find_sorted_longest [of "\<lambda>r. prefix_matches (r_prefix r) (normalize path)" r_prefix rs r]
    by (simp add: lookup_def table_new_def Let_def)
qed

text \<open>C27. \<open>lookup\<close> finds a route exactly when some prefix matches the normalised path, and then one
  whose prefix matches and is the longest of those that match.\<close>

theorem longest_prefix_wins:
  "case lookup (table_new rs timeout) path of
     None \<Rightarrow> \<forall>r \<in> set rs. \<not> prefix_matches (r_prefix r) (normalize path)
   | Some r \<Rightarrow> r \<in> set rs \<and> prefix_matches (r_prefix r) (normalize path)
       \<and> (\<forall>r' \<in> set rs. prefix_matches (r_prefix r') (normalize path) \<longrightarrow> length (r_prefix r') \<le> length (r_prefix r))"
  by (rule lookup_longest)

definition sample_uri :: uri where
  "sample_uri = \<lparr>uri_scheme = Some ''http'', uri_authority = Some ''a:81'', uri_host = Some ''a'',
     uri_port = Some 81, uri_path_and_query = Some (''/'', None)\<rparr>"

definition sample_route :: "string \<Rightarrow> route" where
  "sample_route p = route_new p \<lparr>u_uri = sample_uri, u_name = ''a:81'', u_breaker = 0,
     u_health_path = None, u_health_disabled = False\<rparr>"

theorem longest_prefix_wins_witness:
  "lookup (table_new [sample_route ''/'', sample_route ''/api/v1'', sample_route ''/api''] 0) ''//%61pi/v1x''
     = Some (sample_route ''/api'')
   \<and> prefix_matches ''/api'' ''/api/v1x'' \<and> \<not> prefix_matches ''/api/v1'' ''/api/v1x''"
proof -
  let ?rs = "[sample_route ''/'', sample_route ''/api/v1'', sample_route ''/api'']"
  have l: "lookup (table_new ?rs 0) ''//%61pi/v1x'' = Some (sample_route ''/api'')"
    and n: "normalize ''//%61pi/v1x'' = ''/api/v1x''"
    and r: "r_prefix (sample_route ''/api'') = ''/api''"
    and v: "\<not> prefix_matches ''/api/v1'' ''/api/v1x''" by code_simp+
  show ?thesis using longest_prefix_wins [where rs = ?rs and timeout = 0 and path = "''//%61pi/v1x''"] l n r v by simp
qed

lemma matching_same_length:
  "prefix_matches p path \<Longrightarrow> prefix_matches q path \<Longrightarrow> length p = length q \<Longrightarrow> p = q"
  by (auto simp: prefix_def dest!: matches_prefix)

text \<open>Among routes with distinct prefixes the order in which they are configured does not
  matter: any two arrangements of the same routes answer every lookup alike.\<close>

theorem lookup_order_independent:
  assumes "distinct (map r_prefix rs)" and "distinct rs'" and "set rs' = set rs"
  shows "lookup (table_new rs' timeout) path = lookup (table_new rs timeout) path"
proof -
  note new = lookup_longest [where rs = rs and timeout = timeout and path = path]
    and old = lookup_longest [where rs = rs' and timeout = timeout and path = path]
  have inj: "inj_on r_prefix (set rs)" using assms(1) by (simp add: distinct_map)
  show ?thesis
  proof (cases "lookup (table_new rs timeout) path")
    case None
    then show ?thesis using new old assms(3) by (auto split: option.splits)
  next
    case (Some r)
    then obtain r' where r': "lookup (table_new rs' timeout) path = Some r'"
      using new old assms(3) by (auto split: option.splits)
    have "length (r_prefix r) = length (r_prefix r')"
      using Some r' new old assms(3) by (auto intro: antisym)
    then have "r_prefix r = r_prefix r'" using Some r' new old by (auto intro: matching_same_length)
    then have "r = r'" using Some r' new old assms(3) inj by (auto dest: inj_onD)
    then show ?thesis using Some r' by simp
  qed
qed

section \<open>Stripped paths\<close>

text \<open>What a \<open>strip_prefix\<close> route forwards starts with a slash, holds nothing \<open>bad_path\<close> refuses,
  and is the normalised path without the stripped prefix (or \<open>/\<close> where nothing is left).\<close>

theorem stripped_path_safe:
  assumes "stripped_path r raw = Some out" and "stripped_prefix r \<noteq> []"
  shows "prefix [slash] out \<and> \<not> bad_path out
    \<and> (normalize raw = stripped_prefix r @ out \<or> normalize raw = stripped_prefix r \<and> out = [slash])"
  using assms
  by (auto simp: stripped_path_def Let_def strip_prefix_Some split: option.splits if_splits)

theorem stripped_path_safe_witness:
  "stripped_path (sample_route ''/api/'') ''/%61pi//x'' = Some ''/x''
   \<and> stripped_path (sample_route ''/api'') ''/api/%2%65%2%65/x'' = None
   \<and> \<not> bad_path ''/x''"
proof -
  have s: "stripped_path (sample_route ''/api/'') ''/%61pi//x'' = Some ''/x''"
    "stripped_prefix (sample_route ''/api/'') \<noteq> []"
    "stripped_path (sample_route ''/api'') ''/api/%2%65%2%65/x'' = None" by code_simp+
  show ?thesis using stripped_path_safe [OF s(1,2)] s(1,3) by simp
qed

section \<open>One upstream per name\<close>

lemma unseen_names:
  "distinct (map u_name (unseen seen rs))
   \<and> set (map u_name (unseen seen rs)) = u_name ` r_upstream ` set rs - set seen"
proof (induction rs arbitrary: seen)
  case (Cons r rs)
  then show ?case using Cons [of seen] Cons [of "u_name (r_upstream r) # seen"]
    by (auto simp: Let_def)
qed simp

lemma unseen_sub: "set (unseen seen rs) \<subseteq> r_upstream ` set rs"
  by (induction rs arbitrary: seen) (auto simp: Let_def)

lemma upstreams_names:
  "distinct (map u_name (upstreams t))"
  "u_name ` set (upstreams t) = u_name ` r_upstream ` set (routes t)"
  using unseen_names [of "[]" "routes t"] by (simp_all add: upstreams_def)

end
