(* ===== verification/Ambiguous.thy ===== *)
theory Ambiguous
  imports Route_Table
begin

text \<open>
  \<open>ambiguous_route\<close> of \<open>crates/core/src/path.rs\<close>: would an upstream that reads encoded separators as
  slashes, or drops path parameters, have routed the request differently?
\<close>

section \<open>Definitions\<close>

definition pick :: "route_table \<Rightarrow> string \<Rightarrow> string option" where
  "pick t p = map_option r_prefix (lookup t p)"

definition readings :: "string \<Rightarrow> string list" where
  "readings s =
     (let stripped = strip_params s in
      [flatten s, strip_params (flatten s), stripped, flatten stripped])"

definition ambiguous_route :: "route_table \<Rightarrow> string \<Rightarrow> bool" where
  "ambiguous_route t raw_path =
     (let norm = normalize raw_path in
      if \<not> (suspicious raw_path \<or> suspicious norm) then False
      else
        (let canon = pick t raw_path in
         list_ex (\<lambda>s. list_ex (\<lambda>r. pick t r \<noteq> canon) (readings s)) [raw_path, norm]))"

section \<open>The shortcut for paths with nothing to reinterpret\<close>

lemma suspicious_drop: "\<not> suspicious s \<Longrightarrow> \<not> suspicious (drop n s)"
proof (induction n arbitrary: s)
  case (Suc n)
  then show ?case by (cases s) auto
qed simp

lemma plain_flatten: "\<not> suspicious s \<Longrightarrow> flatten s = s"
proof (induction s rule: length_induct)
  case (1 s)
  show ?case
  proof (cases s)
    case (Cons c r)
    have "0 < len_utf8 c" by (simp add: len_utf8_def)
    then have "flatten (drop (len_utf8 c) s) = drop (len_utf8 c) s"
      using 1 Cons suspicious_drop [of s] by simp
    moreover have "flatten s = take (len_utf8 c) s @ flatten (drop (len_utf8 c) s)"
      using 1(2) Cons by (subst flatten.simps) (simp add: Let_def)
    ultimately show ?thesis by simp
  qed (simp add: flatten.simps)
qed

lemma plain_semicolon: "\<not> suspicious s \<Longrightarrow> semicolon \<notin> set s"
  by (induction s) auto

lemma split_on_sub: "w \<in> set (split_on d s) \<Longrightarrow> set w \<subseteq> set s"
proof (induction s arbitrary: w)
  case (Cons c s)
  have "set (hd (split_on d s)) \<subseteq> set s" by (rule Cons.IH) simp
  moreover have "\<forall>w \<in> set (tl (split_on d s)). set w \<subseteq> set s"
    using Cons.IH list.set_sel(2) [OF split_on_not_Nil, of _ d s] by blast
  ultimately show ?case using Cons.prems Cons.IH [of w]
    by (auto simp: split_on_Cons simp del: split_on.simps split: if_splits)
qed simp

lemma plain_strip_params:
  assumes "\<not> suspicious s"
  shows "strip_params s = s"
proof -
  have "hd (split_on semicolon w) = w" if "w \<in> set (split_on slash s)" for w
    using that split_on_sub [OF that] plain_semicolon [OF assms] by (subst split_on_single) auto
  then have "map (\<lambda>w. hd (split_on semicolon w)) (split_on slash s) = split_on slash s"
    by (simp add: map_idI)
  then show ?thesis by (simp add: strip_params_def)
qed

lemma plain_readings: "\<not> suspicious s \<Longrightarrow> r \<in> set (readings s) \<Longrightarrow> r = s"
  by (auto simp: readings_def plain_flatten plain_strip_params)

section \<open>How an upstream may read a path\<close>

text \<open>The disguises of a slash, and a path with every one of them read as a slash, from the left.\<close>

definition disguises :: "string list" where
  "disguises = [[backslash], ''%2f'', ''%2F'', ''%5c'', ''%5C'', ''%252f'', ''%252F'', ''%255c'', ''%255C'']"

inductive decoded :: "string \<Rightarrow> string \<Rightarrow> bool" where
  empty: "decoded [] []"
| disguise: "w \<in> set disguises \<Longrightarrow> decoded s p \<Longrightarrow> decoded (w @ s) (slash # p)"
| plain: "\<not> (\<exists>w \<in> set disguises. prefix w (c # s)) \<Longrightarrow> decoded s p \<Longrightarrow> decoded (c # s) (c # p)"

text \<open>A path without its parameters: a semicolon and what follows it up to the next slash.\<close>

fun without_params :: "bool \<Rightarrow> string \<Rightarrow> string" where
  "without_params inside [] = []"
| "without_params inside (c # s) =
     (if c = slash then slash # without_params False s
      else if inside \<or> c = semicolon then without_params True s
      else c # without_params False s)"

text \<open>Any number of the two, in any order.\<close>

inductive may_read :: "string \<Rightarrow> string \<Rightarrow> bool" for s where
  itself: "may_read s s"
| decoding: "may_read s p \<Longrightarrow> decoded p q \<Longrightarrow> may_read s q"
| dropping: "may_read s p \<Longrightarrow> may_read s (without_params False p)"

lemma disguise_at:
  "(\<exists>w \<in> set disguises. prefix w (c # s)) \<longleftrightarrow> enc_sep2 (c # s) \<or> enc_sep (c # s) \<or> c = backslash"
  unfolding disguises_def enc_sep_def enc_sep2_def
  by (cases s; cases "tl s"; cases "tl (tl s)"; cases "tl (tl (tl s))") auto

lemma flat_disguise: "w \<in> set disguises \<Longrightarrow> flat (w @ s) = slash # flat s"
  by (auto simp: disguises_def enc_sep_def enc_sep2_def)

lemma decoded_iff: "decoded s p \<longleftrightarrow> p = flat s"
proof
  show "decoded s p \<Longrightarrow> p = flat s"
    by (induction rule: decoded.induct) (simp_all only: flat_disguise disguise_at, simp_all)
  have "decoded s (flat s)"
  proof (induction s rule: length_induct)
    case (1 s)
    show ?case
    proof (cases s)
      case (Cons c r)
      show ?thesis
      proof (cases "\<exists>w \<in> set disguises. prefix w (c # r)")
        case True
        then obtain w t where w: "w \<in> set disguises" "s = w @ t" using Cons by (auto simp: prefix_def)
        then have "decoded t (flat t)" using 1 by (auto simp: disguises_def)
        then show ?thesis using w flat_disguise [OF w(1), of t] by (simp add: decoded.disguise)
      next
        case False
        then show ?thesis using 1 Cons unfolding disguise_at by (simp add: decoded.plain disguise_at)
      qed
    qed (simp add: decoded.empty)
  qed
  then show "p = flat s \<Longrightarrow> decoded s p" by simp
qed

subsection \<open>The code's functions, byte by byte\<close>

lemma strip_params_bytes:
  "without_params False s = strip_params s
   \<and> without_params True s = join_with [slash] ([] # map (\<lambda>w. hd (split_on semicolon w)) (tl (split_on slash s)))"
proof (induction s)
  case (Cons c s)
  let ?f = "\<lambda>w. hd (split_on semicolon w)"
  have f: "?f (c # w) = (if c = semicolon then [] else c # ?f w)" for w by (simp add: split_on_Cons del: split_on.simps(2))
  have j: "join_with [slash] ([] # map ?f (split_on slash s)) = slash # strip_params s"
    by (simp add: join_Cons strip_params_def)
  have m: "map ?f (split_on slash s) = ?f (hd (split_on slash s)) # map ?f (tl (split_on slash s))"
    by (cases "split_on slash s") simp_all
  show ?case using Cons j
    by (auto simp: strip_params_def split_on_Cons f m join_Cons_head simp del: split_on.simps(2))
qed (simp add: strip_params_def)

lemmas strip_params_without = strip_params_bytes [THEN conjunct1, symmetric]

lemma without_copies:
  "list_all (\<lambda>c. 128 \<le> byte c) bs \<Longrightarrow>
   without_params inside (bs @ t) = (if inside then without_params True t else bs @ without_params False t)"
proof (induction bs arbitrary: inside)
  case (Cons c bs)
  then have "c \<noteq> slash" "c \<noteq> semicolon" by (auto simp: byte_def)
  then show ?case using Cons by simp
qed (cases inside; simp)

lemma without_utf8: "utf8_valid s \<Longrightarrow> utf8_valid (without_params inside s)"
proof (induction s arbitrary: inside rule: length_induct)
  case (1 s)
  show ?case
  proof (cases s)
    case (Cons c r)
    show ?thesis
    proof (cases "byte c < 128")
      case True
      then have "is_ascii c" by (simp add: is_ascii_def)
      then show ?thesis using 1 Cons by auto
    next
      case False
      have "utf8_valid (c # r)" "128 \<le> byte c" using 1(2) Cons False by simp_all
      then obtain bs t where m: "r = bs @ t" "utf8_valid t" "list_all (\<lambda>c. 128 \<le> byte c) bs"
        "\<forall>u. utf8_valid (c # bs @ u) = utf8_valid u" "len_utf8 c = Suc (length bs)" by (rule multibyte_copied)
      have "without_params inside s = (if inside then without_params True t else c # bs @ without_params False t)"
        using without_copies [of "c # bs" inside t] Cons m(1,3) False by simp
      moreover have "utf8_valid (without_params b t)" for b using 1(1) Cons m(1,2) by simp
      ultimately show ?thesis using m(4) by simp
    qed
  qed simp
qed

subsection \<open>Reading again changes nothing\<close>

lemma disguise_plain: "w \<in> set disguises \<Longrightarrow> w \<noteq> [] \<and> slash \<notin> set w \<and> hd w \<noteq> slash"
  by (auto simp: disguises_def)

lemma flat_prefix: "prefix w (flat s) \<Longrightarrow> slash \<notin> set w \<Longrightarrow> prefix w s"
proof (induction s arbitrary: w rule: flat.induct)
  case (2 c r)
  then show ?case by (cases w) (auto split: if_splits)
qed simp

lemma without_prefix:
  "prefix w (without_params inside s) \<Longrightarrow> slash \<notin> set w \<Longrightarrow> (if inside then w = [] else prefix w s)"
proof (induction s arbitrary: w inside)
  case (Cons c s)
  show ?case
  proof (cases w)
    case (Cons d v)
    then show ?thesis using Cons.prems Cons.IH [of w True] Cons.IH [of v False] by (auto split: if_splits)
  qed simp
qed simp

lemma flat_clean: "w \<in> set disguises \<Longrightarrow> \<not> sublist w (flat s)"
proof (induction s rule: flat.induct)
  case (2 c r)
  note d = disguise_plain [OF 2(5)]
  have sl: "\<not> sublist w (slash # x)" if "\<not> sublist w x" for x
    using d that by (cases w) (auto simp: sublist_Cons_right)
  have "\<not> prefix w (c # flat r)" if no: "\<not> (enc_sep2 (c # r) \<or> enc_sep (c # r) \<or> c = backslash)"
  proof
    assume "prefix w (c # flat r)"
    then have "prefix w (c # r)" using d flat_prefix [of "tl w" r] by (cases w) auto
    then show False using 2(5) no disguise_at by blast
  qed
  then show ?case using 2 sl by (auto simp: sublist_Cons_right)
qed (use disguise_plain in auto)

lemma flat_clean_id: "(\<And>w. w \<in> set disguises \<Longrightarrow> \<not> sublist w s) \<Longrightarrow> flat s = s"
proof (induction s)
  case (Cons c s)
  have "\<not> (\<exists>w \<in> set disguises. prefix w (c # s))" using Cons.prems by (auto intro: prefix_imp_sublist)
  moreover have "flat s = s" by (rule Cons.IH) (use Cons.prems in \<open>auto simp: sublist_Cons_right\<close>)
  ultimately show ?case unfolding disguise_at by simp
qed simp

lemma without_clean: "w \<in> set disguises \<Longrightarrow> sublist w (without_params inside s) \<Longrightarrow> sublist w s"
proof (induction s arbitrary: inside)
  case (Cons c s)
  note d = disguise_plain [OF Cons.prems(1)]
  show ?case
    using Cons d without_prefix [of w inside "c # s"]
    by (cases w) (auto simp: sublist_Cons_right split: if_splits dest: prefix_imp_sublist)
qed simp

lemma without_no_semicolon: "semicolon \<notin> set (without_params inside s)"
  by (induction s arbitrary: inside) auto

lemma without_id: "semicolon \<notin> set s \<Longrightarrow> without_params False s = s"
  by (induction s) auto

lemma flat_semicolon: "semicolon \<notin> set s \<Longrightarrow> semicolon \<notin> set (flat s)"
  by (induction s rule: flat.induct) (auto dest: in_set_dropD)

lemma read_again:
  "flat (flat s) = flat s" "flat (without_params False (flat s)) = without_params False (flat s)"
  "without_params False (without_params b s) = without_params b s"
  "without_params False (flat (without_params b s)) = flat (without_params b s)"
  by (auto intro!: flat_clean_id without_id flat_semicolon simp: without_no_semicolon dest: without_clean flat_clean)

lemma may_read_cases:
  assumes "may_read s p"
  shows "p \<in> {s, flat s, without_params False (flat s), without_params False s, flat (without_params False s)}"
  using assms by (induction rule: may_read.induct) (auto simp: decoded_iff read_again)

lemma readings_bytes:
  "utf8_valid s \<Longrightarrow> set (readings s) = {flat s, without_params False (flat s), without_params False s, flat (without_params False s)}"
  using without_utf8 [of s False] by (auto simp: readings_def Let_def flatten_flat strip_params_without)

lemma suspicious_iff: "suspicious s \<longleftrightarrow> (\<exists>w \<in> insert [semicolon] (set disguises). sublist w s)"
proof (induction s)
  case (Cons c s)
  have "suspicious (c # s) \<longleftrightarrow> (\<exists>w \<in> insert [semicolon] (set disguises). prefix w (c # s)) \<or> suspicious s"
    using disguise_at [of c s] by auto
  then show ?case unfolding Cons.IH by (auto simp: sublist_Cons_right)
qed (auto simp: disguises_def)

section \<open>What acceptance means\<close>

text \<open>C28. A path that \<open>ambiguous_route\<close> accepts selects the same route however an upstream reads it: with every
  disguised slash (a backslash, \<open>%2F\<close>, \<open>%5C\<close>, the same encoded twice, in either case) read as a slash, or with
  the parameters of its segments dropped, or both, any number of times and in any order. That holds of
  the raw path also where the shortcut returned early. Where the path or its normal form holds a semicolon
  or a disguised slash, it holds of every such reading of the normal form too (which may itself be left as it
  is).\<close>

theorem accepted_is_unambiguous:
  assumes "utf8_valid raw" and "\<not> ambiguous_route t raw"
  shows "(\<forall>p. may_read raw p \<longrightarrow> pick t p = pick t raw)
    \<and> ((\<exists>w \<in> insert [semicolon] (set disguises). sublist w raw \<or> sublist w (normalize raw)) \<longrightarrow>
        (\<forall>p. may_read (normalize raw) p \<and> p \<noteq> normalize raw \<longrightarrow> pick t p = pick t raw))"
proof -
  let ?sus = "suspicious raw \<or> suspicious (normalize raw)"
  have norm: "utf8_valid (normalize raw)" using norm_loop_utf8 [OF assms(1)] by (simp add: normalize_loop)
  have all: "pick t p = pick t raw" if "?sus" "p \<in> set (readings raw) \<union> set (readings (normalize raw))" for p
    using assms(2) that by (auto simp: ambiguous_route_def Let_def list_ex_iff)
  have raw: "pick t p = pick t raw" if "may_read raw p" for p
  proof (cases ?sus)
    case True
    then show ?thesis using all may_read_cases [OF that] readings_bytes [OF assms(1)] by auto
  next
    case False
    then have "p = raw" using may_read_cases [OF that] plain_readings [of raw] readings_bytes [OF assms(1)] by auto
    then show ?thesis by simp
  qed
  have "pick t p = pick t raw" if ?sus "may_read (normalize raw) p" "p \<noteq> normalize raw" for p
    using all that may_read_cases [OF that(2)] readings_bytes [OF norm] by auto
  then show ?thesis using raw unfolding suspicious_iff by blast
qed

definition sample_table :: route_table where
  "sample_table = table_new [sample_route ''/'', sample_route ''/api'', sample_route ''/admin''] 0"

theorem accepted_is_unambiguous_witness:
  "\<not> ambiguous_route sample_table ''/api/a;b%2Fc;d''
   \<and> may_read ''/api/a;b%2Fc;d'' ''/api/a'' \<and> may_read ''/api/a;b%2Fc;d'' ''/api/a/c''
   \<and> pick sample_table ''/api/a'' = pick sample_table ''/api/a;b%2Fc;d''
   \<and> pick sample_table ''/api/a/c'' = pick sample_table ''/api/a;b%2Fc;d''
   \<and> ambiguous_route sample_table ''/%2Fadmin''
   \<and> ambiguous_route sample_table ''/%61dmin;x''"
proof -
  let ?p = "''/api/a;b%2Fc;d''"
  have a: "\<not> ambiguous_route sample_table ?p" "ambiguous_route sample_table ''/%2Fadmin''"
    "ambiguous_route sample_table ''/%61dmin;x''" "utf8_valid ?p" by code_simp+
  have w: "without_params False ?p = ''/api/a''" "without_params False (flat ?p) = ''/api/a/c''" by code_simp+
  have r: "may_read ?p ''/api/a''" "may_read ?p ''/api/a/c''"
    using may_read.dropping [OF may_read.itself, of ?p]
      may_read.dropping [OF may_read.decoding [OF may_read.itself, of ?p "flat ?p"]] unfolding w decoded_iff by simp_all
  show ?thesis using accepted_is_unambiguous [OF a(4,1)] a(1-3) r by blast
qed

end
