(* ===== verification/Headers.thy ===== *)
theory Headers
  imports Route_Table
begin

text \<open>
  The header handling of \<open>crates/server/src/proxy.rs\<close>: hop-by-hop headers, \<open>Host\<close>, cookies, request
  ids and the forwarding headers.

  \<open>HeaderMap\<close>, \<open>HeaderName\<close>, \<open>HeaderValue\<close> and \<open>Authority\<close> belong to the http crate: the operations
  the code calls on them are the fields of \<open>header_ops\<close>, an argument of the definitions, and the
  locale \<open>header_map\<close> states what that crate documents of them. A header name is its lower-case
  text, a header value its bytes.
\<close>

section \<open>The operations of the http crate\<close>

record 'h header_ops =
  hm_empty :: 'h
  hm_get_all :: "'h \<Rightarrow> string \<Rightarrow> string list"
  hm_insert :: "string \<Rightarrow> string \<Rightarrow> 'h \<Rightarrow> 'h"
  hm_remove :: "string \<Rightarrow> 'h \<Rightarrow> 'h"
  hm_keys :: "'h \<Rightarrow> string list"
  hn_from_bytes :: "string \<Rightarrow> string option"
  hv_to_str :: "string \<Rightarrow> bool"
  hv_from_str :: "string \<Rightarrow> bool"
  hv_from_bytes :: "string \<Rightarrow> bool"
  authority_ok :: "string \<Rightarrow> bool"

text \<open>\<open>HeaderMap::get\<close>: the first value.\<close>

definition hm_get :: "'h header_ops \<Rightarrow> 'h \<Rightarrow> string \<Rightarrow> string option" where
  "hm_get H h n = (case hm_get_all H h n of [] \<Rightarrow> None | v # _ \<Rightarrow> Some v)"

text \<open>The values that \<open>to_str\<close> yields.\<close>

definition strs :: "'h header_ops \<Rightarrow> string list \<Rightarrow> string list" where
  "strs H vs = filter (hv_to_str H) vs"

text \<open>\<open>if let Ok(v) = HeaderValue::from_str(s) { headers.insert(name, v); }\<close>\<close>

definition try_insert :: "'h header_ops \<Rightarrow> string \<Rightarrow> string \<Rightarrow> 'h \<Rightarrow> 'h" where
  "try_insert H n s h = (if hv_from_str H s then hm_insert H n s h else h)"

section \<open>Hop-by-hop headers, Host and cookies\<close>

definition hop_by_hop_headers :: "string list" where
  "hop_by_hop_headers =
     [''connection'', ''keep-alive'', ''proxy-authenticate'', ''proxy-authorization'', ''te'',
      ''trailer'', ''transfer-encoding'', ''upgrade'']"

definition connection_names :: "'h header_ops \<Rightarrow> 'h \<Rightarrow> string list" where
  "connection_names H h =
     List.map_filter (\<lambda>s. hn_from_bytes H (trim s))
       (concat (map (split_on CHR '','') (strs H (hm_get_all H h ''connection''))))"

definition strip_hop_by_hop :: "'h header_ops \<Rightarrow> 'h \<Rightarrow> 'h" where
  "strip_hop_by_hop H h =
     (let named = connection_names H h;
          h1 = fold (\<lambda>n h. if n = ''host'' \<or> n = ''x-request-id'' then h else hm_remove H n h) named h in
      fold (hm_remove H) hop_by_hop_headers h1)"

text \<open>The part after the last colon, if the string has one: \<open>rposition\<close> and the slice from there.\<close>

fun after_last :: "char \<Rightarrow> string \<Rightarrow> string option" where
  "after_last c [] = None"
| "after_last c (x # s) =
     (case after_last c s of Some r \<Rightarrow> Some r | None \<Rightarrow> if x = c then Some s else None)"

definition plain_authority :: "'h header_ops \<Rightarrow> string \<Rightarrow> bool" where
  "plain_authority H b =
     (if b = ''*'' \<or> list_ex (\<lambda>c. c = CHR ''@'' \<or> c = CHR '','' \<or> c = slash \<or> 128 \<le> byte c) b then False
      else if \<not> authority_ok H b then False
      else case after_last CHR '':'' b of
        Some p \<Rightarrow>
          if CHR '']'' \<in> set p then True
          else p \<noteq> [] \<and> list_all is_ascii_digit p \<and> parse_uint 65535 p \<noteq> None
      | None \<Rightarrow> True)"

datatype http_version = HTTP_09 | HTTP_10 | HTTP_11 | HTTP_2 | HTTP_3

definition bad_host :: "'h header_ops \<Rightarrow> 'h \<Rightarrow> uri \<Rightarrow> http_version \<Rightarrow> bool" where
  "bad_host H h u v =
     (case hm_get_all H h ''host'' of
        [] \<Rightarrow> uri_authority u = None \<and> v = HTTP_11
      | [x] \<Rightarrow> uri_authority u = None \<and> \<not> plain_authority H x
      | _ \<Rightarrow> True)"

definition join_cookies :: "'h header_ops \<Rightarrow> 'h \<Rightarrow> 'h" where
  "join_cookies H h =
     (let cs = hm_get_all H h ''cookie'' in
      if length cs < 2 then h
      else (let joined = join_with ''; '' cs in
            if hv_from_bytes H joined then hm_insert H ''cookie'' joined h else h))"

section \<open>Request ids and the access log\<close>

definition visible :: "char \<Rightarrow> bool" where
  "visible c \<longleftrightarrow> 33 \<le> byte c \<and> byte c \<le> 126"

definition sanitize :: "string \<Rightarrow> nat \<Rightarrow> string" where
  "sanitize s mx = map (\<lambda>b. if visible b then b else CHR ''?'') (take mx s)"

definition max_request_id :: nat where
  "max_request_id = 128"

definition valid_request_id :: "string \<Rightarrow> bool" where
  "valid_request_id b \<longleftrightarrow> b \<noteq> [] \<and> length b \<le> max_request_id \<and> list_all visible b"

text \<open>The two random words of \<open>generate_request_id\<close> are inputs.\<close>

definition hex16 :: "u64 \<Rightarrow> string" where
  "hex16 w = map (\<lambda>i. digit_char (uint (drop_bit (4 * (15 - i)) w) mod 16)) [0 ..< 16]"

definition generate_request_id :: "u64 \<Rightarrow> u64 \<Rightarrow> string" where
  "generate_request_id a b = hex16 a @ hex16 b"

definition ensure_request_id :: "'h header_ops \<Rightarrow> u64 \<times> u64 \<Rightarrow> 'h \<Rightarrow> string \<times> 'h" where
  "ensure_request_id H rnd h =
     (let fresh = generate_request_id (fst rnd) (snd rnd);
          new = (fresh, hm_insert H ''x-request-id'' fresh h) in
      case hm_get_all H h ''x-request-id'' of
        [v] \<Rightarrow> if valid_request_id v then (v, h) else new
      | _ \<Rightarrow> new)"

section \<open>Forwarding headers\<close>

record fwd_cfg =
  f_trusted :: trusted_proxies
  f_forwarded_header :: bool
  f_xff :: xff_mode

definition is_private_peer :: "ip_addr \<Rightarrow> bool" where
  "is_private_peer ip =
     (case to_canonical ip of
        V4 w \<Rightarrow>
          (let a = octet w 0; b = octet w 1 in
           (a = 10 \<or> a = 172 \<and> 16 \<le> b \<and> b \<le> 31 \<or> a = 192 \<and> b = 168)
           \<or> a = 127 \<or> (a = 169 \<and> b = 254) \<or> (a = 100 \<and> b AND 0xc0 = 64))
      | V6 w \<Rightarrow>
          w = 1 \<or> segment w 0 AND 0xfe00 = 0xfc00 \<or> segment w 0 AND 0xffc0 = 0xfe80)"

definition untrusted_stripped :: "string list" where
  "untrusted_stripped =
     [''forwarded'', ''x-forwarded-host'', ''x-forwarded-ssl'', ''x-forwarded-scheme'',
      ''x-forwarded-port'', ''x-forwarded-prefix'']"

definition trust_governed :: "string list" where
  "trust_governed =
     [''forwarded'', ''x-forwarded-for'', ''x-forwarded-host'', ''x-forwarded-proto'',
      ''x-forwarded-port'', ''x-forwarded-ssl'', ''x-forwarded-scheme'', ''x-forwarded-prefix'',
      ''x-real-ip'']"

abbreviation dash :: char where "dash \<equiv> CHR ''-''"

fun fold_loop :: "string \<Rightarrow> string \<Rightarrow> string" where
  "fold_loop folded [] = folded"
| "fold_loop folded (c # s) =
     (if is_ascii_alphanumeric c then fold_loop (folded @ [c]) s
      else if folded \<noteq> [] \<and> \<not> suffix [dash] folded then fold_loop (folded @ [dash]) s
      else fold_loop folded s)"

definition is_noncanonical_spelling :: "string \<Rightarrow> bool" where
  "is_noncanonical_spelling nm =
     (if list_all (\<lambda>b. is_ascii_alphanumeric b \<or> b = dash) nm
         \<and> \<not> prefix [dash] nm \<and> \<not> suffix [dash] nm \<and> \<not> contains_str [dash, dash] nm
      then False
      else trim_end_matches (\<lambda>c. c = dash) (fold_loop [] nm) \<in> set trust_governed)"

definition strip_noncanonical_spellings :: "'h header_ops \<Rightarrow> 'h \<Rightarrow> 'h" where
  "strip_noncanonical_spellings H h =
     fold (hm_remove H) (filter is_noncanonical_spelling (hm_keys H h)) h"

definition rightmost :: "'h header_ops \<Rightarrow> 'h \<Rightarrow> string \<Rightarrow> string option" where
  "rightmost H h n =
     find (\<lambda>v. v \<noteq> [])
       (rev (map trim (concat (map (\<lambda>v. split_on CHR '','' (if hv_to_str H v then v else ''!''))
                                  (hm_get_all H h n)))))"

definition forwarded_node :: "ip_addr \<Rightarrow> string" where
  "forwarded_node ip =
     (case to_canonical ip of
        V4 w \<Rightarrow> show_ipv4 w
      | V6 w \<Rightarrow> [quote, CHR ''[''] @ show_ipv6 w @ [CHR '']'', quote])"

definition parse_xff_entry :: "string \<Rightarrow> ip_addr option" where
  "parse_xff_entry e =
     (case parse_ip e of
        Some ip \<Rightarrow> Some ip
      | None \<Rightarrow>
          (case parse_socket_addr e of
             Some a \<Rightarrow> Some (sa_ip a)
           | None \<Rightarrow>
               (case strip_prefix ''['' e of
                  None \<Rightarrow> None
                | Some r \<Rightarrow> (case strip_suffix '']'' r of None \<Rightarrow> None | Some m \<Rightarrow> parse_ip m))))"

definition set_port :: "'h header_ops \<Rightarrow> string \<Rightarrow> int option \<Rightarrow> 'h \<Rightarrow> 'h" where
  "set_port H n port h =
     (case port of Some p \<Rightarrow> hm_insert H n (show_int p) h | None \<Rightarrow> hm_remove H n h)"

definition set_real_ip :: "'h header_ops \<Rightarrow> ip_addr \<Rightarrow> 'h \<Rightarrow> 'h" where
  "set_real_ip H ip h = try_insert H ''x-real-ip'' (show_ip (to_canonical ip)) h"

definition appended :: "string list \<Rightarrow> string \<Rightarrow> string" where
  "appended existing el = (if existing = [] then el else join_with '', '' existing @ '', '' @ el)"

definition append_forwarded_for :: "'h header_ops \<Rightarrow> ip_addr \<Rightarrow> 'h \<Rightarrow> 'h" where
  "append_forwarded_for H ip h =
     try_insert H ''x-forwarded-for''
       (appended (strs H (hm_get_all H h ''x-forwarded-for'')) (show_ip ip)) h"

text \<open>\<open>h.replace('\\', "\\\\").replace('"', "\\\"")\<close>: a backslash goes before each of the two characters.\<close>

definition escape :: "string \<Rightarrow> string" where
  "escape h = concat (map (\<lambda>c. if c = backslash \<or> c = quote then [backslash, c] else [c]) h)"

definition forwarded_element :: "ip_addr \<Rightarrow> string \<Rightarrow> string option \<Rightarrow> string" where
  "forwarded_element peer proto host =
     ''for='' @ forwarded_node peer @ '';proto='' @ proto @
     (case host of
        None \<Rightarrow> []
      | Some h \<Rightarrow>
          if list_all (\<lambda>b. is_ascii_alphanumeric b \<or> b = dash \<or> b = dot \<or> b = CHR ''_'') h
          then '';host='' @ h
          else '';host='' @ [quote] @ escape h @ [quote])"

definition append_forwarded :: "'h header_ops \<Rightarrow> ip_addr \<Rightarrow> string \<Rightarrow> string option \<Rightarrow> 'h \<Rightarrow> 'h" where
  "append_forwarded H peer proto host h =
     try_insert H ''forwarded''
       (appended (strs H (hm_get_all H h ''forwarded'')) (forwarded_element peer proto host)) h"

definition set_forwarded_prefix :: "'h header_ops \<Rightarrow> string \<Rightarrow> 'h \<Rightarrow> 'h" where
  "set_forwarded_prefix H pre h =
     (let outer = (case hm_get_all H h ''x-forwarded-prefix'' of
                     [v] \<Rightarrow> if hv_to_str H v then Some (trim_end_matches (\<lambda>c. c = slash) (trim v)) else None
                   | _ \<Rightarrow> None);
          ok = (\<lambda>v. prefix [slash] v
                  \<and> list_all (\<lambda>b. is_ascii_graphic b \<and> \<not> (b = CHR '','' \<or> b = CHR ''?'' \<or> b = CHR ''#'')) v
                  \<and> \<not> contains_str ''//'' v \<and> \<not> bad_path v);
          kept = (case outer of Some v \<Rightarrow> if ok v then v else [] | None \<Rightarrow> []) in
      try_insert H ''x-forwarded-prefix'' (kept @ pre) h)"

text \<open>The scheme, port and client address taken over from a trusted peer.\<close>

definition trusted_scheme :: "'h header_ops \<Rightarrow> 'h \<Rightarrow> string \<Rightarrow> string" where
  "trusted_scheme H h proto =
     (case rightmost H h ''x-forwarded-proto'' of
        None \<Rightarrow> proto
      | Some v \<Rightarrow>
          if list_all (\<lambda>b. is_ascii_alphanumeric b \<or> b = CHR ''+'' \<or> b = dash \<or> b = dot) v
             \<and> hv_from_str H v
          then v else proto)"

definition trusted_port :: "'h header_ops \<Rightarrow> 'h \<Rightarrow> int option" where
  "trusted_port H h =
     (case rightmost H h ''x-forwarded-port'' of
        None \<Rightarrow> None
      | Some v \<Rightarrow>
          (case parse_uint 65535 v of
             None \<Rightarrow> None
           | Some p \<Rightarrow> if p \<noteq> 0 \<and> list_all is_ascii_digit v then Some p else None))"

definition xff_entries :: "'h header_ops \<Rightarrow> 'h \<Rightarrow> ip_addr option list" where
  "xff_entries H h =
     concat (map (\<lambda>v. if hv_to_str H v then map (\<lambda>e. parse_xff_entry (trim e)) (split_on CHR '','' v)
                      else [None])
               (hm_get_all H h ''x-forwarded-for''))"

definition client_of :: "trusted_proxies \<Rightarrow> ip_addr option list \<Rightarrow> ip_addr \<Rightarrow> ip_addr" where
  "client_of trusted entries peer =
     (case find (\<lambda>e. \<not> (case e of Some ip \<Rightarrow> contains trusted ip | None \<Rightarrow> False)) (rev entries) of
        Some (Some ip) \<Rightarrow> ip
      | _ \<Rightarrow> peer)"

text \<open>The two branches of \<open>apply_forwarded_headers\<close>: the headers and the client's address.\<close>

definition from_trusted :: "'h header_ops \<Rightarrow> fwd_cfg \<Rightarrow> ip_addr \<Rightarrow> string \<Rightarrow> 'h \<Rightarrow> 'h \<times> ip_addr" where
  "from_trusted H cfg peer proto h =
     (let h1 = hm_insert H ''x-forwarded-proto'' (trusted_scheme H h proto) h;
          h2 = set_port H ''x-forwarded-port'' (trusted_port H h1) h1 in
      (h2, client_of (f_trusted cfg) (xff_entries H h2) peer))"

definition from_untrusted :: "'h header_ops \<Rightarrow> ip_addr \<Rightarrow> string \<Rightarrow> 'h \<Rightarrow> 'h \<times> ip_addr" where
  "from_untrusted H peer proto h =
     (let h1 = hm_insert H ''x-forwarded-proto'' proto h;
          h2 = fold (hm_remove H) untrusted_stripped h1 in
      (hm_remove H ''x-forwarded-port'' h2, peer))"

definition apply_forwarded_headers ::
    "'h header_ops \<Rightarrow> ip_addr \<Rightarrow> string \<Rightarrow> string option \<Rightarrow> fwd_cfg \<Rightarrow> 'h \<Rightarrow> 'h" where
  "apply_forwarded_headers H peer proto client_host cfg h0 =
     (let h = strip_noncanonical_spellings H h0;
          (h1, client) = (if contains (f_trusted cfg) peer then from_trusted H cfg peer proto h
                          else from_untrusted H peer proto h);
          h2 = set_real_ip H client h1;
          h3 = (case f_xff cfg of
                  Replace \<Rightarrow> try_insert H ''x-forwarded-for'' (show_ip (to_canonical client)) h2
                | Append \<Rightarrow> append_forwarded_for H peer h2) in
      if f_forwarded_header cfg then append_forwarded H peer proto client_host h3 else h3)"

end
