(* ===== verification/Header_Laws.thy ===== *)
theory Header_Laws
  imports Headers
begin

text \<open>
  The contract of the http crate's header types as a locale, what follows from it for the header
  operations of the proxy, and a multimap that satisfies it.
\<close>

section \<open>Text that is a header value\<close>

definition value_char :: "char \<Rightarrow> bool" where
  "value_char c \<longleftrightarrow> byte c = 9 \<or> 32 \<le> byte c \<and> byte c \<le> 126"

lemma graphic_value: "is_ascii_graphic c \<Longrightarrow> value_char c"
  by (simp add: is_ascii_graphic_def value_char_def)

lemma join_all: "list_all P sep \<Longrightarrow> list_all (list_all P) xs \<Longrightarrow> list_all P (join_with sep xs)"
  by (induction sep xs rule: join_with.induct) simp_all

lemma show_radix_chars:
  "2 \<le> b \<Longrightarrow> b \<le> 16 \<Longrightarrow> 0 \<le> n \<Longrightarrow> list_all is_ascii_graphic (show_radix b n)"
proof (induction b n rule: show_radix.induct)
  case (1 b n)
  show ?case
  proof (cases "n < b")
    case True
    then show ?thesis using 1(2-) by (subst show_radix.simps) (simp add: ascii_digit_char)
  next
    case False
    then have "list_all is_ascii_graphic (show_radix b (n div b))"
      using 1 by (simp add: pos_imp_zdiv_nonneg_iff)
    moreover have "n mod b < b" "0 \<le> n mod b" using 1(2) by simp_all
    then have "is_ascii_graphic (digit_char (n mod b))" using 1(3) by (intro ascii_digit_char) linarith+
    ultimately show ?thesis using False 1(2) by (subst show_radix.simps) simp
  qed
qed

lemma show_ipv4_chars: "list_all is_ascii_graphic (show_ipv4 w)"
proof -
  have "list_all is_ascii_graphic [dot]" by (simp add: is_ascii_graphic_def byte_def)
  then show ?thesis unfolding show_ipv4_def by (rule join_all) (simp add: show_radix_chars octet_def)
qed

lemma show_groups_chars:
  assumes "\<forall>g \<in> set gs. 0 \<le> g"
  shows "list_all is_ascii_graphic (show_groups gs)"
proof -
  have "list_all is_ascii_graphic '':''" by (simp add: is_ascii_graphic_def byte_def)
  then show ?thesis unfolding show_groups_def
    by (rule join_all) (use assms in \<open>auto simp: list_all_iff [of "list_all _"] intro!: show_radix_chars\<close>)
qed

lemma show_ipv6_chars: "list_all is_ascii_graphic (show_ipv6 w)"
proof (cases "to_ipv4_mapped w")
  case None
  have seg: "\<forall>g \<in> set (map (segment w) [0, 1, 2, 3, 4, 5, 6, 7]). 0 \<le> g" by (simp add: segment_def)
  obtain st len where z: "zero_run 0 (map (segment w) [0, 1, 2, 3, 4, 5, 6, 7]) (0, 0) (0, 0) = (st, len)"
    by fastforce
  have "list_all is_ascii_graphic ''::''" by (simp add: is_ascii_graphic_def byte_def)
  then show ?thesis using None z
    by (simp add: show_ipv6_def Let_def del: list.map)
       (use seg in \<open>auto intro!: show_groups_chars dest: in_set_takeD in_set_dropD simp del: list.map\<close>)
next
  case (Some v4)
  then show ?thesis by (simp add: show_ipv6_def show_ipv4_chars is_ascii_graphic_def byte_def)
qed

lemma show_ip_chars: "list_all value_char (show_ip ip)"
  using show_ipv4_chars show_ipv6_chars
  by (auto simp: show_ip_def list_all_iff graphic_value split: ip_addr.split)

lemma canonical_names: "m \<in> set trust_governed \<Longrightarrow> \<not> is_noncanonical_spelling m"
proof -
  have "list_all (\<lambda>m. \<not> is_noncanonical_spelling m) trust_governed" by code_simp
  then show "m \<in> set trust_governed \<Longrightarrow> \<not> is_noncanonical_spelling m" by (simp add: list_all_iff)
qed

definition xff_value :: "'h header_ops \<Rightarrow> fwd_cfg \<Rightarrow> ip_addr \<Rightarrow> ip_addr \<Rightarrow> 'h \<Rightarrow> string" where
  "xff_value H cfg client peer h =
     (case f_xff cfg of
        Replace \<Rightarrow> show_ip (to_canonical client)
      | Append \<Rightarrow> appended (strs H (hm_get_all H h ''x-forwarded-for'')) (show_ip peer))"

section \<open>The contract\<close>

locale header_map =
  fixes H :: "'h header_ops"
  assumes get_empty: "hm_get_all H (hm_empty H) n = []"
    and get_insert: "hm_get_all H (hm_insert H n v h) m = (if m = n then [v] else hm_get_all H h m)"
    and get_remove: "hm_get_all H (hm_remove H n h) m = (if m = n then [] else hm_get_all H h m)"
    and keys: "n \<in> set (hm_keys H h) \<longleftrightarrow> hm_get_all H h n \<noteq> []"
    and to_str: "hv_to_str H v \<longleftrightarrow> list_all value_char v"
    and from_str: "list_all value_char v \<Longrightarrow> hv_from_str H v"
begin

lemma get_removes:
  "hm_get_all H (fold (hm_remove H) ns h) m = (if m \<in> set ns then [] else hm_get_all H h m)"
  by (induction ns arbitrary: h) (auto simp: get_remove)

lemma get_removes_but:
  "hm_get_all H (fold (\<lambda>n h. if K n then h else hm_remove H n h) ns h) m
   = (if m \<in> set ns \<and> \<not> K m then [] else hm_get_all H h m)"
  by (induction ns arbitrary: h) (auto simp: get_remove)

lemma get_try_insert:
  "hm_get_all H (try_insert H n v h) m = (if m = n \<and> hv_from_str H v then [v] else hm_get_all H h m)"
  by (simp add: try_insert_def get_insert)

lemma get_spellings:
  "hm_get_all H (strip_noncanonical_spellings H h) m
   = (if is_noncanonical_spelling m then [] else hm_get_all H h m)"
  by (auto simp: strip_noncanonical_spellings_def get_removes keys)

lemma get_set_port:
  "hm_get_all H (set_port H n p h) m =
   (if m = n then (case p of Some p \<Rightarrow> [show_int p] | None \<Rightarrow> []) else hm_get_all H h m)"
  by (simp add: set_port_def get_insert get_remove split: option.split)

lemma get_real_ip:
  "hm_get_all H (set_real_ip H ip h) m =
   (if m = ''x-real-ip'' then [show_ip (to_canonical ip)] else hm_get_all H h m)"
  by (simp add: set_real_ip_def get_try_insert from_str show_ip_chars)

lemma appended_value:
  "list_all (hv_to_str H) vs \<Longrightarrow> list_all value_char el \<Longrightarrow> list_all value_char (appended vs el)"
proof -
  assume vs: "list_all (hv_to_str H) vs" and el: "list_all value_char el"
  have "list_all (list_all value_char) vs" using vs by (simp add: list_all_iff to_str)
  moreover have "list_all value_char '', ''" by (simp add: value_char_def byte_def)
  ultimately show ?thesis using el by (simp add: appended_def join_all)
qed

lemma strs_all: "list_all (hv_to_str H) (strs H vs)"
  by (simp add: strs_def list_all_iff)

lemma get_append_for:
  "hm_get_all H (append_forwarded_for H ip h) m =
   (if m = ''x-forwarded-for'' then [appended (strs H (hm_get_all H h ''x-forwarded-for'')) (show_ip ip)]
    else hm_get_all H h m)"
  by (simp add: append_forwarded_for_def get_try_insert from_str appended_value strs_all show_ip_chars)

lemma get_append_forwarded:
  "m \<noteq> ''forwarded'' \<Longrightarrow> hm_get_all H (append_forwarded H p pr ho h) m = hm_get_all H h m"
  by (simp add: append_forwarded_def get_try_insert)

lemmas get_ops = get_insert get_remove get_removes get_try_insert get_spellings get_set_port
  get_real_ip get_append_for

text \<open>Every header after \<open>apply_forwarded_headers\<close>, for an untrusted and for a trusted peer.\<close>

lemma canonical_xff [simp]: "\<not> is_noncanonical_spelling ''x-forwarded-for''"
  by (rule canonical_names) (simp add: trust_governed_def)

lemma get_xff:
  "hm_get_all H (case f_xff cfg of
       Replace \<Rightarrow> try_insert H ''x-forwarded-for'' (show_ip (to_canonical client)) h
     | Append \<Rightarrow> append_forwarded_for H peer h) m
   = (if m = ''x-forwarded-for'' then [xff_value H cfg client peer h] else hm_get_all H h m)"
  by (cases "f_xff cfg") (simp_all add: xff_value_def get_ops from_str show_ip_chars)

lemma xff_value_cong:
  "hm_get_all H h ''x-forwarded-for'' = hm_get_all H h2 ''x-forwarded-for'' \<Longrightarrow>
   xff_value H cfg client peer h = xff_value H cfg client peer h2"
  by (cases "f_xff cfg") (simp_all add: xff_value_def)

lemma get_from_untrusted:
  "hm_get_all H (fst (from_untrusted H peer proto h)) m =
   (if m \<in> set untrusted_stripped then [] else if m = ''x-forwarded-proto'' then [proto]
    else hm_get_all H h m)"
  by (simp add: from_untrusted_def Let_def get_ops untrusted_stripped_def)

lemma get_from_trusted:
  "hm_get_all H (fst (from_trusted H cfg peer proto h)) m =
   (if m = ''x-forwarded-proto'' then [trusted_scheme H h proto]
    else if m = ''x-forwarded-port'' then (case trusted_port H h of Some p \<Rightarrow> [show_int p] | None \<Rightarrow> [])
    else hm_get_all H h m)"
  by (simp add: from_trusted_def Let_def get_ops trusted_port_def rightmost_def)

lemma client_from_trusted:
  "snd (from_trusted H cfg peer proto h) = client_of (f_trusted cfg) (xff_entries H h) peer"
  by (simp add: from_trusted_def Let_def xff_entries_def get_ops)

lemma canonical [simp]:
  "\<not> is_noncanonical_spelling ''x-forwarded-proto''" "\<not> is_noncanonical_spelling ''x-forwarded-port''"
  "\<not> is_noncanonical_spelling ''x-real-ip''" "\<not> is_noncanonical_spelling ''forwarded''"
  by (simp_all add: canonical_names trust_governed_def)

lemma get_if_forwarded:
  "hm_get_all H (if b then append_forwarded H peer proto ho h else h) m =
   (if m = ''forwarded'' \<and> b
       \<and> hv_from_str H (appended (strs H (hm_get_all H h ''forwarded'')) (forwarded_element peer proto ho))
    then [appended (strs H (hm_get_all H h ''forwarded'')) (forwarded_element peer proto ho)]
    else hm_get_all H h m)"
  by (simp add: append_forwarded_def get_try_insert)

lemma untrusted_get:
  assumes "\<not> contains (f_trusted cfg) peer"
  shows "hm_get_all H (apply_forwarded_headers H peer proto ho cfg h) m =
    (if m = ''x-real-ip'' then [show_ip (to_canonical peer)]
     else if m = ''x-forwarded-for'' then [xff_value H cfg peer peer h]
     else if m = ''x-forwarded-proto'' then [proto]
     else if m = ''forwarded'' \<and> f_forwarded_header cfg \<and> hv_from_str H (forwarded_element peer proto ho)
     then [forwarded_element peer proto ho]
     else if m \<in> set untrusted_stripped \<or> is_noncanonical_spelling m then []
     else hm_get_all H h m)"
proof -
  let ?h1 = "strip_noncanonical_spellings H h"
  let ?h2 = "set_real_ip H peer (fst (from_untrusted H peer proto ?h1))"
  have snd: "snd (from_untrusted H peer proto ?h1) = peer" by (simp add: from_untrusted_def Let_def)
  have x: "xff_value H cfg peer peer ?h2 = xff_value H cfg peer peer h"
    by (rule xff_value_cong) (simp add: get_ops get_from_untrusted untrusted_stripped_def)
  show ?thesis using assms
    by (simp add: apply_forwarded_headers_def Let_def case_prod_beta snd get_if_forwarded get_xff
        get_ops get_from_untrusted x strs_def appended_def)
       (auto simp: untrusted_stripped_def)
qed

lemma trusted_get:
  assumes "contains (f_trusted cfg) peer"
    and client: "client = client_of (f_trusted cfg) (xff_entries H h) peer"
  shows "hm_get_all H (apply_forwarded_headers H peer proto ho cfg h) m =
    (if m = ''x-real-ip'' then [show_ip (to_canonical client)]
     else if m = ''x-forwarded-for'' then [xff_value H cfg client peer h]
     else if m = ''x-forwarded-proto'' then [trusted_scheme H h proto]
     else if m = ''x-forwarded-port'' then (case trusted_port H h of Some p \<Rightarrow> [show_int p] | None \<Rightarrow> [])
     else if m = ''forwarded'' \<and> f_forwarded_header cfg
          \<and> hv_from_str H (appended (strs H (hm_get_all H h ''forwarded'')) (forwarded_element peer proto ho))
     then [appended (strs H (hm_get_all H h ''forwarded'')) (forwarded_element peer proto ho)]
     else if is_noncanonical_spelling m then []
     else hm_get_all H h m)"
proof -
  let ?h1 = "strip_noncanonical_spellings H h"
  let ?h2 = "set_real_ip H client (fst (from_trusted H cfg peer proto ?h1))"
  have same: "xff_entries H ?h1 = xff_entries H h" "trusted_scheme H ?h1 proto = trusted_scheme H h proto"
    "trusted_port H ?h1 = trusted_port H h"
    by (simp_all add: xff_entries_def trusted_scheme_def trusted_port_def rightmost_def get_spellings)
  then have snd: "snd (from_trusted H cfg peer proto ?h1) = client"
    by (simp add: client_from_trusted client)
  have x: "xff_value H cfg client peer ?h2 = xff_value H cfg client peer h"
    by (rule xff_value_cong) (simp add: get_ops get_from_trusted)
  show ?thesis using assms(1)
    by (simp add: apply_forwarded_headers_def Let_def case_prod_beta snd get_if_forwarded get_xff
        get_ops get_from_trusted x same)
qed

lemma get_strip_hop_by_hop:
  "hm_get_all H (strip_hop_by_hop H h) m =
   (if m \<in> set hop_by_hop_headers
       \<or> m \<in> set (connection_names H h) \<and> m \<noteq> ''host'' \<and> m \<noteq> ''x-request-id''
    then [] else hm_get_all H h m)"
  by (auto simp: strip_hop_by_hop_def Let_def get_removes get_removes_but)

lemma get_join_cookies:
  "hm_get_all H (join_cookies H h) m =
   (if m = ''cookie'' \<and> 2 \<le> length (hm_get_all H h m) \<and> hv_from_bytes H (join_with ''; '' (hm_get_all H h m))
    then [join_with ''; '' (hm_get_all H h m)] else hm_get_all H h m)"
  by (auto simp: join_cookies_def Let_def get_insert)

end

section \<open>A multimap that satisfies the contract\<close>

text \<open>Headers as the list of their names and values, a name once per value.\<close>

definition list_headers :: "(string \<times> string) list header_ops" where
  "list_headers =
     \<lparr>hm_empty = [],
      hm_get_all = (\<lambda>h n. map snd (filter (\<lambda>e. fst e = n) h)),
      hm_insert = (\<lambda>n v h. filter (\<lambda>e. fst e \<noteq> n) h @ [(n, v)]),
      hm_remove = (\<lambda>n h. filter (\<lambda>e. fst e \<noteq> n) h),
      hm_keys = map fst,
      hn_from_bytes = (\<lambda>s. if s = [] then None else Some (map to_ascii_lowercase s)),
      hv_to_str = list_all value_char,
      hv_from_str = list_all value_char,
      hv_from_bytes = list_all (\<lambda>c. value_char c \<or> 128 \<le> byte c),
      authority_ok = (\<lambda>s. s \<noteq> [])\<rparr>"

interpretation listed: header_map list_headers
proof unfold_locales
  show "hm_get_all list_headers (hm_insert list_headers n v h) m
    = (if m = n then [v] else hm_get_all list_headers h m)" for n v h m
    by (induction h) (auto simp: list_headers_def)
  show "hm_get_all list_headers (hm_remove list_headers n h) m
    = (if m = n then [] else hm_get_all list_headers h m)" for n h m
    by (induction h) (auto simp: list_headers_def)
  show "n \<in> set (hm_keys list_headers h) \<longleftrightarrow> hm_get_all list_headers h n \<noteq> []" for n h
    by (auto simp: list_headers_def filter_empty_conv image_iff)
qed (simp_all add: list_headers_def)

lemma list_headers_ok: "header_map list_headers"
  by (rule listed.header_map_axioms)

section \<open>Properties of the forwarding headers\<close>

lemma join_snoc: "xs \<noteq> [] \<Longrightarrow> join_with sep (xs @ [x]) = join_with sep xs @ sep @ x"
  by (induction sep xs rule: join_with.induct) simp_all

lemma appended_join: "appended existing el = join_with '', '' (existing @ [el])"
  by (cases "existing = []") (simp_all add: appended_def join_snoc)

lemma xff_value_join:
  "xff_value H cfg client peer h =
     (case f_xff cfg of
        Replace \<Rightarrow> show_ip (to_canonical client)
      | Append \<Rightarrow> join_with '', '' (filter (hv_to_str H) (hm_get_all H h ''x-forwarded-for'') @ [show_ip peer]))"
  by (cases "f_xff cfg") (simp_all add: xff_value_def appended_join strs_def)

lemma element_prefix: "prefix (''for='' @ forwarded_node peer @ '';proto='' @ proto) (forwarded_element peer proto ho)"
  by (simp add: forwarded_element_def)

text \<open>C10. A peer outside \<open>trusted_proxies\<close> cannot forge any of the nine forwarding headers, whatever it
  sends: the upstream sees the peer itself as the only \<open>X-Real-IP\<close>, the connection's scheme as the
  only \<open>X-Forwarded-Proto\<close>, and no \<open>X-Forwarded-Host\<close>, \<open>-Ssl\<close>, \<open>-Scheme\<close>, \<open>-Port\<close> or \<open>-Prefix\<close>. There is
  a \<open>Forwarded\<close> only with \<open>forwarded_header\<close> on, and it is the proxy's own element alone, which names
  the peer and the scheme. \<open>X-Forwarded-For\<close> is the peer alone with \<open>xff = "replace"\<close>; with \<open>"append"\<close>
  it is one value, the client's text values and then the peer, joined by a comma and a space, so that
  the peer is an entry of its own at the right end.\<close>

theorem untrusted_cannot_forge:
  assumes "header_map H" and "\<not> contains (f_trusted cfg) peer"
  shows "let h' = apply_forwarded_headers H peer proto client_host cfg h;
             sent = filter (hv_to_str H) (hm_get_all H h ''x-forwarded-for'');
             own = forwarded_element peer proto client_host in
    hm_get_all H h' ''x-real-ip'' = [show_ip (to_canonical peer)]
    \<and> hm_get_all H h' ''x-forwarded-proto'' = [proto]
    \<and> hm_get_all H h' ''x-forwarded-for'' =
        [case f_xff cfg of
           Replace \<Rightarrow> show_ip (to_canonical peer)
         | Append \<Rightarrow> join_with '', '' (sent @ [show_ip peer])]
    \<and> hm_get_all H h' ''forwarded'' = (if f_forwarded_header cfg \<and> hv_from_str H own then [own] else [])
    \<and> prefix (''for='' @ forwarded_node peer @ '';proto='' @ proto) own
    \<and> hm_get_all H h' ''x-forwarded-host'' = [] \<and> hm_get_all H h' ''x-forwarded-ssl'' = []
    \<and> hm_get_all H h' ''x-forwarded-scheme'' = [] \<and> hm_get_all H h' ''x-forwarded-port'' = []
    \<and> hm_get_all H h' ''x-forwarded-prefix'' = []"
  unfolding Let_def
  by (intro conjI element_prefix)
     (simp_all add: header_map.untrusted_get [OF assms] untrusted_stripped_def xff_value_join)

theorem untrusted_cannot_forge_witness:
  "let h = [(''x-real-ip'', ''6.6.6.6''), (''forwarded'', ''for=6.6.6.6''), (''x-forwarded-for'', ''1''),
            (''x-forwarded-host'', ''evil''), (''x-forwarded-prefix'', ''/evil''), (''x_real_ip'', ''6.6.6.6'')];
       h' = apply_forwarded_headers list_headers (V4 0x05050505) ''https'' None
              \<lparr>f_trusted = default_trusted_proxies, f_forwarded_header = True, f_xff = Append\<rparr> h in
   hm_get_all list_headers h' ''x-real-ip'' = [''5.5.5.5'']
   \<and> hm_get_all list_headers h' ''x-forwarded-for'' = [''1, 5.5.5.5'']
   \<and> hm_get_all list_headers h' ''x-forwarded-prefix'' = []
   \<and> h' = [(''x-forwarded-proto'', ''https''), (''x-real-ip'', ''5.5.5.5''), (''x-forwarded-for'', ''1, 5.5.5.5''),
           (''forwarded'', ''for=5.5.5.5;proto=https'')]"
proof -
  let ?cfg = "\<lparr>f_trusted = default_trusted_proxies, f_forwarded_header = True, f_xff = Append\<rparr>"
  let ?h = "[(''x-real-ip'', ''6.6.6.6''), (''forwarded'', ''for=6.6.6.6''), (''x-forwarded-for'', ''1''),
            (''x-forwarded-host'', ''evil''), (''x-forwarded-prefix'', ''/evil''), (''x_real_ip'', ''6.6.6.6'')]"
  have c: "\<not> contains (f_trusted ?cfg) (V4 0x05050505)" "show_ip (to_canonical (V4 0x05050505)) = ''5.5.5.5''"
    "join_with '', '' (filter (hv_to_str list_headers) (hm_get_all list_headers ?h ''x-forwarded-for'') @ [show_ip (V4 0x05050505)])
     = ''1, 5.5.5.5''"
    "apply_forwarded_headers list_headers (V4 0x05050505) ''https'' None ?cfg ?h
     = [(''x-forwarded-proto'', ''https''), (''x-real-ip'', ''5.5.5.5''), (''x-forwarded-for'', ''1, 5.5.5.5''),
        (''forwarded'', ''for=5.5.5.5;proto=https'')]"
    by code_simp+
  have f: "f_xff ?cfg = Append" by simp
  show ?thesis using untrusted_cannot_forge [OF list_headers_ok c(1), of "''https''" None ?h] c(2-)
    unfolding Let_def f xff_mode.case by metis
qed

lemma find_rev:
  "case find P (rev xs) of
     None \<Rightarrow> \<forall>x \<in> set xs. \<not> P x
   | Some x \<Rightarrow> \<exists>ys zs. xs = ys @ x # zs \<and> P x \<and> (\<forall>z \<in> set zs. \<not> P z)"
proof (induction xs rule: rev_induct)
  case (snoc x xs)
  then show ?case by (auto split: option.splits) (metis append_Cons append_assoc set_ConsD append_self_conv2
      Un_iff empty_iff insert_iff list.set(1,2) set_append append.assoc)+
qed simp

lemma last_unique:
  assumes "xs @ x # zs = ys @ y # ws" "\<not> P x" "\<not> P y" "list_all P zs" "list_all P ws"
  shows "x = y"
  using assms
proof (induction zs arbitrary: ws rule: rev_induct)
  case Nil
  then show ?case by (cases ws rule: rev_cases) auto
next
  case (snoc z zs)
  then show ?case by (cases ws rule: rev_cases) (auto simp flip: append_Cons append_assoc)
qed

definition is_trusted :: "trusted_proxies \<Rightarrow> ip_addr option \<Rightarrow> bool" where
  "is_trusted t e \<longleftrightarrow> (\<exists>ip. e = Some ip \<and> contains t ip)"

text \<open>C32. Behind trusted proxies the client is the rightmost \<open>X-Forwarded-For\<close> entry that is not itself
  a trusted proxy: everything to its right is trusted, so a client cannot push an address of its
  choice past the hop that wrote its own. An entry that is no address stops the walk, and then, as
  when every entry is trusted, the peer stands for the client. \<open>X-Real-IP\<close> is that address and
  nothing else.\<close>

theorem real_ip_behind_proxies:
  assumes "header_map H" and "contains (f_trusted cfg) peer"
  shows "\<exists>client. hm_get_all H (apply_forwarded_headers H peer proto client_host cfg h) ''x-real-ip''
        = [show_ip (to_canonical client)]
    \<and> ((\<exists>older newer. xff_entries H h = older @ Some client # newer
           \<and> \<not> contains (f_trusted cfg) client \<and> list_all (is_trusted (f_trusted cfg)) newer)
       \<or> client = peer \<and> (list_all (is_trusted (f_trusted cfg)) (xff_entries H h)
           \<or> (\<exists>older newer. xff_entries H h = older @ None # newer \<and> list_all (is_trusted (f_trusted cfg)) newer)))"
proof -
  let ?P = "\<lambda>e. \<not> (case e of Some ip \<Rightarrow> contains (f_trusted cfg) ip | None \<Rightarrow> False)"
  let ?client = "client_of (f_trusted cfg) (xff_entries H h) peer"
  have P: "\<not> ?P e \<longleftrightarrow> is_trusted (f_trusted cfg) e" for e by (cases e) (simp_all add: is_trusted_def)
  note f = find_rev [where P = ?P and xs = "xff_entries H h"]
  show ?thesis
  proof (intro exI conjI)
    show "hm_get_all H (apply_forwarded_headers H peer proto client_host cfg h) ''x-real-ip''
        = [show_ip (to_canonical ?client)]"
      by (simp add: header_map.trusted_get [OF assms refl])
    consider (none) "find ?P (rev (xff_entries H h)) = None"
      | (garbage) "find ?P (rev (xff_entries H h)) = Some None"
      | (ip) ip where "find ?P (rev (xff_entries H h)) = Some (Some ip)" by (metis option.exhaust)
    then show "(\<exists>older newer. xff_entries H h = older @ Some ?client # newer
           \<and> \<not> contains (f_trusted cfg) ?client \<and> list_all (is_trusted (f_trusted cfg)) newer)
       \<or> ?client = peer \<and> (list_all (is_trusted (f_trusted cfg)) (xff_entries H h)
           \<or> (\<exists>older newer. xff_entries H h = older @ None # newer \<and> list_all (is_trusted (f_trusted cfg)) newer))"
    proof cases
      case none
      then show ?thesis using f P by (simp add: client_of_def list_all_iff)
    next
      case garbage
      then show ?thesis using f P by (simp add: client_of_def list_all_iff)
    next
      case ip
      then show ?thesis using f P by (simp add: client_of_def list_all_iff)
    qed
  qed
qed

theorem real_ip_behind_proxies_witness:
  "\<exists>client. hm_get_all list_headers (apply_forwarded_headers list_headers (V4 0x0A000001) ''http'' None
        \<lparr>f_trusted = \<lparr>nets = [(V4 0x0A000000, 8)]\<rparr>, f_forwarded_header = False, f_xff = Append\<rparr>
        [(''x-forwarded-for'', ''1.1.1.1, 2.2.2.2:99, 10.0.0.9'')]) ''x-real-ip''
      = [show_ip (to_canonical client)] \<and> client = V4 0x02020202"
proof -
  let ?cfg = "\<lparr>f_trusted = \<lparr>nets = [(V4 0x0A000000, 8)]\<rparr>, f_forwarded_header = False, f_xff = Append\<rparr>"
  let ?h = "[(''x-forwarded-for'', ''1.1.1.1, 2.2.2.2:99, 10.0.0.9'')]"
  have c1: "contains (f_trusted ?cfg) (V4 0x0A000001)" by (simp add: contains_eval)
  have c2: "contains (f_trusted ?cfg) (V4 0x0A000009)" by (simp add: contains_eval)
  have c3: "\<not> contains (f_trusted ?cfg) (V4 0x02020202)" by (simp add: contains_eval)
  have c4: "xff_entries list_headers ?h = [Some (V4 0x01010101), Some (V4 0x02020202), Some (V4 0x0A000009)]"
    by code_simp
  let ?T = "is_trusted (f_trusted ?cfg)"
  have t: "\<not> ?T (Some (V4 0x02020202))" "?T (Some (V4 0x0A000009))" "\<not> ?T None" "\<not> ?T (Some ip) = (\<not> contains (f_trusted ?cfg) ip)" for ip
    using c2 c3 by (simp_all add: is_trusted_def)
  have u: "x = Some (V4 0x02020202)" if "xff_entries list_headers ?h = older @ x # newer" "\<not> ?T x" "list_all ?T newer"
    for x older newer
    by (rule last_unique [of older x newer "[Some (V4 0x01010101)]" "Some (V4 0x02020202)" "[Some (V4 0x0A000009)]" ?T])
       (use that c4 t(1,2) in simp_all)
  obtain client where r: "hm_get_all list_headers (apply_forwarded_headers list_headers (V4 0x0A000001) ''http'' None ?cfg ?h)
        ''x-real-ip'' = [show_ip (to_canonical client)]"
    and k: "(\<exists>older newer. xff_entries list_headers ?h = older @ Some client # newer
           \<and> \<not> contains (f_trusted ?cfg) client \<and> list_all ?T newer)
       \<or> client = V4 0x0A000001 \<and> (list_all ?T (xff_entries list_headers ?h)
           \<or> (\<exists>older newer. xff_entries list_headers ?h = older @ None # newer \<and> list_all ?T newer))"
    using real_ip_behind_proxies [OF list_headers_ok c1, of "''http''" None ?h] by blast
  have "\<not> list_all ?T (xff_entries list_headers ?h)" unfolding c4 using t(1) by simp
  then have "client = V4 0x02020202" using k u t(3,4) by (metis option.distinct(1) option.inject)
  then show ?thesis using r by blast
qed

end
