(* ===== verification/Request_Body.thy ===== *)
theory Request_Body
  imports Ferryman_Prelude
begin

text \<open>
  The streamed request body of \<open>crates/server/src/proxy.rs\<close> (\<open>RequestBody\<close>, \<open>BodyState\<close>) and the upstream
  timer of \<open>handle_core\<close>. Times are nanoseconds of the process's monotonic clock.

  hyper's inner body is what it answers when polled: a call of \<open>poll_frame\<close> is given the answers of
  the inner body in that call, up to the first that is not a trailer frame, the empty list standing
  for \<open>Poll::Pending\<close>. When a tokio timer is ready is the parameter \<open>ready\<close> (deadline, then now).
\<close>

section \<open>Stalls of the client\<close>

record body_state =
  polled :: bool
  waiting_on_client :: bool
  origin :: duration
  stall_since :: u64
  longest_stall :: u64

definition now_ms :: "body_state \<Rightarrow> duration \<Rightarrow> u64" where
  "now_ms s now = of_nat (as_millis (now - origin s))"

definition stall_ended :: "duration \<Rightarrow> body_state \<Rightarrow> body_state" where
  "stall_ended now s =
     (let since = stall_since s; s1 = s\<lparr>stall_since := 0\<rparr> in
      if since \<noteq> 0
      then (let d = saturating_sub (now_ms s now + 1) since in
            s1\<lparr>longest_stall := max (longest_stall s1) d\<rparr>)
      else s1)"

definition client_stalled :: "duration \<Rightarrow> duration \<Rightarrow> body_state \<Rightarrow> bool" where
  "client_stalled theta now s =
     (let t = of_nat (as_millis theta); since = stall_since s in
      t \<le> longest_stall s \<or> (since \<noteq> 0 \<and> t \<le> saturating_sub (now_ms s now + 1) since))"

section \<open>Polling\<close>

datatype inner_answer = Trailers | Data string bool | Failed | Ended

datatype body_error = InnerError | BodyIdleTimeout | BodyTotalTimeout

datatype poll = Pending | Ready_frame string | Ready_err body_error | Ready_end

record request_body =
  rb_idle :: duration
  rb_deadline :: duration
  rb_idle_sleep :: "duration option"
  rb_total_sleep :: "duration option"
  rb_eos :: bool
  rb_signalled :: bool
  rb_state :: body_state

text \<open>\<open>eos.take()\<close> and \<open>send\<close>: the signal goes out once.\<close>

definition send_eos :: "request_body \<Rightarrow> request_body" where
  "send_eos b = (if rb_eos b then b\<lparr>rb_eos := False, rb_signalled := True\<rparr> else b)"

definition signal_if_done :: "bool \<Rightarrow> request_body \<Rightarrow> request_body" where
  "signal_if_done end_stream b = (if end_stream then send_eos b else b)"

definition request_body_new :: "bool \<Rightarrow> duration \<Rightarrow> duration \<Rightarrow> duration \<Rightarrow> request_body" where
  "request_body_new end_stream idle total_time now =
     signal_if_done end_stream
       \<lparr>rb_idle = idle, rb_deadline = now + total_time, rb_idle_sleep = None, rb_total_sleep = None,
        rb_eos = True, rb_signalled = False,
        rb_state = \<lparr>polled = False, waiting_on_client = False, origin = now,
                    stall_since = 0, longest_stall = 0\<rparr>\<rparr>"

definition not_waiting :: "duration \<Rightarrow> request_body \<Rightarrow> request_body" where
  "not_waiting now b = b\<lparr>rb_state := (stall_ended now (rb_state b))\<lparr>waiting_on_client := False\<rparr>\<rparr>"

text \<open>The branch for \<open>Poll::Pending\<close>: the compare-and-exchange starts a stall unless one is running,
  and the two timers are armed if they are not yet.\<close>

definition start_stall :: "duration \<Rightarrow> body_state \<Rightarrow> body_state" where
  "start_stall now s =
     (let s1 = s\<lparr>waiting_on_client := True\<rparr> in
      if stall_since s1 = 0 then s1\<lparr>stall_since := now_ms s1 now + 1\<rparr> else s1)"

definition poll_pending ::
    "(duration \<Rightarrow> duration \<Rightarrow> bool) \<Rightarrow> duration \<Rightarrow> request_body \<Rightarrow> poll \<times> request_body" where
  "poll_pending ready now b =
     (let b1 = b\<lparr>rb_state := start_stall now (rb_state b)\<rparr>;
          idle_at = (case rb_idle_sleep b1 of Some d \<Rightarrow> d | None \<Rightarrow> now + rb_idle b1);
          b2 = b1\<lparr>rb_idle_sleep := Some idle_at\<rparr> in
      if ready idle_at now then (Ready_err BodyIdleTimeout, b2)
      else
        (let total_at = (case rb_total_sleep b2 of Some d \<Rightarrow> d | None \<Rightarrow> rb_deadline b2);
             b3 = b2\<lparr>rb_total_sleep := Some total_at\<rparr> in
         if ready total_at now then (Ready_err BodyTotalTimeout, b3) else (Pending, b3)))"

fun poll_inner ::
    "(duration \<Rightarrow> duration \<Rightarrow> bool) \<Rightarrow> duration \<Rightarrow> inner_answer list \<Rightarrow> request_body \<Rightarrow> poll \<times> request_body" where
  "poll_inner ready now [] b = poll_pending ready now b"
| "poll_inner ready now (Trailers # rest) b = poll_inner ready now rest b"
| "poll_inner ready now (Data d end_stream # rest) b =
     (Ready_frame d, signal_if_done end_stream (not_waiting now (b\<lparr>rb_idle_sleep := None\<rparr>)))"
| "poll_inner ready now (Failed # rest) b = (Ready_err InnerError, not_waiting now b)"
| "poll_inner ready now (Ended # rest) b = (Ready_end, send_eos (not_waiting now b))"

definition poll_frame ::
    "(duration \<Rightarrow> duration \<Rightarrow> bool) \<Rightarrow> duration \<Rightarrow> inner_answer list \<Rightarrow> request_body \<Rightarrow> poll \<times> request_body" where
  "poll_frame ready now answers b =
     (let b1 = b\<lparr>rb_state := (rb_state b)\<lparr>polled := True\<rparr>\<rparr> in
      if rb_deadline b1 \<le> now then (Ready_err BodyTotalTimeout, b1)
      else poll_inner ready now answers b1)"

section \<open>The upstream timer\<close>

text \<open>\<open>Legacy\<close> and \<open>Final\<close> sleep once, \<open>Await_body\<close> is the loop, \<open>Forever\<close> is \<open>std::future::pending\<close>.\<close>

datatype timer = Legacy | Await_body | Final | Forever | Expired

datatype timer_event = Eos_ok | Eos_dropped | Window

definition timer_new :: "bool \<Rightarrow> timer" where
  "timer_new tracks_eos = (if tracks_eos then Await_body else Legacy)"

fun timer_step :: "timer \<Rightarrow> timer_event \<Rightarrow> body_state \<Rightarrow> timer \<times> body_state" where
  "timer_step Await_body Eos_ok s = (Final, s)"
| "timer_step Await_body Eos_dropped s = (Forever, s)"
| "timer_step Await_body Window s =
     (if \<not> polled s \<and> \<not> waiting_on_client s then Expired else Await_body, s\<lparr>polled := False\<rparr>)"
| "timer_step Legacy Window s = (Expired, s)"
| "timer_step Final Window s = (Expired, s)"
| "timer_step t _ s = (t, s)"

section \<open>Histories of polls\<close>

text \<open>The polls of one body, in order: when, and what the inner body answered.\<close>

fun poll_all ::
    "(duration \<Rightarrow> duration \<Rightarrow> bool) \<Rightarrow> (duration \<times> inner_answer list) list \<Rightarrow> request_body \<Rightarrow> poll list \<times> request_body" where
  "poll_all ready [] b = ([], b)"
| "poll_all ready ((now, answers) # ps) b =
     (let (r, b1) = poll_frame ready now answers b; (rs, b2) = poll_all ready ps b1 in (r # rs, b2))"

lemma poll_all_append:
  "poll_all ready (ps @ qs) b =
   (let (rs, b1) = poll_all ready ps b; (rs2, b2) = poll_all ready qs b1 in (rs @ rs2, b2))"
  by (induction ps arbitrary: b) (auto simp: Let_def split: prod.splits)

text \<open>Trailer frames are skipped: what a poll sees is the first other answer.\<close>

definition seen_answer :: "inner_answer list \<Rightarrow> inner_answer option" where
  "seen_answer answers = find (\<lambda>a. a \<noteq> Trailers) answers"

lemma poll_inner_seen:
  "poll_inner ready now answers b =
   (case seen_answer answers of
      None \<Rightarrow> poll_pending ready now b
    | Some a \<Rightarrow> poll_inner ready now [a] b)"
  by (induction ready now answers b rule: poll_inner.induct) (simp_all add: seen_answer_def)

lemma seen_not_trailers: "seen_answer answers \<noteq> Some Trailers"
  by (auto simp: seen_answer_def find_Some_iff)

lemma poll_inner_cases:
  obtains (pending) "seen_answer answers = None" "poll_inner ready now answers b = poll_pending ready now b"
  | (data) d e where "seen_answer answers = Some (Data d e)" "poll_inner ready now answers b =
        (Ready_frame d, signal_if_done e (not_waiting now (b\<lparr>rb_idle_sleep := None\<rparr>)))"
  | (failed) "seen_answer answers = Some Failed" "poll_inner ready now answers b = (Ready_err InnerError, not_waiting now b)"
  | (ended) "seen_answer answers = Some Ended" "poll_inner ready now answers b = (Ready_end, send_eos (not_waiting now b))"
proof (cases "seen_answer answers")
  case None
  then show thesis using pending poll_inner_seen by simp
next
  case (Some a)
  have p: "poll_inner ready now answers b = poll_inner ready now [a] b" using Some poll_inner_seen by simp
  show thesis
  proof (cases a)
    case Trailers
    then show thesis using Some seen_not_trailers by blast
  next
    case (Data d e)
    then show thesis using data Some p by simp
  next
    case Failed
    then show thesis using failed Some p by simp
  next
    case Ended
    then show thesis using ended Some p by simp
  qed
qed

text \<open>The fields a poll touches.\<close>

lemma send_eos_simps [simp]:
  "rb_idle (send_eos b) = rb_idle b" "rb_deadline (send_eos b) = rb_deadline b"
  "rb_idle_sleep (send_eos b) = rb_idle_sleep b" "rb_total_sleep (send_eos b) = rb_total_sleep b"
  "rb_state (send_eos b) = rb_state b" "rb_signalled (send_eos b) \<longleftrightarrow> rb_signalled b \<or> rb_eos b"
  "rb_eos (send_eos b) = False"
  by (simp_all add: send_eos_def)

lemma signal_simps [simp]:
  "rb_idle (signal_if_done e b) = rb_idle b" "rb_deadline (signal_if_done e b) = rb_deadline b"
  "rb_idle_sleep (signal_if_done e b) = rb_idle_sleep b" "rb_total_sleep (signal_if_done e b) = rb_total_sleep b"
  "rb_state (signal_if_done e b) = rb_state b"
  "rb_signalled (signal_if_done e b) \<longleftrightarrow> rb_signalled b \<or> e \<and> rb_eos b"
  "rb_eos (signal_if_done e b) \<longleftrightarrow> rb_eos b \<and> \<not> e"
  by (simp_all add: signal_if_done_def)

lemma not_waiting_simps [simp]:
  "rb_idle (not_waiting now b) = rb_idle b" "rb_deadline (not_waiting now b) = rb_deadline b"
  "rb_idle_sleep (not_waiting now b) = rb_idle_sleep b" "rb_total_sleep (not_waiting now b) = rb_total_sleep b"
  "rb_signalled (not_waiting now b) = rb_signalled b" "rb_eos (not_waiting now b) = rb_eos b"
  "rb_state (not_waiting now b) = (stall_ended now (rb_state b))\<lparr>waiting_on_client := False\<rparr>"
  by (simp_all add: not_waiting_def)

lemma poll_pending_fields:
  assumes "poll_pending ready now b = (r, b')"
  shows "rb_idle b' = rb_idle b" "rb_deadline b' = rb_deadline b" "rb_eos b' = rb_eos b"
    "rb_signalled b' = rb_signalled b" "rb_state b' = start_stall now (rb_state b)"
    "rb_idle_sleep b' = Some (case rb_idle_sleep b of Some d \<Rightarrow> d | None \<Rightarrow> now + rb_idle b)"
    "rb_total_sleep b' \<in> {rb_total_sleep b, Some (case rb_total_sleep b of Some d \<Rightarrow> d | None \<Rightarrow> rb_deadline b)}"
    "r = Ready_err BodyIdleTimeout \<Longrightarrow> ready (the (rb_idle_sleep b')) now"
    "r = Ready_err BodyTotalTimeout \<Longrightarrow> ready (case rb_total_sleep b of Some d \<Rightarrow> d | None \<Rightarrow> rb_deadline b) now"
    "r \<in> {Pending, Ready_err BodyIdleTimeout, Ready_err BodyTotalTimeout}"
  using assms
  by (cases "rb_idle_sleep b"; cases "rb_total_sleep b"; auto simp: poll_pending_def Let_def split: if_splits)+

section \<open>Timeouts come late\<close>

text \<open>A stretch of polls, up to now, in which the client sent no data.\<close>

definition no_data :: "(duration \<times> inner_answer list) list \<Rightarrow> bool" where
  "no_data ps \<longleftrightarrow> (\<forall>(now, answers) \<in> set ps. \<forall>d e. seen_answer answers \<noteq> Some (Data d e))"

definition idle_since :: "duration \<Rightarrow> duration \<Rightarrow> (duration \<times> inner_answer list) list \<Rightarrow> bool" where
  "idle_since idle d ps \<longleftrightarrow>
     (\<exists>before t answers gap. ps = before @ (t, answers) # gap \<and> no_data ((t, answers) # gap) \<and> d = t + idle)"

definition timers_ok :: "duration \<Rightarrow> duration \<Rightarrow> (duration \<times> inner_answer list) list \<Rightarrow> request_body \<Rightarrow> bool" where
  "timers_ok idle dl ps b \<longleftrightarrow>
     rb_idle b = idle \<and> rb_deadline b = dl
     \<and> (\<forall>d. rb_idle_sleep b = Some d \<longrightarrow> idle_since idle d ps)
     \<and> (\<forall>d. rb_total_sleep b = Some d \<longrightarrow> d = dl)"

lemma idle_since_snoc:
  assumes "idle_since idle d ps" and "\<forall>x e. seen_answer answers \<noteq> Some (Data x e)"
  shows "idle_since idle d (ps @ [(now, answers)])"
proof -
  obtain before t a gap where "ps = before @ (t, a) # gap" "no_data ((t, a) # gap)" "d = t + idle"
    using assms(1) unfolding idle_since_def by blast
  then show ?thesis using assms(2) unfolding idle_since_def
    by (intro exI [of _ before] exI [of _ t] exI [of _ a] exI [of _ "gap @ [(now, answers)]"])
       (auto simp: no_data_def)
qed

lemma idle_since_now:
  "\<forall>x e. seen_answer answers \<noteq> Some (Data x e) \<Longrightarrow> idle_since idle (now + idle) (ps @ [(now, answers)])"
  unfolding idle_since_def by (intro exI [of _ ps]) (auto simp: no_data_def)

lemma poll_frame_timers:
  assumes inv: "timers_ok idle dl ps b" and poll: "poll_frame ready now answers b = (r, b')"
    and early: "\<forall>d n. ready d n \<longrightarrow> d \<le> n"
  shows "r = Ready_err BodyTotalTimeout \<longrightarrow> dl \<le> now"
    and "r = Ready_err BodyIdleTimeout \<longrightarrow> (\<exists>d \<le> now. idle_since idle d (ps @ [(now, answers)]))"
    and "now < dl \<longrightarrow> timers_ok idle dl (ps @ [(now, answers)]) b'"
proof -
  let ?b = "b\<lparr>rb_state := (rb_state b)\<lparr>polled := True\<rparr>\<rparr>"
  have f: "rb_idle ?b = idle" "rb_deadline ?b = dl" "\<forall>d. rb_idle_sleep ?b = Some d \<longrightarrow> idle_since idle d ps"
    "\<forall>d. rb_total_sleep ?b = Some d \<longrightarrow> d = dl" using inv by (simp_all add: timers_ok_def)
  show "r = Ready_err BodyTotalTimeout \<longrightarrow> dl \<le> now"
    and "r = Ready_err BodyIdleTimeout \<longrightarrow> (\<exists>d \<le> now. idle_since idle d (ps @ [(now, answers)]))"
    and "now < dl \<longrightarrow> timers_ok idle dl (ps @ [(now, answers)]) b'"
  proof (atomize (full), cases "dl \<le> now")
    case True
    then show "(r = Ready_err BodyTotalTimeout \<longrightarrow> dl \<le> now)
      \<and> (r = Ready_err BodyIdleTimeout \<longrightarrow> (\<exists>d \<le> now. idle_since idle d (ps @ [(now, answers)])))
      \<and> (now < dl \<longrightarrow> timers_ok idle dl (ps @ [(now, answers)]) b')"
      using poll f(2) by (auto simp: poll_frame_def)
  next
    case False
    then have p: "poll_inner ready now answers ?b = (r, b')" using poll f(2) by (simp add: poll_frame_def)
    show "(r = Ready_err BodyTotalTimeout \<longrightarrow> dl \<le> now)
      \<and> (r = Ready_err BodyIdleTimeout \<longrightarrow> (\<exists>d \<le> now. idle_since idle d (ps @ [(now, answers)])))
      \<and> (now < dl \<longrightarrow> timers_ok idle dl (ps @ [(now, answers)]) b')"
    proof (cases answers ready now ?b rule: poll_inner_cases)
      case pending
      then have pp: "poll_pending ready now ?b = (r, b')" using p by simp
      note g = poll_pending_fields [OF pp]
      have "idle_since idle (the (rb_idle_sleep b')) (ps @ [(now, answers)])"
        using g(6) f(1,3) idle_since_snoc idle_since_now pending(1) by (cases "rb_idle_sleep ?b") auto
      moreover have "(case rb_total_sleep ?b of Some d \<Rightarrow> d | None \<Rightarrow> rb_deadline ?b) = dl"
        using f(2,4) by (auto split: option.split)
      moreover have "\<exists>d. rb_idle_sleep b' = Some d" using g(6) by blast
      then obtain d where d: "rb_idle_sleep b' = Some d" by blast
      ultimately have i: "idle_since idle d (ps @ [(now, answers)])" by simp
      have total: "\<forall>d. rb_total_sleep b' = Some d \<longrightarrow> d = dl"
        using g(7) f(4) \<open>(case rb_total_sleep ?b of Some d \<Rightarrow> d | None \<Rightarrow> rb_deadline ?b) = dl\<close> by auto
      have "timers_ok idle dl (ps @ [(now, answers)]) b'"
        using g(1,2) f(1,2) d i total by (simp add: timers_ok_def)
      moreover have "r = Ready_err BodyIdleTimeout \<longrightarrow> d \<le> now" using g(8) d early by auto
      moreover have "r = Ready_err BodyTotalTimeout \<longrightarrow> dl \<le> now"
        using g(9) early \<open>(case rb_total_sleep ?b of Some d \<Rightarrow> d | None \<Rightarrow> rb_deadline ?b) = dl\<close> by metis
      ultimately show ?thesis using i by blast
    next
      case (data d e)
      then have "r = Ready_frame d" "b' = signal_if_done e (not_waiting now (?b\<lparr>rb_idle_sleep := None\<rparr>))"
        using p by simp_all
      then show ?thesis using f by (simp add: timers_ok_def)
    next
      case failed
      then have "r = Ready_err InnerError" "b' = not_waiting now ?b" using p by simp_all
      then show ?thesis using f idle_since_snoc failed(1) by (simp add: timers_ok_def)
    next
      case ended
      then have "r = Ready_end" "b' = send_eos (not_waiting now ?b)" using p by simp_all
      then show ?thesis using f idle_since_snoc ended(1) by (simp add: timers_ok_def)
    qed
  qed
qed

lemma poll_all_snoc:
  "snd (poll_all ready (ps @ [(now, answers)]) b) = snd (poll_frame ready now answers (snd (poll_all ready ps b)))"
  "fst (poll_all ready (ps @ [(now, answers)]) b) =
     fst (poll_all ready ps b) @ [fst (poll_frame ready now answers (snd (poll_all ready ps b)))]"
  by (simp_all add: poll_all_append Let_def case_prod_beta)

lemma poll_frame_deadline: "rb_deadline (snd (poll_frame ready now answers b)) = rb_deadline b"
proof (cases "rb_deadline b \<le> now")
  case False
  let ?b = "b\<lparr>rb_state := (rb_state b)\<lparr>polled := True\<rparr>\<rparr>"
  have "rb_deadline (snd (poll_inner ready now answers ?b)) = rb_deadline ?b"
    using poll_pending_fields(2) [OF prod.collapse [symmetric], of ready now ?b]
    by (cases answers ready now ?b rule: poll_inner_cases) simp_all
  then show ?thesis using False by (simp add: poll_frame_def)
qed (simp add: poll_frame_def)

lemma poll_all_timers:
  assumes "\<forall>d n. ready d n \<longrightarrow> d \<le> n" and "\<forall>p \<in> set ps. fst p < dl" and "timers_ok idle dl [] b"
  shows "timers_ok idle dl ps (snd (poll_all ready ps b))"
  using assms(2)
proof (induction ps rule: rev_induct)
  case (snoc p ps)
  obtain now answers where p: "p = (now, answers)" by fastforce
  have "timers_ok idle dl ps (snd (poll_all ready ps b))" "now < dl" using snoc p by auto
  then show ?case using poll_frame_timers(3) [OF _ prod.collapse [symmetric] assms(1)] unfolding p poll_all_snoc by blast
qed (use assms(3) in simp)

lemma new_timers_ok: "timers_ok idle (now + total_time) [] (request_body_new e idle total_time now)"
  by (simp add: request_body_new_def timers_ok_def)

text \<open>An upload is never cut short: \<open>poll_frame\<close> reports the idle timeout only at the end of a
  stretch of polls, at least as long as the configured idle time, in none of which the client had
  sent any data, and the total timeout only once the configured total time is over.\<close>

theorem body_timeouts_late:
  assumes "\<forall>d n. ready d n \<longrightarrow> d \<le> n" and "sorted (map fst (ps @ [(t, answers)]))"
    and "last (fst (poll_all ready (ps @ [(t, answers)]) (request_body_new e idle total_time t0))) = r"
  shows "(r = Ready_err BodyTotalTimeout \<longrightarrow> t0 + total_time \<le> t)
    \<and> (r = Ready_err BodyIdleTimeout \<longrightarrow>
        (\<exists>before start a gap. ps @ [(t, answers)] = before @ (start, a) # gap
           \<and> no_data ((start, a) # gap) \<and> start + idle \<le> t))"
proof (cases "t0 + total_time \<le> t")
  case True
  let ?b = "snd (poll_all ready ps (request_body_new e idle total_time t0))"
  have dl: "rb_deadline ?b = t0 + total_time"
    by (induction ps rule: rev_induct) (simp add: request_body_new_def, simp add: poll_all_snoc split_paired_all poll_frame_deadline)
  then have "r = Ready_err BodyTotalTimeout"
    using assms(3) True by (simp add: poll_all_snoc poll_frame_def)
  then show ?thesis using True by simp
next
  case False
  have "\<forall>p \<in> set ps. fst p < t0 + total_time" using assms(2) False by (fastforce simp: sorted_append)
  note inv = poll_all_timers [OF assms(1) this new_timers_ok]
  have r: "r = fst (poll_frame ready t answers (snd (poll_all ready ps (request_body_new e idle total_time t0))))"
    using assms(3) by (simp add: poll_all_snoc)
  note p = poll_frame_timers(1,2) [OF inv prod.collapse [symmetric] assms(1)]
  then have A: "r = Ready_err BodyTotalTimeout \<longrightarrow> t0 + total_time \<le> t"
    and B: "r = Ready_err BodyIdleTimeout \<longrightarrow> (\<exists>d \<le> t. idle_since idle d (ps @ [(t, answers)]))"
    unfolding r by blast+
  have "r = Ready_err BodyIdleTimeout \<longrightarrow>
        (\<exists>before start a gap. ps @ [(t, answers)] = before @ (start, a) # gap
           \<and> no_data ((start, a) # gap) \<and> start + idle \<le> t)"
    using B unfolding idle_since_def by fast
  with A show ?thesis by blast
qed

section \<open>The record of stalls\<close>

text \<open>The same record without the machine arithmetic: when the running stall began, and the longest
  finished one in milliseconds.\<close>

definition ms :: "duration \<Rightarrow> duration \<Rightarrow> nat" where
  "ms t0 t = as_millis (t - t0)"

fun spec_poll :: "duration \<Rightarrow> duration \<times> inner_answer list \<Rightarrow> duration option \<times> nat \<Rightarrow> duration option \<times> nat" where
  "spec_poll t0 (now, answers) (st, lg) =
     (case seen_answer answers of
        None \<Rightarrow> (Some (case st of Some x \<Rightarrow> x | None \<Rightarrow> now), lg)
      | Some _ \<Rightarrow> (None, case st of Some x \<Rightarrow> max lg (ms t0 now - ms t0 x) | None \<Rightarrow> lg))"

definition stalls :: "duration \<Rightarrow> (duration \<times> inner_answer list) list \<Rightarrow> duration option \<times> nat" where
  "stalls t0 ps = fold (spec_poll t0) ps (None, 0)"

definition stall_rel :: "duration \<Rightarrow> duration option \<times> nat \<Rightarrow> body_state \<Rightarrow> bool" where
  "stall_rel t0 sl s \<longleftrightarrow>
     origin s = t0 \<and> unat (longest_stall s) = snd sl
     \<and> stall_since s = (case fst sl of None \<Rightarrow> 0 | Some x \<Rightarrow> of_nat (ms t0 x + 1))
     \<and> (\<forall>x. fst sl = Some x \<longrightarrow> ms t0 x + 1 < 2 ^ 64)"

lemma unat_u64: "n < 2 ^ 64 \<Longrightarrow> unat (of_nat n :: u64) = n"
  by (simp add: unsigned_of_nat take_bit_nat_eq_self)

lemma of_nat_Suc_u64: "ms t0 x + 1 < 2 ^ 64 \<Longrightarrow> (of_nat (ms t0 x + 1) :: u64) \<noteq> 0"
  using unat_u64 [of "ms t0 x + 1"] by (metis add_is_0 unat_0 zero_neq_one)

lemma stall_length:
  assumes "origin s = t0" "ms t0 now + 1 < 2 ^ 64" "ms t0 x + 1 < 2 ^ 64"
  shows "unat (saturating_sub (now_ms s now + 1) (of_nat (ms t0 x + 1))) = ms t0 now - ms t0 x"
proof -
  have "now_ms s now + 1 = of_nat (ms t0 now + 1)" using assms(1) by (simp add: now_ms_def ms_def)
  then show ?thesis using assms(2,3) by (simp add: unat_saturating_sub unat_u64 del: of_nat_add of_nat_Suc)
qed

lemma start_stall_rel:
  assumes "stall_rel t0 (st, lg) s" "ms t0 now + 1 < 2 ^ 64"
  shows "stall_rel t0 (Some (case st of Some x \<Rightarrow> x | None \<Rightarrow> now), lg) (start_stall now s)"
proof (cases st)
  case None
  then show ?thesis using assms by (simp add: stall_rel_def start_stall_def Let_def now_ms_def ms_def)
next
  case (Some x)
  then have "stall_since s \<noteq> 0" using assms(1) of_nat_Suc_u64 [of t0 x] by (simp add: stall_rel_def del: of_nat_add of_nat_Suc)
  then show ?thesis using Some assms(1) by (simp add: stall_rel_def start_stall_def Let_def del: of_nat_add of_nat_Suc)
qed

lemma stall_ended_rel:
  assumes "stall_rel t0 (st, lg) s" "ms t0 now + 1 < 2 ^ 64"
  shows "stall_rel t0 (None, case st of Some x \<Rightarrow> max lg (ms t0 now - ms t0 x) | None \<Rightarrow> lg) (stall_ended now s)"
proof (cases st)
  case None
  then show ?thesis using assms(1) by (simp add: stall_rel_def stall_ended_def Let_def)
next
  case (Some x)
  have x: "ms t0 x + 1 < 2 ^ 64" "origin s = t0" "stall_since s = of_nat (ms t0 x + 1)" "unat (longest_stall s) = lg"
    using assms(1) Some by (simp_all add: stall_rel_def)
  note d = stall_length [OF x(2) assms(2) x(1)]
  have "unat (max (longest_stall s) (saturating_sub (now_ms s now + 1) (of_nat (ms t0 x + 1))))
      = max lg (ms t0 now - ms t0 x)"
    using x(4) d by (simp add: max_def word_le_nat_alt del: of_nat_add of_nat_Suc)
  then show ?thesis using Some x of_nat_Suc_u64 [OF x(1)]
    by (simp add: stall_rel_def stall_ended_def Let_def now_ms_def del: of_nat_add of_nat_Suc)
qed

lemma stall_rel_fields [simp]:
  "stall_rel t0 sl (s\<lparr>polled := p\<rparr>) = stall_rel t0 sl s"
  "stall_rel t0 sl (s\<lparr>waiting_on_client := w\<rparr>) = stall_rel t0 sl s"
  by (simp_all add: stall_rel_def)

lemma poll_frame_stalls:
  assumes "stall_rel t0 sl (rb_state b)" "now < rb_deadline b" "ms t0 now + 1 < 2 ^ 64"
  shows "stall_rel t0 (spec_poll t0 (now, answers) sl) (rb_state (snd (poll_frame ready now answers b)))"
proof -
  obtain st lg where sl: "sl = (st, lg)" by fastforce
  let ?b = "b\<lparr>rb_state := (rb_state b)\<lparr>polled := True\<rparr>\<rparr>"
  have rel: "stall_rel t0 (st, lg) (rb_state ?b)" using assms(1) sl by simp
  have "stall_rel t0 (spec_poll t0 (now, answers) sl) (rb_state (snd (poll_inner ready now answers ?b)))"
  proof (cases answers ready now ?b rule: poll_inner_cases)
    case pending
    then show ?thesis
      using start_stall_rel [OF rel assms(3)] poll_pending_fields(5) [OF prod.collapse [symmetric], of ready now ?b] sl
      by simp
  qed (use stall_ended_rel [OF rel assms(3)] sl in simp_all)
  then show ?thesis using assms(2) by (simp add: poll_frame_def)
qed

lemma poll_all_stalls:
  assumes "\<forall>p \<in> set ps. fst p < t0 + total_time \<and> ms t0 (fst p) + 1 < 2 ^ 64"
  shows "stall_rel t0 (stalls t0 ps) (rb_state (snd (poll_all ready ps (request_body_new e idle total_time t0))))
    \<and> rb_deadline (snd (poll_all ready ps (request_body_new e idle total_time t0))) = t0 + total_time"
  using assms
proof (induction ps rule: rev_induct)
  case Nil
  then show ?case by (simp add: stalls_def stall_rel_def request_body_new_def)
next
  case (snoc p ps)
  obtain now answers where p: "p = (now, answers)" by fastforce
  show ?case using snoc poll_frame_stalls [of t0 "stalls t0 ps" _ now] unfolding p poll_all_snoc
    by (simp add: stalls_def poll_frame_deadline)
qed

text \<open>The client was idle from some poll on, until now or until the poll that found something.\<close>

definition idle_run :: "(duration \<times> inner_answer list) list \<Rightarrow> bool" where
  "idle_run ps \<longleftrightarrow> list_all (\<lambda>p. seen_answer (snd p) = None) ps"

definition idle_now :: "duration \<Rightarrow> (duration \<times> inner_answer list) list \<Rightarrow> duration \<Rightarrow> nat \<Rightarrow> bool" where
  "idle_now t0 ps now n \<longleftrightarrow>
     (\<exists>before p gap. ps = before @ p # gap \<and> idle_run (p # gap) \<and> n \<le> ms t0 now - ms t0 (fst p))"

definition idle_before :: "duration \<Rightarrow> (duration \<times> inner_answer list) list \<Rightarrow> nat \<Rightarrow> bool" where
  "idle_before t0 ps n \<longleftrightarrow>
     (\<exists>before p gap q rest. ps = before @ p # gap @ q # rest \<and> idle_run (p # gap)
        \<and> seen_answer (snd q) \<noteq> None \<and> n \<le> ms t0 (fst q) - ms t0 (fst p))"

lemma idle_now_snoc:
  "idle_now t0 (ps @ [q]) now n \<longleftrightarrow>
   seen_answer (snd q) = None \<and> (idle_now t0 ps now n \<or> n \<le> ms t0 now - ms t0 (fst q))"
proof
  assume "idle_now t0 (ps @ [q]) now n"
  then obtain before p gap where h: "ps @ [q] = before @ p # gap" "idle_run (p # gap)" "n \<le> ms t0 now - ms t0 (fst p)"
    unfolding idle_now_def by blast
  show "seen_answer (snd q) = None \<and> (idle_now t0 ps now n \<or> n \<le> ms t0 now - ms t0 (fst q))"
  proof (cases gap rule: rev_cases)
    case Nil
    then show ?thesis using h by (simp add: idle_run_def)
  next
    case (snoc g r)
    then have "ps = before @ p # g" "r = q" using h(1) by (simp_all flip: append_Cons append_assoc)
    moreover have "idle_run (p # g)" "seen_answer (snd r) = None" using h(2) snoc by (simp_all add: idle_run_def)
    ultimately show ?thesis using h(3) unfolding idle_now_def by blast
  qed
next
  assume a: "seen_answer (snd q) = None \<and> (idle_now t0 ps now n \<or> n \<le> ms t0 now - ms t0 (fst q))"
  show "idle_now t0 (ps @ [q]) now n"
  proof (cases "n \<le> ms t0 now - ms t0 (fst q)")
    case True
    then show ?thesis using a unfolding idle_now_def
      by (intro exI [of _ ps] exI [of _ q] exI [of _ "[]"]) (simp add: idle_run_def)
  next
    case False
    then obtain before p gap where "ps = before @ p # gap" "idle_run (p # gap)" "n \<le> ms t0 now - ms t0 (fst p)"
      using a unfolding idle_now_def by blast
    then show ?thesis using a unfolding idle_now_def
      by (intro exI [of _ before] exI [of _ p] exI [of _ "gap @ [q]"]) (simp add: idle_run_def)
  qed
qed

lemma idle_before_snoc:
  "idle_before t0 (ps @ [q]) n \<longleftrightarrow>
   idle_before t0 ps n \<or> seen_answer (snd q) \<noteq> None \<and> idle_now t0 ps (fst q) n"
proof
  assume "idle_before t0 (ps @ [q]) n"
  then obtain before p gap r rest where h: "ps @ [q] = before @ p # gap @ r # rest" "idle_run (p # gap)"
    "seen_answer (snd r) \<noteq> None" "n \<le> ms t0 (fst r) - ms t0 (fst p)"
    unfolding idle_before_def by blast
  show "idle_before t0 ps n \<or> seen_answer (snd q) \<noteq> None \<and> idle_now t0 ps (fst q) n"
  proof (cases rest rule: rev_cases)
    case Nil
    then have "ps = before @ p # gap" "q = r" using h(1) by (simp_all flip: append_Cons append_assoc)
    then show ?thesis using h unfolding idle_now_def by blast
  next
    case (snoc rest' r')
    then have "ps = before @ p # gap @ r # rest'" using h(1) by (simp flip: append_Cons append_assoc)
    then show ?thesis using h unfolding idle_before_def by blast
  qed
next
  assume "idle_before t0 ps n \<or> seen_answer (snd q) \<noteq> None \<and> idle_now t0 ps (fst q) n"
  then show "idle_before t0 (ps @ [q]) n"
  proof
    assume "idle_before t0 ps n"
    then obtain before p gap r rest where "ps = before @ p # gap @ r # rest" "idle_run (p # gap)"
      "seen_answer (snd r) \<noteq> None" "n \<le> ms t0 (fst r) - ms t0 (fst p)" unfolding idle_before_def by blast
    then show ?thesis unfolding idle_before_def
      by (intro exI [of _ before] exI [of _ p] exI [of _ gap] exI [of _ r] exI [of _ "rest @ [q]"]) simp
  next
    assume "seen_answer (snd q) \<noteq> None \<and> idle_now t0 ps (fst q) n"
    then obtain before p gap where "seen_answer (snd q) \<noteq> None" "ps = before @ p # gap" "idle_run (p # gap)"
      "n \<le> ms t0 (fst q) - ms t0 (fst p)" unfolding idle_now_def by blast
    then show ?thesis unfolding idle_before_def
      by (intro exI [of _ before] exI [of _ p] exI [of _ gap] exI [of _ q] exI [of _ "[]"]) simp
  qed
qed

lemma ms_mono: "a \<le> b \<Longrightarrow> ms t0 a \<le> ms t0 b"
  by (simp add: ms_def as_millis_def div_le_mono diff_le_mono)

lemma stalls_snoc: "stalls t0 (ps @ [p]) = spec_poll t0 p (stalls t0 ps)"
  by (simp add: stalls_def)

lemma stalls_start: "fst (stalls t0 ps) = Some x \<Longrightarrow> \<exists>p \<in> set ps. x = fst p"
proof (induction ps rule: rev_induct)
  case (snoc p ps)
  obtain st lg now answers where s: "stalls t0 ps = (st, lg)" "p = (now, answers)" by fastforce
  then show ?case using snoc by (cases "seen_answer answers"; cases st) (auto simp: stalls_snoc)
qed (simp add: stalls_def)

lemma stalls_now:
  "sorted (map fst ps) \<Longrightarrow> idle_now t0 ps now n \<longleftrightarrow> (\<exists>x. fst (stalls t0 ps) = Some x \<and> n \<le> ms t0 now - ms t0 x)"
proof (induction ps rule: rev_induct)
  case Nil
  then show ?case by (simp add: idle_now_def stalls_def)
next
  case (snoc p ps)
  obtain st lg t answers where s: "stalls t0 ps = (st, lg)" "p = (t, answers)" by fastforce
  have le: "ms t0 x \<le> ms t0 t" if "st = Some x" for x
    using stalls_start [of t0 ps x] that s snoc.prems by (auto simp: sorted_append intro: ms_mono)
  have "sorted (map fst ps)" using snoc.prems by (simp add: sorted_append)
  note IH = snoc.IH [OF this]
  show ?case
  proof (cases "seen_answer answers")
    case None
    then show ?thesis using IH le s by (cases st) (auto simp: stalls_snoc idle_now_snoc)
  next
    case (Some a)
    then show ?thesis using s by (simp add: stalls_snoc idle_now_snoc)
  qed
qed

lemma stalls_before:
  "0 < n \<Longrightarrow> sorted (map fst ps) \<Longrightarrow> idle_before t0 ps n \<longleftrightarrow> n \<le> snd (stalls t0 ps)"
proof (induction ps rule: rev_induct)
  case Nil
  then show ?case by (simp add: idle_before_def stalls_def)
next
  case (snoc p ps)
  obtain st lg t answers where s: "stalls t0 ps = (st, lg)" "p = (t, answers)" by fastforce
  have so: "sorted (map fst ps)" using snoc.prems by (simp add: sorted_append)
  note IH = snoc.IH [OF snoc.prems(1) so]
  show ?case using IH s stalls_now [OF so, of t0 t n]
    by (cases "seen_answer answers"; cases st) (auto simp: stalls_snoc idle_before_snoc)
qed

text \<open>C11. \<open>client_stalled\<close> answers the question its comment asks, did the client leave its upload idle for
  at least \<open>theta\<close> at any point, now included, whatever the polls were: the atomic cell that holds the
  start of the stall plus one, with zero for none, and the saturating arithmetic on it lose nothing
  while the clock fits in 64 bits of milliseconds.\<close>

theorem client_stalled_exact:
  assumes "sorted (map fst ps)" and "\<forall>p \<in> set ps. fst p < t0 + total_time \<and> ms t0 (fst p) + 1 < 2 ^ 64"
    and "ms t0 now + 1 < 2 ^ 64" and "0 < as_millis theta" and "as_millis theta < 2 ^ 64"
  shows "client_stalled theta now (rb_state (snd (poll_all ready ps (request_body_new e idle total_time t0))))
    \<longleftrightarrow> idle_now t0 ps now (as_millis theta) \<or> idle_before t0 ps (as_millis theta)"
proof -
  let ?s = "rb_state (snd (poll_all ready ps (request_body_new e idle total_time t0)))"
  obtain st lg where sl: "stalls t0 ps = (st, lg)" by fastforce
  have rel: "stall_rel t0 (st, lg) ?s" using poll_all_stalls [OF assms(2)] sl by simp
  have long: "of_nat (as_millis theta) \<le> longest_stall ?s \<longleftrightarrow> as_millis theta \<le> lg"
    using rel assms(5) by (simp add: word_le_nat_alt unat_u64 stall_rel_def)
  have cur: "stall_since ?s \<noteq> 0 \<and> of_nat (as_millis theta) \<le> saturating_sub (now_ms ?s now + 1) (stall_since ?s)
    \<longleftrightarrow> (\<exists>x. st = Some x \<and> as_millis theta \<le> ms t0 now - ms t0 x)"
  proof (cases st)
    case None
    then show ?thesis using rel by (simp add: stall_rel_def)
  next
    case (Some x)
    then have x: "ms t0 x + 1 < 2 ^ 64" "origin ?s = t0" "stall_since ?s = of_nat (ms t0 x + 1)"
      using rel by (simp_all add: stall_rel_def)
    show ?thesis using Some x(3) of_nat_Suc_u64 [OF x(1)] stall_length [OF x(2) assms(3) x(1)] assms(5)
      by (simp add: word_le_nat_alt unat_u64 del: of_nat_add of_nat_Suc)
  qed
  show ?thesis using long cur stalls_now [OF assms(1)] stalls_before [OF assms(4,1)] sl
    by (auto simp: client_stalled_def Let_def)
qed

theorem client_stalled_exact_witness:
  "client_stalled 2000000 9000000
     (rb_state (snd (poll_all (\<lambda>d n. d \<le> n) [(1000000, [Data ''a'' False]), (2000000, []), (5000000, [Data ''b'' True])]
       (request_body_new False 100000000 100000000 0))))
   \<and> (idle_now 0 [(1000000, [Data ''a'' False]), (2000000, []), (5000000, [Data ''b'' True])] 9000000 2
      \<or> idle_before 0 [(1000000, [Data ''a'' False]), (2000000, []), (5000000, [Data ''b'' True])] 2)"
proof -
  let ?ps = "[(1000000, [Data ''a'' False]), (2000000, []), (5000000, [Data ''b'' True])] :: (duration \<times> inner_answer list) list"
  have c: "client_stalled 2000000 9000000
     (rb_state (snd (poll_all (\<lambda>d n. d \<le> n) ?ps (request_body_new False 100000000 100000000 0))))" by code_simp
  have m: "as_millis 2000000 = 2" by (simp add: as_millis_def)
  show ?thesis
    using c client_stalled_exact [of ?ps 0 100000000 9000000 2000000 "\<lambda>d n. d \<le> n" False 100000000]
    by (simp add: ms_def as_millis_def)
qed

section \<open>What is passed on\<close>

fun frame_of :: "poll \<Rightarrow> string option" where
  "frame_of (Ready_frame d) = Some d"
| "frame_of _ = None"

definition data_of :: "inner_answer list \<Rightarrow> string option" where
  "data_of answers = (case seen_answer answers of Some (Data d _) \<Rightarrow> Some d | _ \<Rightarrow> None)"

definition completes :: "inner_answer list \<Rightarrow> bool" where
  "completes answers \<longleftrightarrow> (seen_answer answers = Some Ended \<or> (\<exists>d. seen_answer answers = Some (Data d True)))"

lemma poll_frame_passes:
  assumes "now < rb_deadline b" and "rb_eos b = (\<not> rb_signalled b)"
  shows "frame_of (fst (poll_frame ready now answers b)) = data_of answers
    \<and> rb_signalled (snd (poll_frame ready now answers b)) = (rb_signalled b \<or> completes answers)
    \<and> rb_eos (snd (poll_frame ready now answers b)) = (\<not> rb_signalled (snd (poll_frame ready now answers b)))"
proof -
  let ?b = "b\<lparr>rb_state := (rb_state b)\<lparr>polled := True\<rparr>\<rparr>"
  have "poll_frame ready now answers b = poll_inner ready now answers ?b" using assms(1) by (simp add: poll_frame_def)
  moreover have "frame_of (fst (poll_pending ready now ?b)) = None"
    using poll_pending_fields(10) [OF prod.collapse [symmetric], of ready now ?b] by auto
  ultimately show ?thesis using assms(2) poll_pending_fields(3,4) [OF prod.collapse [symmetric], of ready now ?b]
    by (cases answers ready now ?b rule: poll_inner_cases) (auto simp: data_of_def completes_def)
qed

text \<open>C33. The body passes on exactly the client's data frames, in order, and no trailer; and the end of
  the body is signalled, once, exactly when the whole of it has been handed over: when the body was
  empty from the start, a frame was its last, or the stream ended.\<close>

theorem body_passes_data:
  assumes "\<forall>p \<in> set ps. fst p < t0 + total_time"
  shows "let (rs, b) = poll_all ready ps (request_body_new e idle total_time t0) in
    List.map_filter frame_of rs = List.map_filter (data_of \<circ> snd) ps
    \<and> (rb_signalled b \<longleftrightarrow> e \<or> list_ex (completes \<circ> snd) ps) \<and> (rb_eos b \<longleftrightarrow> \<not> rb_signalled b)"
  using assms
proof (induction ps rule: rev_induct)
  case Nil
  then show ?case by (simp add: request_body_new_def signal_if_done_def send_eos_def)
next
  case (snoc p ps)
  obtain now answers where p: "p = (now, answers)" by fastforce
  let ?b = "snd (poll_all ready ps (request_body_new e idle total_time t0))"
  have dl: "rb_deadline (snd (poll_all ready qs (request_body_new e idle total_time t0))) = t0 + total_time" for qs
    by (induction qs rule: rev_induct) (simp add: request_body_new_def, simp add: poll_all_snoc split_paired_all poll_frame_deadline)
  have IH: "rb_eos ?b = (\<not> rb_signalled ?b)" "now < rb_deadline ?b"
    using snoc p dl [of ps] by (auto simp: case_prod_beta Let_def)
  show ?case using snoc poll_frame_passes [OF IH(2,1), of ready answers]
    by (auto simp: p poll_all_snoc case_prod_beta Let_def List.map_filter_def)
qed

theorem body_passes_data_witness:
  "let (rs, b) = poll_all (\<lambda>d n. d \<le> n) [(1, [Data ''a'' False]), (2, []), (3, [Trailers, Ended])] (request_body_new False 15 100 0) in
   rs = [Ready_frame ''a'', Pending, Ready_end] \<and> List.map_filter frame_of rs = [''a''] \<and> rb_signalled b"
proof -
  let ?ps = "[(1, [Data ''a'' False]), (2, []), (3, [Trailers, Ended])] :: (duration \<times> inner_answer list) list"
  have f: "fst (poll_all (\<lambda>d n. d \<le> n) ?ps (request_body_new False 15 100 0)) = [Ready_frame ''a'', Pending, Ready_end]"
    by code_simp
  have d: "List.map_filter (data_of \<circ> snd) ?ps = [''a'']" "list_ex (completes \<circ> snd) ?ps"
    by (simp_all add: List.map_filter_def data_of_def seen_answer_def completes_def)
  show ?thesis using body_passes_data [of ?ps 0 100 "\<lambda>d n. d \<le> n" False 15] f d
    by (simp add: case_prod_beta)
qed

section \<open>When the upstream is blamed for a slow upload\<close>

datatype happening = Polled duration "inner_answer list" | Fired timer_event

fun happen ::
    "(duration \<Rightarrow> duration \<Rightarrow> bool) \<Rightarrow> happening \<Rightarrow> timer \<times> request_body \<Rightarrow> timer \<times> request_body" where
  "happen ready (Polled now answers) (t, b) = (t, snd (poll_frame ready now answers b))"
| "happen ready (Fired ev) (t, b) =
     (let (t', s) = timer_step t ev (rb_state b) in (t', b\<lparr>rb_state := s\<rparr>))"

definition accepted_polls :: "duration \<Rightarrow> happening list \<Rightarrow> inner_answer list list" where
  "accepted_polls dl hs =
     List.map_filter (\<lambda>h. case h of Polled now a \<Rightarrow> if now < dl then Some a else None | Fired _ \<Rightarrow> None) hs"

definition no_poll_in_window :: "happening list \<Rightarrow> bool" where
  "no_poll_in_window hs \<longleftrightarrow>
     (\<exists>before window. hs = before @ window \<and> (before = [] \<or> last before = Fired Window)
        \<and> (\<forall>h \<in> set window. \<exists>ev. h = Fired ev))"

lemma timer_step_Await: "fst (timer_step t ev s) = Await_body \<Longrightarrow> t = Await_body"
  by (cases t; cases ev) auto

lemma poll_frame_flags:
  "polled (rb_state (snd (poll_frame ready now answers b)))"
  "waiting_on_client (rb_state (snd (poll_frame ready now answers b))) =
     (if rb_deadline b \<le> now then waiting_on_client (rb_state b) else seen_answer answers = None)"
proof -
  let ?b = "b\<lparr>rb_state := (rb_state b)\<lparr>polled := True\<rparr>\<rparr>"
  have st: "polled (stall_ended now s) = polled s" "polled (start_stall now s) = polled s"
    "waiting_on_client (start_stall now s)" for s
    by (simp_all add: stall_ended_def start_stall_def Let_def)
  have "polled (rb_state (snd (poll_inner ready now answers ?b)))
    \<and> waiting_on_client (rb_state (snd (poll_inner ready now answers ?b))) = (seen_answer answers = None)"
    using poll_pending_fields(5) [OF prod.collapse [symmetric], of ready now ?b]
    by (cases answers ready now ?b rule: poll_inner_cases) (simp_all add: st)
  then show "polled (rb_state (snd (poll_frame ready now answers b)))"
    "waiting_on_client (rb_state (snd (poll_frame ready now answers b))) =
     (if rb_deadline b \<le> now then waiting_on_client (rb_state b) else seen_answer answers = None)"
    by (simp_all add: poll_frame_def Let_def)
qed

lemma timer_step_state: "snd (timer_step t ev s) = s \<or> snd (timer_step t ev s) = s\<lparr>polled := False\<rparr> \<and> ev = Window"
  by (cases t; cases ev) auto

lemma no_poll_Fired:
  assumes "ev = Window \<or> no_poll_in_window hs"
  shows "no_poll_in_window (hs @ [Fired ev])"
proof (cases "ev = Window")
  case True
  then show ?thesis unfolding no_poll_in_window_def
    by (intro exI [of _ "hs @ [Fired Window]"] exI [of _ "[]"]) simp
next
  case False
  then have "no_poll_in_window hs" using assms by simp
  then obtain before window where "hs = before @ window" "before = [] \<or> last before = Fired Window"
    "\<forall>h \<in> set window. \<exists>ev. h = Fired ev" unfolding no_poll_in_window_def by (elim exE conjE)
  then show ?thesis unfolding no_poll_in_window_def
    by (intro exI [of _ before] exI [of _ "window @ [Fired ev]"]) auto
qed

lemma happen_inv:
  assumes "fold (happen ready) hs (Await_body, b0) = (t, b)" and "t = Await_body"
    and "\<not> polled (rb_state b0)" "\<not> waiting_on_client (rb_state b0)"
  shows "rb_deadline b = rb_deadline b0 \<and> (\<not> polled (rb_state b) \<longrightarrow> no_poll_in_window hs)
    \<and> (waiting_on_client (rb_state b) \<longleftrightarrow>
        (let as = accepted_polls (rb_deadline b0) hs in as \<noteq> [] \<and> seen_answer (last as) = None))"
  using assms(1,2)
proof (induction hs arbitrary: t b rule: rev_induct)
  case Nil
  then show ?case using assms(3,4) by (auto simp: no_poll_in_window_def accepted_polls_def List.map_filter_def)
next
  case (snoc h hs)
  obtain t1 b1 where f: "fold (happen ready) hs (Await_body, b0) = (t1, b1)" by fastforce
  have step: "happen ready h (t1, b1) = (t, b)" using snoc.prems(1) f by simp
  show ?case
  proof (cases h)
    case (Polled now answers)
    then have b: "b = snd (poll_frame ready now answers b1)" "t1 = Await_body" using step snoc.prems(2) by simp_all
    note IH = snoc.IH [OF f b(2)]
    show ?thesis using IH poll_frame_flags [of ready now answers b1] b(1) Polled
      by (auto simp: poll_frame_deadline accepted_polls_def List.map_filter_def Let_def)
  next
    case (Fired ev)
    have b: "t = fst (timer_step t1 ev (rb_state b1))" "b = b1\<lparr>rb_state := snd (timer_step t1 ev (rb_state b1))\<rparr>"
      using step Fired by (auto simp: Let_def case_prod_beta)
    then have t1: "t1 = Await_body" using snoc.prems(2) timer_step_Await by metis
    note IH = snoc.IH [OF f t1]
    have acc: "accepted_polls (rb_deadline b0) (hs @ [h]) = accepted_polls (rb_deadline b0) hs"
      by (simp add: Fired accepted_polls_def List.map_filter_def)
    have win: "no_poll_in_window (hs @ [h])" if "ev = Window \<or> no_poll_in_window hs"
      unfolding Fired using that no_poll_Fired by blast
    have "rb_deadline b = rb_deadline b1" using b(2) by simp
    moreover have "waiting_on_client (rb_state b) = waiting_on_client (rb_state b1)"
      using b(2) timer_step_state [of t1 ev "rb_state b1"] by auto
    moreover have "\<not> polled (rb_state b1) \<or> ev = Window" if "\<not> polled (rb_state b)"
      using that b(2) timer_step_state [of t1 ev "rb_state b1"] by auto
    ultimately show ?thesis using IH win unfolding acc Let_def by simp blast
  qed
qed

text \<open>While the upload is still going on, the proxy blames the upstream only for what the upstream
  does: the timer runs out only at the end of a whole window of \<open>upstream_timeout\<close> in which hyper did
  not once ask for more of the body, and the last time it did ask, the client had something to send
  or had finished. A client that is merely slow is left to its own timeouts.\<close>

theorem upstream_blamed_fairly:
  assumes "fold (happen ready) hs (timer_new True, request_body_new e idle total_time t0) = (Await_body, b)"
    and "happen ready (Fired Window) (Await_body, b) = (Expired, b')"
  shows "no_poll_in_window hs
    \<and> (let as = accepted_polls (t0 + total_time) hs in as \<noteq> [] \<longrightarrow> seen_answer (last as) \<noteq> None)"
proof -
  let ?b0 = "request_body_new e idle total_time t0"
  have b0: "\<not> polled (rb_state ?b0)" "\<not> waiting_on_client (rb_state ?b0)" "rb_deadline ?b0 = t0 + total_time"
    by (simp_all add: request_body_new_def)
  have "fold (happen ready) hs (Await_body, ?b0) = (Await_body, b)" using assms(1) by (simp add: timer_new_def)
  note inv = happen_inv [OF this refl b0(1,2), unfolded b0(3)]
  have "\<not> polled (rb_state b) \<and> \<not> waiting_on_client (rb_state b)"
    using assms(2) by (auto simp: Let_def split: if_splits)
  then show ?thesis using inv by (auto simp: Let_def)
qed

theorem upstream_blamed_fairly_witness:
  "let hs = [Polled 1 [Data ''a'' False], Polled 2 [Data ''b'' False], Fired Window] in
   \<exists>b b'. fold (happen (\<lambda>d n. d \<le> n)) hs (timer_new True, request_body_new False 15 100 0) = (Await_body, b)
     \<and> happen (\<lambda>d n. d \<le> n) (Fired Window) (Await_body, b) = (Expired, b')
     \<and> no_poll_in_window hs"
proof -
  let ?hs = "[Polled 1 [Data ''a'' False], Polled 2 [Data ''b'' False], Fired Window]"
  let ?f = "fold (happen (\<lambda>d n. d \<le> n)) ?hs (timer_new True, request_body_new False 15 100 0)"
  have "fst ?f = Await_body" "fst (happen (\<lambda>d n. d \<le> n) (Fired Window) ?f) = Expired" by code_simp+
  then obtain b b' where b: "?f = (Await_body, b)" "happen (\<lambda>d n. d \<le> n) (Fired Window) (Await_body, b) = (Expired, b')"
    by (metis prod.collapse)
  then show ?thesis using upstream_blamed_fairly [OF b] unfolding Let_def by blast
qed

end
