(* ===== verification/Proxy.thy ===== *)
theory Proxy
  imports Ambiguous Header_Laws Request_Body
begin

text \<open>
  The request handler of \<open>crates/server/src/proxy.rs\<close>: \<open>handle_core\<close>, \<open>handle_inner\<close>, and the two public
  handlers \<open>handle_streaming\<close> and \<open>handle\<close>.

  \<open>handle_core\<close> awaits once, on the race of \<open>client.request\<close> against its timer. The code before that
  point is \<open>handle_begin\<close>, which answers at once or yields the request to forward; the code after it is
  \<open>handle_finish\<close>. What happens in between is an argument \<open>world\<close>: the polls of the body and the timer
  events in their order, the client's result if it came first, the time, and the state the handler
  finds when it resumes, since other requests run meanwhile. The parsers of \<open>http::Uri\<close> are the
  fields of \<open>uri_ops\<close>.
\<close>

section \<open>Requests, responses and what the handler leaves behind\<close>

record uri_ops =
  parse_pq :: "string \<Rightarrow> (string \<times> string option) option"
  from_parts :: "uri \<Rightarrow> (string, uri) result"

definition uri_path :: "uri \<Rightarrow> string" where
  "uri_path u = (case uri_path_and_query u of Some (p, _) \<Rightarrow> p | None \<Rightarrow> [])"

definition uri_query :: "uri \<Rightarrow> string option" where
  "uri_query u = (case uri_path_and_query u of Some (_, q) \<Rightarrow> q | None \<Rightarrow> None)"

record 'h request =
  rq_method :: string
  rq_uri :: uri
  rq_version :: http_version
  rq_headers :: 'h
  rq_end_stream :: bool

datatype 'b resp_body = Full string | Streamed 'b

record ('h, 'b) response =
  rs_status :: nat
  rs_headers :: 'h
  rs_body :: "'b resp_body"

definition error_response :: "'h header_ops \<Rightarrow> nat \<Rightarrow> string \<Rightarrow> ('h, 'b) response" where
  "error_response H status body = \<lparr>rs_status = status, rs_headers = hm_empty H, rs_body = Full body\<rparr>"

record access_info =
  ai_method :: string
  ai_host :: string
  ai_path :: string
  ai_version :: http_version
  ai_peer :: ip_addr
  ai_proto :: string
  ai_request_id :: "string option"

text \<open>One call of \<open>record_len\<close>: the access log line, if the log is on, and the labels of the metrics.\<close>

record request_record =
  rr_access :: "access_info option"
  rr_route :: string
  rr_upstream :: string
  rr_status :: nat
  rr_bytes_out :: "int option"

datatype log_note = PrivatePeerWarning | UploadTimedOut | UploadFailed | UpstreamFailed string

record proxy_state =
  px_store :: store
  px_records :: "request_record list"
  px_warned :: bool
  px_notes :: "log_note list"

definition record_len ::
    "access_info option \<Rightarrow> string \<Rightarrow> string \<Rightarrow> nat \<Rightarrow> int option \<Rightarrow> proxy_state \<Rightarrow> proxy_state" where
  "record_len cx rt up status bytes_out s =
     s\<lparr>px_records := px_records s @
        [\<lparr>rr_access = cx, rr_route = rt, rr_upstream = up, rr_status = status, rr_bytes_out = bytes_out\<rparr>]\<rparr>"

definition record_req :: "access_info option \<Rightarrow> string \<Rightarrow> string \<Rightarrow> nat \<Rightarrow> proxy_state \<Rightarrow> proxy_state" where
  "record_req cx rt up status s = record_len cx rt up status None s"

definition take_note :: "log_note \<Rightarrow> proxy_state \<Rightarrow> proxy_state" where
  "take_note n s = s\<lparr>px_notes := px_notes s @ [n]\<rparr>"

definition warn_private_peer_once :: "proxy_state \<Rightarrow> proxy_state" where
  "warn_private_peer_once s =
     (if px_warned s then s else take_note PrivatePeerWarning (s\<lparr>px_warned := True\<rparr>))"

definition on_store :: "(store \<Rightarrow> store) \<Rightarrow> proxy_state \<Rightarrow> proxy_state" where
  "on_store f s = s\<lparr>px_store := f (px_store s)\<rparr>"

section \<open>Errors of the client\<close>

text \<open>The errors that \<open>source\<close> yields, starting from the client's error, in order.\<close>

datatype err_link = Body_idle | Body_total | Hyper bool | Other_error

fun is_body_idle_timeout :: "err_link list \<Rightarrow> bool" where
  "is_body_idle_timeout [] = False"
| "is_body_idle_timeout (e # src) = (if e = Body_idle \<or> e = Body_total then True else is_body_idle_timeout src)"

fun is_client_body_error :: "err_link list \<Rightarrow> bool" where
  "is_client_body_error [] = False"
| "is_client_body_error (e # src) = (if e = Hyper True then True else is_client_body_error src)"

section \<open>Up to the forwarded request\<close>

definition answers_locally :: "route_table \<Rightarrow> 'h request \<Rightarrow> bool" where
  "answers_locally t rq \<longleftrightarrow>
     local_health_path t = Some (uri_path (rq_uri rq)) \<and> (rq_method rq = ''GET'' \<or> rq_method rq = ''HEAD'')"

definition wants_upgrade :: "'h header_ops \<Rightarrow> 'h request \<Rightarrow> bool" where
  "wants_upgrade H rq =
     (case hm_get H (rq_headers rq) ''upgrade'' of
        Some v \<Rightarrow> map to_ascii_lowercase v \<noteq> ''h2c''
      | None \<Rightarrow> False)"

definition client_host :: "'h header_ops \<Rightarrow> route_table \<Rightarrow> uri \<Rightarrow> 'h \<Rightarrow> string option" where
  "client_host H t u h =
     (if \<not> forwarded_header t then None
      else
        (let host = (case uri_authority u of
                       Some a \<Rightarrow> last (split_on CHR ''@'' a)
                     | None \<Rightarrow>
                         (case hm_get H h ''host'' of
                            Some v \<Rightarrow> if hv_to_str H v then v else []
                          | None \<Rightarrow> [])) in
         if host = [] then None else Some host))"

definition host_port :: "uri \<Rightarrow> string" where
  "host_port u =
     (case uri_host u of Some h \<Rightarrow> h | None \<Rightarrow> []) @
     (case uri_port u of Some p \<Rightarrow> '':'' @ show_int (uint p) | None \<Rightarrow> [])"

definition set_host :: "'h header_ops \<Rightarrow> uri \<Rightarrow> 'h \<Rightarrow> 'h" where
  "set_host H u h = (case uri_authority u of Some _ \<Rightarrow> try_insert H ''host'' (host_port u) h | None \<Rightarrow> h)"

text \<open>The strip of a route that asks for it: the path to forward and the prefix removed. \<open>Inl\<close> when
  the route asks for it and the path cannot be stripped.\<close>

definition strip_of :: "route \<Rightarrow> string \<Rightarrow> (unit, (string \<times> string) option) result" where
  "strip_of r path =
     (if r_strip_prefix r
      then (case stripped_path r path of
              Some p \<Rightarrow> Inr (Some (p, stripped_prefix r))
            | None \<Rightarrow> Inl ())
      else Inr None)"

text \<open>The rebuilt URI, or the status and text of the answer when it cannot be built.\<close>

definition bad_path_text :: string where
  "bad_path_text = ''bad path'' @ [CHR 0x0A]"

definition bad_host_text :: string where
  "bad_host_text = ''bad host'' @ [CHR 0x0A]"

definition upstream_target ::
    "uri_ops \<Rightarrow> upstream \<Rightarrow> uri \<Rightarrow> (string \<times> string) option \<Rightarrow> (nat \<times> string, uri) result" where
  "upstream_target U up u strip =
     (let pq = (case strip of
                  Some (path, _) \<Rightarrow>
                    (case parse_pq U (case uri_query u of Some q \<Rightarrow> path @ ''?'' @ q | None \<Rightarrow> path) of
                       Some pq \<Rightarrow> Inr (Some pq)
                     | None \<Rightarrow> Inl (400, bad_path_text))
                | None \<Rightarrow> Inr (uri_path_and_query u)) in
      case pq of
        Inl e \<Rightarrow> Inl e
      | Inr pq \<Rightarrow>
          (case from_parts U ((u_uri up)\<lparr>uri_path_and_query := pq\<rparr>) of
             Inr u' \<Rightarrow> Inr u'
           | Inl e \<Rightarrow> Inl (502, ''rebuilding upstream URI: '' @ e)))"

text \<open>The headers before the URI is rebuilt, and after.\<close>

definition hop_headers :: "'h header_ops \<Rightarrow> 'h request \<Rightarrow> 'h" where
  "hop_headers H rq =
     (let h = strip_hop_by_hop H (rq_headers rq) in
      if rq_version rq = HTTP_2 then join_cookies H h else h)"

definition forward_headers ::
    "'h header_ops \<Rightarrow> route_table \<Rightarrow> route \<Rightarrow> ip_addr \<Rightarrow> string \<Rightarrow> 'h request \<Rightarrow> (string \<times> string) option \<Rightarrow> 'h" where
  "forward_headers H t r peer proto rq strip =
     (let h1 = hop_headers H rq;
          ch = client_host H t (rq_uri rq) h1;
          h2 = set_host H (if r_rewrite_host r then u_uri (r_upstream r) else rq_uri rq) h1;
          h3 = apply_forwarded_headers H peer proto ch
                 \<lparr>f_trusted = t_trusted_proxies t, f_forwarded_header = forwarded_header t, f_xff = t_xff_mode t\<rparr> h2 in
      case strip of
        Some (_, p) \<Rightarrow> if p \<noteq> [] then set_forwarded_prefix H p h3 else h3
      | None \<Rightarrow> h3)"

record 'h forward =
  fw_request :: "'h request"
  fw_upstream :: upstream
  fw_admission :: admission
  fw_route :: string
  fw_counts_timeout :: bool
  fw_body :: "request_body option"

datatype ('h, 'b) decision = Answer "('h, 'b) response" | Forward "'h forward"

text \<open>\<open>record(..); return Ok(error_response(..))\<close>\<close>

definition refuse ::
    "'h header_ops \<Rightarrow> access_info option \<Rightarrow> string \<Rightarrow> string \<Rightarrow> nat \<Rightarrow> string \<Rightarrow> proxy_state
     \<Rightarrow> ('h, 'b) response \<times> proxy_state" where
  "refuse H cx rt up status body s = (error_response H status body, record_req cx rt up status s)"

definition wrap :: "bool \<Rightarrow> route_table \<Rightarrow> 'h request \<Rightarrow> duration \<Rightarrow> request_body option" where
  "wrap streaming t rq now =
     (if streaming
      then Some (request_body_new (rq_end_stream rq) (request_body_idle_timeout t) (request_body_timeout t) now)
      else None)"

text \<open>From the admission on: the rebuilt request, or a refusal that hands the admission back.\<close>

definition admitted ::
    "'h header_ops \<Rightarrow> uri_ops \<Rightarrow> bool \<Rightarrow> route_table \<Rightarrow> ip_addr \<Rightarrow> string \<Rightarrow> 'h request \<Rightarrow> access_info option
     \<Rightarrow> duration \<Rightarrow> route \<Rightarrow> (string \<times> string) option \<Rightarrow> admission \<Rightarrow> proxy_state
     \<Rightarrow> ('h, 'b) decision \<times> proxy_state" where
  "admitted H U streaming t peer proto rq cx now r strip adm s =
     (let up = r_upstream r; body = wrap streaming t rq now in
      case upstream_target U up (rq_uri rq) strip of
        Inl (status, text) \<Rightarrow>
          map_prod Answer id
            (refuse H cx (r_prefix r) (u_name up) status text (on_store (upstream_release adm up) s))
      | Inr u \<Rightarrow>
          (let s1 = (if is_empty (t_trusted_proxies t) \<and> is_private_peer peer
                     then warn_private_peer_once s else s) in
           (Forward
              \<lparr>fw_request = rq\<lparr>rq_uri := u, rq_version := HTTP_11,
                               rq_headers := forward_headers H t r peer proto rq strip\<rparr>,
               fw_upstream = up, fw_admission = adm, fw_route = r_prefix r,
               fw_counts_timeout = (rq_end_stream rq \<or> body \<noteq> None), fw_body = body\<rparr>,
            s1)))"

definition handle_begin ::
    "'h header_ops \<Rightarrow> uri_ops \<Rightarrow> bool \<Rightarrow> route_table \<Rightarrow> ip_addr \<Rightarrow> string \<Rightarrow> 'h request \<Rightarrow> access_info option
     \<Rightarrow> duration \<Rightarrow> proxy_state \<Rightarrow> ('h, 'b) decision \<times> proxy_state" where
  "handle_begin H U streaming t peer proto rq cx now s =
     (let path = uri_path (rq_uri rq);
          answer = (\<lambda>rt up status body. map_prod Answer id (refuse H cx rt up status body s)) in
      if answers_locally t rq
      then answer ''local_health'' ''none'' 200 (if rq_method rq = ''HEAD'' then [] else ''ok'')
      else if bad_path_normalized path \<or> ambiguous_route t path then answer ''none'' ''none'' 400 bad_path_text
      else if bad_host H (rq_headers rq) (rq_uri rq) (rq_version rq)
      then answer ''none'' ''none'' 400 bad_host_text
      else
        case lookup t path of
          None \<Rightarrow> answer ''none'' ''none'' 404 ''no route''
        | Some r \<Rightarrow>
            (case strip_of r path of
               Inl _ \<Rightarrow> answer ''none'' ''none'' 400 bad_path_text
             | Inr strip \<Rightarrow>
                 (let up = r_upstream r in
                  if wants_upgrade H rq \<or> rq_method rq = ''CONNECT''
                  then answer (r_prefix r) (u_name up) 501 ''protocol upgrades are not supported''
                  else
                    case upstream_try_acquire up (px_store s) of
                      (None, st) \<Rightarrow>
                        map_prod Answer id
                          (refuse H cx (r_prefix r) (u_name up) 503 ''upstream unavailable'' (s\<lparr>px_store := st\<rparr>))
                    | (Some adm, st) \<Rightarrow>
                        admitted H U streaming t peer proto rq cx now r strip adm (s\<lparr>px_store := st\<rparr>))))"

section \<open>The race of the client against the timer\<close>

datatype ('h, 'b) client_result = Client_error "err_link list" | Client_response "('h, 'b) response"

text \<open>\<open>Legacy\<close> has one sleep; otherwise the timer watches the body.\<close>

definition await ::
    "(duration \<Rightarrow> duration \<Rightarrow> bool) \<Rightarrow> happening list \<Rightarrow> request_body option \<Rightarrow> timer \<times> body_state option" where
  "await ready hs body =
     (case body of
        Some b \<Rightarrow> map_prod id (\<lambda>b. Some (rb_state b)) (fold (happen ready) hs (timer_new True, b))
      | None \<Rightarrow> (if Fired Window \<in> set hs then Expired else timer_new False, None))"

text \<open>\<open>tokio::select!\<close>: the client's result, or \<open>None\<close> for the timer, once one of them is there.\<close>

definition select :: "'r option \<Rightarrow> timer \<Rightarrow> 'r option option" where
  "select reply tm =
     (case reply of Some r \<Rightarrow> Some (Some r) | None \<Rightarrow> if tm = Expired then Some None else None)"

definition theta :: "route_table \<Rightarrow> duration" where
  "theta t = min (request_body_idle_timeout t div 2) (from_secs 1)"

definition stalled :: "route_table \<Rightarrow> duration \<Rightarrow> body_state option \<Rightarrow> bool" where
  "stalled t now st = (case st of Some s \<Rightarrow> client_stalled (theta t) now s | None \<Rightarrow> False)"

section \<open>After the race\<close>

definition content_length :: "'h header_ops \<Rightarrow> 'h \<Rightarrow> int option" where
  "content_length H h =
     (case hm_get H h ''content-length'' of
        Some v \<Rightarrow> if hv_to_str H v then parse_uint (2 ^ 64 - 1) v else None
      | None \<Rightarrow> None)"

definition handle_finish ::
    "'h header_ops \<Rightarrow> access_info option \<Rightarrow> 'h forward \<Rightarrow> ('h, 'b) client_result option \<Rightarrow> bool \<Rightarrow> proxy_state
     \<Rightarrow> ('h, 'b) response \<times> proxy_state" where
  "handle_finish H cx fw res client_stall s =
     (let up = fw_upstream fw; adm = fw_admission fw;
          answer = refuse H cx (fw_route fw) (u_name up);
          failure = on_store (upstream_record_failure adm up);
          handed_back = on_store (upstream_release adm up) in
      case res of
        None \<Rightarrow> answer 504 ''upstream timeout'' (if fw_counts_timeout fw then failure s else s)
      | Some (Client_error e) \<Rightarrow>
          if is_body_idle_timeout e
          then answer 408 ''request body timeout'' (take_note UploadTimedOut (handed_back s))
          else if is_client_body_error e
          then answer 400 ''request body error'' (take_note UploadFailed (handed_back s))
          else answer 502 ''bad gateway''
                 (take_note (UpstreamFailed (u_name up)) (if client_stall then handed_back s else failure s))
      | Some (Client_response rs) \<Rightarrow>
          (let s1 = (if 502 \<le> rs_status rs \<and> rs_status rs \<le> 504
                     then (if client_stall then handed_back s else failure s)
                     else on_store (upstream_record_success adm up) s) in
           (rs\<lparr>rs_headers := strip_hop_by_hop H (rs_headers rs)\<rparr>,
            record_len cx (fw_route fw) (u_name up) (rs_status rs) (content_length H (rs_headers rs)) s1)))"

section \<open>The handlers\<close>

type_synonym ('h, 'b) world =
  "'h forward \<Rightarrow> proxy_state \<Rightarrow> happening list \<times> ('h, 'b) client_result option \<times> duration \<times> proxy_state"

text \<open>\<open>None\<close> while neither the client nor the timer is done.\<close>

definition handle_core ::
    "'h header_ops \<Rightarrow> uri_ops \<Rightarrow> (duration \<Rightarrow> duration \<Rightarrow> bool) \<Rightarrow> ('h, 'b) world \<Rightarrow> bool \<Rightarrow> route_table \<Rightarrow> ip_addr
     \<Rightarrow> string \<Rightarrow> 'h request \<Rightarrow> access_info option \<Rightarrow> duration \<Rightarrow> proxy_state
     \<Rightarrow> (('h, 'b) response \<times> proxy_state) option" where
  "handle_core H U ready world streaming t peer proto rq cx now s =
     (case handle_begin H U streaming t peer proto rq cx now s of
        (Answer rs, s1) \<Rightarrow> Some (rs, s1)
      | (Forward fw, s1) \<Rightarrow>
          (let (hs, reply, later, s2) = world fw s1;
               (tm, st) = await ready hs (fw_body fw) in
           map_option (\<lambda>res. handle_finish H cx fw res (stalled t later st) s2) (select reply tm)))"

definition max_logged_path :: nat where
  "max_logged_path = 512"

definition access_of :: "'h header_ops \<Rightarrow> ip_addr \<Rightarrow> string \<Rightarrow> 'h request \<Rightarrow> string option \<Rightarrow> access_info" where
  "access_of H peer proto rq rid =
     \<lparr>ai_method = rq_method rq,
      ai_host = (case uri_authority (rq_uri rq) of
                   Some a \<Rightarrow> sanitize a 255
                 | None \<Rightarrow> (case hm_get H (rq_headers rq) ''host'' of Some v \<Rightarrow> sanitize v 255 | None \<Rightarrow> ''-'')),
      ai_path = sanitize (uri_path (rq_uri rq)) max_logged_path,
      ai_version = rq_version rq, ai_peer = peer, ai_proto = proto, ai_request_id = rid\<rparr>"

text \<open>The request id and the request that carries it.\<close>

definition identified :: "'h header_ops \<Rightarrow> route_table \<Rightarrow> u64 \<times> u64 \<Rightarrow> 'h request \<Rightarrow> string option \<times> 'h request" where
  "identified H t rnd rq =
     (if request_id t
      then (let (v, h) = ensure_request_id H rnd (rq_headers rq) in (Some v, rq\<lparr>rq_headers := h\<rparr>))
      else if access_log t
      then ((case hm_get H (rq_headers rq) ''x-request-id'' of
               Some v \<Rightarrow> if valid_request_id v then Some v else None
             | None \<Rightarrow> None), rq)
      else (None, rq))"

text \<open>\<open>entry("x-request-id").or_insert(v)\<close>\<close>

definition echo :: "'h header_ops \<Rightarrow> route_table \<Rightarrow> string option \<Rightarrow> ('h, 'b) response \<Rightarrow> ('h, 'b) response" where
  "echo H t rid rs =
     (case rid of
        Some v \<Rightarrow>
          if request_id t \<and> hv_from_str H v \<and> hm_get_all H (rs_headers rs) ''x-request-id'' = []
          then rs\<lparr>rs_headers := hm_insert H ''x-request-id'' v (rs_headers rs)\<rparr> else rs
      | None \<Rightarrow> rs)"

definition handle_inner ::
    "'h header_ops \<Rightarrow> uri_ops \<Rightarrow> (duration \<Rightarrow> duration \<Rightarrow> bool) \<Rightarrow> ('h, 'b) world \<Rightarrow> bool \<Rightarrow> route_table \<Rightarrow> ip_addr
     \<Rightarrow> string \<Rightarrow> u64 \<times> u64 \<Rightarrow> 'h request \<Rightarrow> duration \<Rightarrow> proxy_state \<Rightarrow> (('h, 'b) response \<times> proxy_state) option" where
  "handle_inner H U ready world streaming t peer proto rnd rq now s =
     (let (rid, rq1) = identified H t rnd rq;
          log = (if access_log t then Some (access_of H peer proto rq1 rid) else None) in
      map_option (map_prod (echo H t rid) id) (handle_core H U ready world streaming t peer proto rq1 log now s))"

definition handle_streaming ::
    "'h header_ops \<Rightarrow> uri_ops \<Rightarrow> (duration \<Rightarrow> duration \<Rightarrow> bool) \<Rightarrow> ('h, 'b) world \<Rightarrow> route_table \<Rightarrow> ip_addr
     \<Rightarrow> string \<Rightarrow> u64 \<times> u64 \<Rightarrow> 'h request \<Rightarrow> duration \<Rightarrow> proxy_state \<Rightarrow> (('h, 'b) response \<times> proxy_state) option" where
  "handle_streaming H U ready world = handle_inner H U ready world True"

text \<open>The deprecated \<open>handle\<close>.\<close>

definition handle_legacy ::
    "'h header_ops \<Rightarrow> uri_ops \<Rightarrow> (duration \<Rightarrow> duration \<Rightarrow> bool) \<Rightarrow> ('h, 'b) world \<Rightarrow> route_table \<Rightarrow> ip_addr
     \<Rightarrow> string \<Rightarrow> u64 \<times> u64 \<Rightarrow> 'h request \<Rightarrow> duration \<Rightarrow> proxy_state \<Rightarrow> (('h, 'b) response \<times> proxy_state) option" where
  "handle_legacy H U ready world = handle_inner H U ready world False"

end
