(* ===== verification/Header_Props.thy ===== *)
theory Header_Props
  imports Header_Laws
begin

text \<open>Further properties of the header handling: disguised names, hop-by-hop headers, request ids and
  the forwarded prefix.\<close>

section \<open>Disguised header names\<close>

text \<open>The name a CGI-style backend sees: the alphanumeric words, joined by single dashes.\<close>

fun words :: "string \<Rightarrow> string \<Rightarrow> string list" where
  "words w [] = (if w = [] then [] else [w])"
| "words w (c # s) =
     (if is_ascii_alphanumeric c then words (w @ [c]) s
      else if w = [] then words [] s else w # words [] s)"

definition cgi_name :: "string \<Rightarrow> string" where
  "cgi_name nm = join_with [dash] (words [] nm)"

lemma dash_not_alnum [simp]: "\<not> is_ascii_alphanumeric dash"
  by (simp add: ascii_defs byte_def)

lemma join_snoc_char: "join_with sep (ws @ [w @ [c]]) = join_with sep (ws @ [w]) @ [c]"
proof (induction ws)
  case (Cons x ws)
  then show ?case by (cases ws) simp_all
qed simp

lemma join_snoc_empty: "ws \<noteq> [] \<Longrightarrow> join_with [dash] (ws @ [[]]) = join_with [dash] ws @ [dash]"
proof (induction ws)
  case (Cons x ws)
  then show ?case by (cases ws) (simp_all add: join_Cons)
qed simp

definition word_ok :: "string \<Rightarrow> bool" where
  "word_ok w \<longleftrightarrow> w \<noteq> [] \<and> list_all is_ascii_alphanumeric w"

lemma join_last:
  assumes "w \<noteq> []" and "list_all is_ascii_alphanumeric w"
  shows "join_with [dash] (ws @ [w]) \<noteq> [] \<and> \<not> suffix [dash] (join_with [dash] (ws @ [w]))"
proof -
  obtain v c where w: "w = v @ [c]" using assms(1) by (cases w rule: rev_cases) auto
  then have "c \<noteq> dash" using assms(2) by (auto simp: list_all_iff)
  then show ?thesis by (simp add: w join_snoc_char)
qed

lemma trim_dash: "\<not> suffix [dash] s \<Longrightarrow> trim_end_matches (\<lambda>c. c = dash) s = s"
  by (cases s rule: rev_cases) (auto simp: trim_end_matches_def)

lemma trim_dash_snoc: "trim_end_matches (\<lambda>c. c = dash) (s @ [dash]) = trim_end_matches (\<lambda>c. c = dash) s"
  by (simp add: trim_end_matches_def)

lemma fold_loop_words:
  "list_all word_ok ws \<Longrightarrow> list_all is_ascii_alphanumeric w \<Longrightarrow>
   trim_end_matches (\<lambda>c. c = dash) (fold_loop (join_with [dash] (ws @ [w])) s)
   = join_with [dash] (ws @ words w s)"
proof (induction s arbitrary: ws w)
  case Nil
  show ?case
  proof (cases "w = []")
    case False
    then show ?thesis using join_last [OF False Nil(2), of ws] by (simp add: trim_dash)
  next
    case True
    show ?thesis
    proof (cases ws rule: rev_cases)
      case (snoc vs v)
      then have v: "v \<noteq> []" "list_all is_ascii_alphanumeric v" using Nil(1) by (simp_all add: word_ok_def)
      have "join_with [dash] (ws @ [w]) = join_with [dash] (vs @ [v]) @ [dash]"
        using True snoc by (subst join_snoc_empty [symmetric]) simp_all
      then show ?thesis using True snoc join_last [OF v, of vs] by (simp add: trim_dash_snoc trim_dash)
    qed (simp add: True trim_end_matches_def)
  qed
next
  case (Cons c s)
  show ?case
  proof (cases "is_ascii_alphanumeric c")
    case True
    then show ?thesis using Cons.IH [of ws "w @ [c]"] Cons.prems by (simp add: join_snoc_char)
  next
    case no: False
    show ?thesis
    proof (cases "w = []")
      case True
      then have "join_with [dash] (ws @ [w]) = [] \<or> suffix [dash] (join_with [dash] (ws @ [w]))"
        by (cases "ws = []") (simp_all add: join_snoc_empty)
      then show ?thesis using no True Cons by auto
    next
      case False
      have "join_with [dash] ((ws @ [w]) @ [[]]) = join_with [dash] (ws @ [w]) @ [dash]"
        by (rule join_snoc_empty) simp
      then show ?thesis using no False Cons.IH [of "ws @ [w]" "[]"] Cons.prems join_last [OF False Cons.prems(2), of ws]
        by (simp add: word_ok_def)
    qed
  qed
qed

lemma cgi_fold: "trim_end_matches (\<lambda>c. c = dash) (fold_loop [] nm) = cgi_name nm"
  using fold_loop_words [of "[]" "[]" nm] by (simp add: cgi_name_def)

lemma words_plain:
  "list_all (\<lambda>b. is_ascii_alphanumeric b \<or> b = dash) s \<Longrightarrow> w \<noteq> [] \<or> \<not> prefix [dash] s \<Longrightarrow>
   \<not> suffix [dash] s \<Longrightarrow> \<not> sublist [dash, dash] s \<Longrightarrow> join_with [dash] (words w s) = w @ s"
proof (induction s arbitrary: w)
  case (Cons c s)
  have sub: "\<not> suffix [dash] s \<or> s = []" "\<not> sublist [dash, dash] s"
    using Cons.prems(3,4) by (auto simp: suffix_Cons sublist_Cons_right)
  show ?case
  proof (cases "is_ascii_alphanumeric c")
    case True
    then show ?thesis using Cons.IH [of "w @ [c]"] Cons.prems(1) sub by auto
  next
    case False
    then have c: "c = dash" "w \<noteq> []" using Cons.prems(1,2) by auto
    then have "s \<noteq> []" "\<not> prefix [dash] s" using Cons.prems(3,4) by (auto simp: sublist_Cons_right prefix_def)
    moreover have "join_with [dash] (words [] s) = s"
      using Cons.IH [of "[]"] Cons.prems(1) sub calculation by auto
    ultimately have "words [] s \<noteq> []" by auto
    then show ?thesis using c \<open>join_with [dash] (words [] s) = s\<close> by (simp add: join_Cons)
  qed
qed simp

lemma noncanonical_spelling:
  "is_noncanonical_spelling nm \<longleftrightarrow> cgi_name nm \<in> set trust_governed \<and> nm \<notin> set trust_governed"
proof (cases "list_all (\<lambda>b. is_ascii_alphanumeric b \<or> b = dash) nm
         \<and> \<not> prefix [dash] nm \<and> \<not> suffix [dash] nm \<and> \<not> contains_str [dash, dash] nm")
  case True
  then have "cgi_name nm = nm" using words_plain [of nm "[]"] by (auto simp: cgi_name_def contains_str_iff)
  then show ?thesis using True by (simp add: is_noncanonical_spelling_def)
next
  case False
  then have "is_noncanonical_spelling nm \<longleftrightarrow> cgi_name nm \<in> set trust_governed"
    by (simp only: is_noncanonical_spelling_def cgi_fold if_False)
  then show ?thesis using canonical_names [of nm] by blast
qed

text \<open>\<open>is_noncanonical_spelling\<close>, its shortcut included, holds exactly of the names that a backend
  which reads every other character as a dash (and collapses and trims them) takes for one of the
  trust-governed names, without being spelled as that name.\<close>

theorem noncanonical_iff:
  "is_noncanonical_spelling nm \<longleftrightarrow> cgi_name nm \<in> set trust_governed \<and> nm \<notin> set trust_governed"
  by (rule noncanonical_spelling)

lemma header_map_noncanonical:
  assumes "header_map H" and "is_noncanonical_spelling k"
  shows "hm_get_all H (apply_forwarded_headers H peer proto ho cfg h) k = []"
proof -
  have "k \<notin> set trust_governed" using assms(2) canonical_names by blast
  then have "k \<noteq> ''x-real-ip''" "k \<noteq> ''x-forwarded-for''" "k \<noteq> ''x-forwarded-proto''"
    "k \<noteq> ''x-forwarded-port''" "k \<noteq> ''forwarded''" by (auto simp: trust_governed_def)
  then show ?thesis using assms
    by (cases "contains (f_trusted cfg) peer")
       (simp_all add: header_map.trusted_get [OF assms(1) _ refl] header_map.untrusted_get)
qed

text \<open>No disguised forwarding header reaches an upstream, from a trusted peer or not: a header that
  a CGI-style backend would read as one of the trust-governed names is spelled exactly as that name,
  and is then one the proxy has vetted.\<close>

theorem no_disguised_header:
  assumes "header_map H" and "k \<in> set (hm_keys H (apply_forwarded_headers H peer proto client_host cfg h))"
    and "cgi_name k \<in> set trust_governed"
  shows "k \<in> set trust_governed"
  using header_map_noncanonical [OF assms(1), of k] assms(2,3) header_map.keys [OF assms(1)] noncanonical_spelling [of k]
  by blast

theorem no_disguised_header_witness:
  "let h' = apply_forwarded_headers list_headers (V4 0x05050505) ''http'' None
              \<lparr>f_trusted = default_trusted_proxies, f_forwarded_header = False, f_xff = Append\<rparr>
              [(''x_forwarded.host'', ''evil''), (''accept'', ''text/html'')] in
   hm_keys list_headers h' = [''accept'', ''x-forwarded-proto'', ''x-real-ip'', ''x-forwarded-for'']
   \<and> cgi_name ''x_forwarded.host'' = ''x-forwarded-host'' \<and> ''x-real-ip'' \<in> set trust_governed"
proof -
  let ?h = "apply_forwarded_headers list_headers (V4 0x05050505) ''http'' None
              \<lparr>f_trusted = default_trusted_proxies, f_forwarded_header = False, f_xff = Append\<rparr>
              [(''x_forwarded.host'', ''evil''), (''accept'', ''text/html'')]"
  have k: "hm_keys list_headers ?h = [''accept'', ''x-forwarded-proto'', ''x-real-ip'', ''x-forwarded-for'']" by code_simp
  have c: "cgi_name ''x-real-ip'' \<in> set trust_governed" by code_simp
  have d: "cgi_name ''x_forwarded.host'' = ''x-forwarded-host''" by code_simp
  have "''x-real-ip'' \<in> set (hm_keys list_headers ?h)" using k by simp
  then show ?thesis using no_disguised_header [OF list_headers_ok _ c] k d unfolding Let_def by blast
qed

section \<open>Hop-by-hop headers\<close>

text \<open>\<open>strip_hop_by_hop\<close> removes the fixed hop-by-hop headers and every header the message names in
  \<open>Connection\<close>, but a client cannot use that to delete \<open>Host\<close> or the request id, and every other
  header is passed on with its values unchanged.\<close>

theorem hop_by_hop_removed:
  assumes "header_map H"
  shows "hm_get_all H (strip_hop_by_hop H h) m =
    (if m \<in> set hop_by_hop_headers \<or> m \<in> set (connection_names H h) - {''host'', ''x-request-id''}
     then [] else hm_get_all H h m)"
  using header_map.get_strip_hop_by_hop [OF assms, of h m] by auto

theorem hop_by_hop_removed_witness:
  "strip_hop_by_hop list_headers
     [(''host'', ''a''), (''connection'', ''close, X-Foo , Host''), (''x-foo'', ''1''), (''te'', ''trailers''), (''x-bar'', ''2'')]
   = [(''host'', ''a''), (''x-bar'', ''2'')]
   \<and> hm_get_all list_headers (strip_hop_by_hop list_headers
     [(''host'', ''a''), (''connection'', ''close, X-Foo , Host''), (''x-foo'', ''1''), (''te'', ''trailers''), (''x-bar'', ''2'')])
     ''host'' = [''a'']"
proof -
  let ?h = "[(''host'', ''a''), (''connection'', ''close, X-Foo , Host''), (''x-foo'', ''1''), (''te'', ''trailers''), (''x-bar'', ''2'')]"
  have s: "strip_hop_by_hop list_headers ?h = [(''host'', ''a''), (''x-bar'', ''2'')]" by code_simp
  have "''host'' \<notin> set hop_by_hop_headers" "hm_get_all list_headers ?h ''host'' = [''a'']"
    by (simp_all add: hop_by_hop_headers_def list_headers_def)
  then show ?thesis using s hop_by_hop_removed [OF list_headers_ok, of ?h "''host''"] by simp
qed

section \<open>Request ids and log text\<close>

lemma hex16_graphic: "list_all visible (hex16 w)"
proof -
  have "visible (digit_char d)" if "0 \<le> d" "d < 16" for d
    using ascii_digit_char [OF that] by (simp add: visible_def is_ascii_graphic_def)
  then show ?thesis by (auto simp: hex16_def list_all_iff)
qed

lemma generated_valid: "valid_request_id (generate_request_id a b)"
  using hex16_graphic [of a] hex16_graphic [of b]
  by (simp add: valid_request_id_def generate_request_id_def max_request_id_def hex16_def)

text \<open>With \<open>request_id\<close> on, whatever the client sent, the request carries exactly one \<open>x-request-id\<close>,
  the one that is logged and echoed: the client's own when it sent a single valid one, else a fresh
  one, and in both cases a non-empty run of at most 128 visible ASCII characters, so that it can
  neither break a log line nor be an invalid header value.\<close>

theorem request_id_valid:
  assumes "header_map H"
  shows "let (v, h') = ensure_request_id H rnd h in
    hm_get_all H h' ''x-request-id'' = [v] \<and> valid_request_id v
    \<and> (hm_get_all H h ''x-request-id'' = [w] \<and> valid_request_id w \<longrightarrow> v = w \<and> h' = h)"
  using generated_valid header_map.get_insert [OF assms]
  by (auto simp: ensure_request_id_def Let_def split: list.splits)

theorem request_id_valid_witness:
  "ensure_request_id list_headers (255, 16) [(''x-request-id'', ''a b'')]
     = (''00000000000000ff0000000000000010'', [(''x-request-id'', ''00000000000000ff0000000000000010'')])
   \<and> valid_request_id ''00000000000000ff0000000000000010''"
proof -
  have e: "ensure_request_id list_headers (255, 16) [(''x-request-id'', ''a b'')]
     = (''00000000000000ff0000000000000010'', [(''x-request-id'', ''00000000000000ff0000000000000010'')])" by code_simp
  show ?thesis
    using request_id_valid [OF list_headers_ok, of "(255, 16)" "[(''x-request-id'', ''a b'')]"] unfolding e by simp
qed

section \<open>The forwarded prefix\<close>

definition plain_prefix :: "string \<Rightarrow> bool" where
  "plain_prefix v \<longleftrightarrow> prefix [slash] v \<and> list_all is_ascii_graphic v
     \<and> CHR '','' \<notin> set v \<and> CHR ''?'' \<notin> set v \<and> CHR ''#'' \<notin> set v \<and> \<not> contains_str ''//'' v \<and> \<not> bad_path v"

text \<open>The \<open>X-Forwarded-Prefix\<close> of a stripped route is one value: the stripped prefix itself, behind
  at most one outer prefix, which a trusted hop must have sent alone and as a plain path (no list, no
  query, no double slash, no dot segment).\<close>

theorem forwarded_prefix_plain:
  assumes "header_map H" and "list_all is_ascii_graphic pre"
  shows "\<exists>outer. hm_get_all H (set_forwarded_prefix H pre h) ''x-forwarded-prefix'' = [outer @ pre]
    \<and> (outer = [] \<or> plain_prefix outer \<and> length (hm_get_all H h ''x-forwarded-prefix'') = 1)"
proof -
  let ?ok = "\<lambda>v. prefix [slash] v
     \<and> list_all (\<lambda>b. is_ascii_graphic b \<and> \<not> (b = CHR '','' \<or> b = CHR ''?'' \<or> b = CHR ''#'')) v
     \<and> \<not> contains_str ''//'' v \<and> \<not> bad_path v"
  have ok: "?ok v \<longleftrightarrow> plain_prefix v" for v by (auto simp: plain_prefix_def list_all_iff)
  obtain outer where o: "set_forwarded_prefix H pre h = try_insert H ''x-forwarded-prefix'' (outer @ pre) h"
    "outer = [] \<or> plain_prefix outer \<and> length (hm_get_all H h ''x-forwarded-prefix'') = 1"
    unfolding set_forwarded_prefix_def ok by (auto simp: Let_def split: list.splits option.splits if_splits)
  have "list_all value_char (outer @ pre)"
    using o(2) assms(2) by (auto simp: plain_prefix_def list_all_iff graphic_value)
  then show ?thesis using o header_map.get_try_insert [OF assms(1)] header_map.from_str [OF assms(1)] by auto
qed

theorem forwarded_prefix_plain_witness:
  "\<exists>outer. hm_get_all list_headers (set_forwarded_prefix list_headers ''/api'' [(''x-forwarded-prefix'', '' /outer/ '')])
       ''x-forwarded-prefix'' = [outer @ ''/api''] \<and> outer = ''/outer''"
proof -
  have g: "list_all is_ascii_graphic ''/api''" by code_simp
  have s: "hm_get_all list_headers (set_forwarded_prefix list_headers ''/api'' [(''x-forwarded-prefix'', '' /outer/ '')])
       ''x-forwarded-prefix'' = [''/outer/api'']" by code_simp
  show ?thesis using forwarded_prefix_plain [OF list_headers_ok g, of "[(''x-forwarded-prefix'', '' /outer/ '')]"]
    unfolding s by (auto simp: append_eq_Cons_conv)
qed

end
