(* ===== verification/Breaker_Spec.thy ===== *)
theory Breaker_Spec
  imports Breaker
begin

text \<open>
  What the breaker promises, as a state machine over natural numbers with no atomics and no
  wrap-around, and the proof that the operations of theory \<open>Breaker\<close>, each run alone, implement
  it. The contract the other components rely on is the locale \<open>circuit_breaker\<close>, interpreted on
  the operations of the code.
\<close>

section \<open>The abstract circuit\<close>

text \<open>
  A circuit is shut with a number of consecutive failures, tripped since a time, or probing since
  a time; \<open>rearmed\<close> is the time of the last release that freed the probe slot.
\<close>

datatype phase = Shut nat | Tripped nat | Probing nat

record circuit =
  phase :: phase
  rearmed :: "nat option"
  threshold :: nat
  cooldown :: nat

fun spec_acquire :: "nat \<Rightarrow> circuit \<Rightarrow> admission option \<times> circuit" where
  "spec_acquire now c =
     (case phase c of
        Shut n \<Rightarrow> (Some Normal, c)
      | Tripped t \<Rightarrow> if now - t < cooldown c then (None, c)
                      else (Some Probe, c\<lparr>phase := Probing now\<rparr>)
      | Probing t \<Rightarrow> if now - t < cooldown c then (None, c)
                      else (Some Probe, c\<lparr>phase := Probing now\<rparr>))"

fun spec_success :: "admission \<Rightarrow> circuit \<Rightarrow> circuit" where
  "spec_success a c =
     (case phase c of
        Shut n \<Rightarrow> if a = Normal then c\<lparr>phase := Shut 0\<rparr> else c
      | _ \<Rightarrow> if a = Probe then c\<lparr>phase := Shut 0\<rparr> else c)"

fun spec_failure :: "admission \<Rightarrow> nat \<Rightarrow> circuit \<Rightarrow> circuit" where
  "spec_failure a now c =
     (case phase c of
        Shut n \<Rightarrow> if n + 1 < threshold c then c\<lparr>phase := Shut (n + 1)\<rparr>
                   else c\<lparr>phase := Tripped now\<rparr>
      | Tripped t \<Rightarrow> c
      | Probing t \<Rightarrow> if a = Probe then c\<lparr>phase := Tripped now\<rparr> else c)"

fun spec_release :: "admission \<Rightarrow> nat \<Rightarrow> circuit \<Rightarrow> circuit" where
  "spec_release a now c =
     (case phase c of
        Probing t \<Rightarrow>
          if a = Probe \<and> (case rearmed c of None \<Rightarrow> True | Some l \<Rightarrow> cooldown c \<le> now - l)
          then c\<lparr>phase := Probing (now - cooldown c), rearmed := Some now\<rparr> else c
      | _ \<Rightarrow> c)"

fun spec_reconfigure :: "duration \<Rightarrow> nat \<Rightarrow> circuit \<Rightarrow> circuit" where
  "spec_reconfigure d t c = c\<lparr>cooldown := as_millis d, threshold := t\<rparr>"

section \<open>Abstraction\<close>

definition abs_breaker :: "breaker \<Rightarrow> circuit" where
  "abs_breaker b =
     \<lparr>phase = (case from_u8 (b_state b) of
                Closed \<Rightarrow> Shut (unat (b_consecutive_failures b))
              | Open \<Rightarrow> Tripped (unat (b_opened_at_millis b))
              | HalfOpen \<Rightarrow> Probing (unat (b_opened_at_millis b))),
      rearmed = (if b_rearmed_at_millis b = u64_max then None
                 else Some (unat (b_rearmed_at_millis b))),
      threshold = unat (b_failure_threshold b),
      cooldown = unat (b_cooldown_millis b)\<rparr>"

text \<open>One call of an operation at a time \<open>now\<close>, on one breaker.\<close>

definition call :: "'a prog \<Rightarrow> u64 \<Rightarrow> breaker \<Rightarrow> 'a \<times> breaker" where
  "call p now b =
     (let r = run p \<lparr>brk = b, clock = now, emitted = []\<rparr> in (fst r, brk (snd r)))"

abbreviation after :: "'a prog \<Rightarrow> u64 \<Rightarrow> breaker \<Rightarrow> breaker" where
  "after p now b \<equiv> snd (call p now b)"

lemma unat_add_one:
  fixes x :: u32
  assumes "x < - 1"
  shows "unat (x + 1) = unat x + 1"
proof -
  have "x \<noteq> - 1" using assms by simp
  then show ?thesis by (metis Suc_eq_plus1 add.inverse_inverse add_eq_0_iff unatSuc add.commute)
qed

lemma elapsed_less_iff:
  "saturating_sub now t < c \<longleftrightarrow> unat now - unat t < unat c"
  by (simp add: word_less_nat_alt unat_saturating_sub)

lemma inv_closed_count: "breaker_inv b \<Longrightarrow> from_u8 (b_state b) = Closed \<Longrightarrow> b_consecutive_failures b < - 1"
  by (auto simp: breaker_inv_def from_u8_def split: if_splits)

lemmas refine_defs = call_def abs_breaker_def Let_def elapsed_less_iff

lemma refine_acquire:
  assumes "breaker_inv b"
  shows "map_prod id abs_breaker (call try_acquire now b) = spec_acquire (unat now) (abs_breaker b)"
  using assms
  by (cases "from_u8 (b_state b)") (simp_all add: refine_defs run_try_acquire)

lemma refine_success:
  "abs_breaker (after (record_success a) now b) = spec_success a (abs_breaker b)"
  by (cases "from_u8 (b_state b)"; cases a; simp add: refine_defs run_record_success)

lemma refine_failure:
  assumes "breaker_inv b"
  shows "abs_breaker (after (record_failure a) now b) = spec_failure a (unat now) (abs_breaker b)"
  using assms inv_closed_count [OF assms]
  by (cases "from_u8 (b_state b)"; cases a)
     (simp_all add: refine_defs run_record_failure tripped_def word_less_nat_alt unat_add_one)

lemma refine_release:
  assumes "now \<noteq> u64_max"
  shows "abs_breaker (after (release a) now b) = spec_release a (unat now) (abs_breaker b)"
  using assms
  by (cases "from_u8 (b_state b)"; cases a)
     (simp_all add: refine_defs run_release unat_saturating_sub not_less)

lemma refine_reconfigure:
  assumes "as_millis d < 2 ^ 64"
  shows "abs_breaker (after (reconfigure d t) now b) = spec_reconfigure d (unat t) (abs_breaker b)"
  using assms by (simp add: refine_defs run_reconfigure unsigned_of_nat take_bit_nat_eq_self
      split: circuit_state.split)

lemma inv_call:
  "(\<And>m. breaker_inv (brk m) \<Longrightarrow> breaker_inv (brk (snd (run p m))))
    \<Longrightarrow> breaker_inv b \<Longrightarrow> breaker_inv (after p now b)"
  by (simp add: call_def Let_def)

section \<open>The contract the other components rely on\<close>

locale circuit_breaker =
  fixes acquire :: "u64 \<Rightarrow> 'b \<Rightarrow> admission option \<times> 'b"
    and success :: "admission \<Rightarrow> u64 \<Rightarrow> 'b \<Rightarrow> 'b"
    and failure :: "admission \<Rightarrow> u64 \<Rightarrow> 'b \<Rightarrow> 'b"
    and hand_back :: "admission \<Rightarrow> u64 \<Rightarrow> 'b \<Rightarrow> 'b"
    and inv :: "'b \<Rightarrow> bool"
    and view :: "'b \<Rightarrow> circuit"
  assumes view_acquire: "inv b \<Longrightarrow> map_prod id view (acquire now b) = spec_acquire (unat now) (view b)"
    and view_success: "inv b \<Longrightarrow> view (success a now b) = spec_success a (view b)"
    and view_failure: "inv b \<Longrightarrow> view (failure a now b) = spec_failure a (unat now) (view b)"
    and view_hand_back:
      "inv b \<Longrightarrow> now \<noteq> u64_max \<Longrightarrow> view (hand_back a now b) = spec_release a (unat now) (view b)"
    and inv_acquire: "inv b \<Longrightarrow> inv (snd (acquire now b))"
    and inv_success: "inv b \<Longrightarrow> inv (success a now b)"
    and inv_failure: "inv b \<Longrightarrow> inv (failure a now b)"
    and inv_hand_back: "inv b \<Longrightarrow> inv (hand_back a now b)"
begin

lemma acquire_result: "inv b \<Longrightarrow> fst (acquire now b) = fst (spec_acquire (unat now) (view b))"
  using view_acquire [of b now] by (metis fst_map_prod id_apply)

lemma acquire_view: "inv b \<Longrightarrow> view (snd (acquire now b)) = snd (spec_acquire (unat now) (view b))"
  using view_acquire [of b now] by (metis snd_map_prod)

lemma inv_failures: "inv b \<Longrightarrow> inv ((failure a now ^^ n) b)"
  by (induction n) (simp_all add: inv_failure)

text \<open>Consecutive failures open the circuit exactly when the threshold is reached.\<close>

lemma threshold_failures:
  assumes "inv b" and "phase (view b) = Shut 0" and "n \<le> threshold (view b)"
    and "0 < threshold (view b)"
  shows "view ((failure a now ^^ n) b)
       = (view b)\<lparr>phase := (if n < threshold (view b) then Shut n else Tripped (unat now))\<rparr>"
  using assms(3)
proof (induction n)
  case 0
  have "(view b)\<lparr>phase := Shut 0\<rparr> = view b" using assms(2) by (metis circuit.surjective circuit.update_convs(1))
  then show ?case using assms(4) by simp
next
  case (Suc n)
  have "view ((failure a now ^^ Suc n) b)
      = spec_failure a (unat now) (view ((failure a now ^^ n) b))"
    by (simp add: view_failure inv_failures assms(1) del: spec_failure.simps)
  also have "\<dots> = spec_failure a (unat now) ((view b)\<lparr>phase := Shut n\<rparr>)"
    using Suc by (simp del: spec_failure.simps)
  finally show ?case using Suc.prems by simp
qed

text \<open>Once the circuit is not shut, ordinary results are late news.\<close>

lemma late_results_ignored:
  assumes "inv b" and "\<forall>n. phase (view b) \<noteq> Shut n"
  shows "view (success Normal now b) = view b" and "view (failure Normal now b) = view b"
  using assms by (simp_all add: view_success view_failure split: phase.splits)

text \<open>Failing health checks never postpone the probe.\<close>

lemma failing_checks_keep_stamp:
  assumes "inv b" and "phase (view b) = Tripped t"
  shows "view ((failure a now ^^ n) b) = view b"
proof (induction n)
  case (Suc n)
  then show ?case using assms by (simp add: view_failure inv_failures)
qed simp

lemma probe_after_failing_checks:
  assumes "inv b" and "phase (view b) = Tripped t" and "cooldown (view b) \<le> unat now - t"
  shows "fst (acquire now ((failure a now' ^^ n) b)) = Some Probe"
  using assms acquire_result [OF inv_failures [OF assms(1)], where now = now]
  by (simp add: failing_checks_keep_stamp)

text \<open>The probe slot: taken by one caller, then refused until a cooldown has passed.\<close>

lemma one_probe_per_window:
  assumes "inv b" and "fst (acquire now b) = Some Probe"
    and "unat now' - unat now < cooldown (view b)"
  shows "fst (acquire now' (snd (acquire now b))) = None"
proof -
  have "phase (view (snd (acquire now b))) = Probing (unat now)"
    "cooldown (view (snd (acquire now b))) = cooldown (view b)"
    using assms(2) acquire_result [OF assms(1), of now] acquire_view [OF assms(1), of now]
    by (auto split: phase.splits if_splits)
  then show ?thesis
    using assms(3) acquire_result [OF inv_acquire [OF assms(1)], of now' now] by simp
qed

end

interpretation brk: circuit_breaker
  where acquire = "call try_acquire"
    and success = "\<lambda>a. after (record_success a)"
    and failure = "\<lambda>a. after (record_failure a)"
    and hand_back = "\<lambda>a. after (release a)"
    and inv = breaker_inv
    and view = abs_breaker
proof (unfold_locales, goal_cases)
  case 1 then show ?case by (rule refine_acquire)
next
  case 2 then show ?case by (simp only: refine_success)
next
  case 3 then show ?case by (rule refine_failure)
next
  case 4 from 4(2) show ?case by (rule refine_release)
qed (erule inv_call [rotated], erule inv_ops)+

section \<open>Sequences of calls\<close>

datatype breaker_op =
    TryAcquire
  | RecordSuccess admission
  | RecordFailure admission
  | Release admission
  | Reconfigure duration u32

text \<open>The operation a call runs; calls that return nothing answer \<^const>\<open>None\<close>.\<close>

definition op_prog :: "breaker_op \<Rightarrow> admission option prog" where
  "op_prog op =
     (case op of
        TryAcquire \<Rightarrow> try_acquire
      | RecordSuccess a \<Rightarrow> bindp (record_success a) (\<lambda>_. Ret None)
      | RecordFailure a \<Rightarrow> bindp (record_failure a) (\<lambda>_. Ret None)
      | Release a \<Rightarrow> bindp (release a) (\<lambda>_. Ret None)
      | Reconfigure d t \<Rightarrow> bindp (reconfigure d t) (\<lambda>_. Ret None))"

fun spec_op :: "breaker_op \<Rightarrow> nat \<Rightarrow> circuit \<Rightarrow> admission option \<times> circuit" where
  "spec_op TryAcquire now c = spec_acquire now c"
| "spec_op (RecordSuccess a) now c = (None, spec_success a c)"
| "spec_op (RecordFailure a) now c = (None, spec_failure a now c)"
| "spec_op (Release a) now c = (None, spec_release a now c)"
| "spec_op (Reconfigure d t) now c = (None, spec_reconfigure d (unat t) c)"

text \<open>The clock never reads its last value, and a configured cooldown fits 64 bits of
  milliseconds (half a billion years).\<close>

fun op_ok :: "breaker_op \<times> u64 \<Rightarrow> bool" where
  "op_ok (Reconfigure d t, now) = (as_millis d < 2 ^ 64)"
| "op_ok (Release a, now) = (now \<noteq> u64_max)"
| "op_ok (_, now) = True"

fun run_calls :: "(breaker_op \<times> u64) list \<Rightarrow> breaker \<Rightarrow> admission option list \<times> breaker" where
  "run_calls [] b = ([], b)"
| "run_calls ((op, now) # ops) b =
     (let (r, b') = call (op_prog op) now b; (rs, b'') = run_calls ops b' in (r # rs, b''))"

fun spec_calls :: "(breaker_op \<times> u64) list \<Rightarrow> circuit \<Rightarrow> admission option list \<times> circuit" where
  "spec_calls [] c = ([], c)"
| "spec_calls ((op, now) # ops) c =
     (let (r, c') = spec_op op (unat now) c; (rs, c'') = spec_calls ops c' in (r # rs, c''))"

lemma call_unit: "call (bindp p (\<lambda>_. Ret None)) now b = (None, after p now b)"
  by (simp add: call_def Let_def split: prod.split)

lemma refine_op:
  assumes "breaker_inv b" and "op_ok (op, now)"
  shows "map_prod id abs_breaker (call (op_prog op) now b) = spec_op op (unat now) (abs_breaker b)"
  using assms
  by (cases op)
     (simp_all add: op_prog_def call_unit refine_acquire refine_success refine_failure
        refine_release refine_reconfigure del: spec_acquire.simps spec_success.simps
        spec_failure.simps spec_release.simps spec_reconfigure.simps)

lemma inv_op: "breaker_inv b \<Longrightarrow> breaker_inv (after (op_prog op) now b)"
  by (cases op) (simp_all add: op_prog_def call_unit inv_call inv_ops)

lemma refine_calls:
  assumes "breaker_inv b" and "list_all op_ok ops"
  shows "map_prod id abs_breaker (run_calls ops b) = spec_calls ops (abs_breaker b)
       \<and> breaker_inv (snd (run_calls ops b))"
  using assms
proof (induction ops arbitrary: b)
  case (Cons x ops)
  obtain op now where x: "x = (op, now)" by force
  obtain r b' where c: "call (op_prog op) now b = (r, b')" by force
  have b': "breaker_inv b'" using inv_op [OF Cons.prems(1), of op now] c by simp
  have "spec_op op (unat now) (abs_breaker b) = (r, abs_breaker b')"
    using refine_op [OF Cons.prems(1), of op now] Cons.prems(2) c x by simp
  with Cons.IH [OF b'] Cons.prems(2) x c show ?case
    by (auto simp: map_prod_def split: prod.splits)
qed simp

lemma inv_calls: "breaker_inv b \<Longrightarrow> breaker_inv (snd (run_calls ops b))"
proof (induction ops arbitrary: b)
  case (Cons x ops)
  obtain op now where x: "x = (op, now)" by force
  from Cons.IH [OF inv_op [OF Cons.prems, of op now]] x show ?case
    by (auto split: prod.splits)
qed simp

lemma breaker_new_inv: "breaker_new c = Inr b \<Longrightarrow> breaker_inv b"
  by (auto simp: breaker_new_def breaker_inv_unchecked split: sum.splits)

lemma breaker_new_view:
  assumes "breaker_new c = Inr b"
  shows "phase (abs_breaker b) = Shut 0" and "rearmed (abs_breaker b) = None"
    and "threshold (abs_breaker b) = unat (cfg_failure_threshold c)"
    and "0 < unat (cfg_failure_threshold c)"
  using assms unat_gt_0 [of "cfg_failure_threshold c"]
  by (auto simp: breaker_new_def validate_def unchecked_breaker_def run_reconfigure fresh_breaker_def
        abs_breaker_def word_less_nat_alt unat_eq_zero split: if_splits)

section \<open>Properties\<close>

text \<open>C4. Any sequence of calls on a breaker, each run alone, answers what the abstract circuit answers
  and leaves the breaker in the state the abstract circuit is in.\<close>

theorem calls_refine_circuit:
  assumes "breaker_inv b" and "list_all op_ok ops"
  shows "map_prod id abs_breaker (run_calls ops b) = spec_calls ops (abs_breaker b)"
  using refine_calls [OF assms] by (rule conjunct1)

definition sample_breaker :: breaker where
  "sample_breaker =
     \<lparr>b_name = Some ''svc:80'', b_gauges = True, b_state = 0, b_consecutive_failures = 0,
      b_opened_at_millis = 0, b_rearmed_at_millis = u64_max,
      b_failure_threshold = 1, b_cooldown_millis = 200\<rparr>"

lemma sample_breaker_inv: "breaker_inv sample_breaker"
  by (simp add: sample_breaker_def breaker_inv_def)

definition default_breaker :: breaker where
  "default_breaker =
     \<lparr>b_name = None, b_gauges = False, b_state = 0, b_consecutive_failures = 0,
      b_opened_at_millis = 0, b_rearmed_at_millis = u64_max,
      b_failure_threshold = 3, b_cooldown_millis = 30000\<rparr>"

lemma new_default_breaker: "breaker_new default_breaker_config = Inr default_breaker"
  by (simp add: breaker_new_def default_breaker_config_def validate_def unchecked_breaker_def
      run_reconfigure fresh_breaker_def default_breaker_def from_secs_def from_millis_def
      as_millis_def)

theorem calls_refine_circuit_witness:
  "map_prod id abs_breaker
     (run_calls [(RecordFailure Normal, 1000), (TryAcquire, 1100), (TryAcquire, 1250)] sample_breaker)
   = spec_calls [(RecordFailure Normal, 1000), (TryAcquire, 1100), (TryAcquire, 1250)]
       (abs_breaker sample_breaker)
   \<and> fst (run_calls [(RecordFailure Normal, 1000), (TryAcquire, 1100), (TryAcquire, 1250)] sample_breaker)
     = [None, None, Some Probe]"
proof -
  from calls_refine_circuit [OF sample_breaker_inv, of "[(RecordFailure Normal, 1000), (TryAcquire, 1100), (TryAcquire, 1250)]"]
  have "map_prod id abs_breaker
     (run_calls [(RecordFailure Normal, 1000), (TryAcquire, 1100), (TryAcquire, 1250)] sample_breaker)
   = spec_calls [(RecordFailure Normal, 1000), (TryAcquire, 1100), (TryAcquire, 1250)]
       (abs_breaker sample_breaker)" by (simp del: run_calls.simps spec_calls.simps)
  moreover have "fst (run_calls [(RecordFailure Normal, 1000), (TryAcquire, 1100), (TryAcquire, 1250)] sample_breaker)
     = [None, None, Some Probe]" by code_simp
  ultimately show ?thesis by (rule conjI)
qed

text \<open>Whatever calls a breaker made by \<open>Breaker::new\<close> has served, its state cell holds one of the
  three discriminants, and while it is closed the next \<open>fetch_add(1) + 1\<close> does not overflow.\<close>

theorem no_count_overflow:
  assumes "breaker_new c = Inr b" and "b' = snd (run_calls ops b)"
  shows "as_u8 (from_u8 (b_state b')) = b_state b'
    \<and> (from_u8 (b_state b') = Closed \<longrightarrow>
         unat (b_consecutive_failures b' + 1) = unat (b_consecutive_failures b') + 1)"
proof -
  have inv: "breaker_inv b'"
    unfolding assms(2) by (rule inv_calls [OF breaker_new_inv [OF assms(1)]])
  then show ?thesis
    using unat_add_one [OF inv_closed_count] by (auto simp: as_from_u8)
qed

text \<open>A breaker made by \<open>Breaker::new\<close> stays closed through fewer consecutive failures than its
  threshold and opens, stamped with the time, on the one that reaches it.\<close>

theorem opens_at_threshold:
  assumes "breaker_new c = Inr b" and "n \<le> unat (cfg_failure_threshold c)"
  shows "phase (abs_breaker ((after (record_failure a) now ^^ n) b))
       = (if n < unat (cfg_failure_threshold c) then Shut n else Tripped (unat now))"
  using brk.threshold_failures [OF breaker_new_inv [OF assms(1)], of n a now]
    breaker_new_view [OF assms(1)] assms(2)
  by simp

text \<open>The half-open slot: a caller that is given the probe makes every caller within the next
  cooldown be refused, whether it finds the circuit open or half-open.\<close>

theorem probe_slot_exclusive:
  assumes "breaker_inv b" and "fst (call try_acquire now b) = Some Probe"
    and "unat now' - unat now < unat (b_cooldown_millis b)"
  shows "fst (call try_acquire now' (after try_acquire now b)) = None"
  using brk.one_probe_per_window [OF assms(1,2), of now'] assms(3) by (simp add: abs_breaker_def)

text \<open>Failing health checks while the circuit is open do not postpone recovery: however many are
  recorded, the first caller a cooldown after the stamp is given the probe.\<close>

theorem probe_not_postponed:
  assumes "breaker_inv b" and "from_u8 (b_state b) = Open"
    and "unat (b_cooldown_millis b) \<le> unat now - unat (b_opened_at_millis b)"
  shows "fst (call try_acquire now ((after (record_failure Probe) now' ^^ n) b)) = Some Probe"
  using brk.probe_after_failing_checks [OF assms(1), of _ now n Probe now'] assms(2,3)
  by (simp add: abs_breaker_def)

theorem probe_not_postponed_witness:
  "fst (call try_acquire 1200
      ((after (record_failure Probe) 1150 ^^ 6) (after (record_failure Normal) 1000 sample_breaker)))
   = Some Probe"
proof -
  let ?b = "after (record_failure Normal) 1000 sample_breaker"
  have inv: "breaker_inv ?b" by (rule brk.inv_failure [OF sample_breaker_inv])
  have "from_u8 (b_state ?b) = Open" "b_cooldown_millis ?b = 200" "b_opened_at_millis ?b = 1000"
    by code_simp+
  then show ?thesis using probe_not_postponed [OF inv, of 1200 6 1150] by simp
qed

text \<open>\<open>release\<close> never changes the state or the failure count, and once it has re-armed the probe
  slot every release within the next cooldown changes nothing at all.\<close>

theorem release_rearms_once_per_cooldown:
  assumes "b' = after (release a) now b" and "b' \<noteq> b" and "now \<noteq> u64_max"
    and "unat now' - unat now < unat (b_cooldown_millis b)"
  shows "b_state b' = b_state b \<and> b_consecutive_failures b' = b_consecutive_failures b
    \<and> after (release a') now' b' = b'"
  using assms
  by (auto simp: call_def Let_def run_release elapsed_less_iff split: if_splits)

text \<open>An upstream's breaker logs and publishes exactly its state changes: a call that changes the
  state emits one log line with both ends and then both gauges with the new state; a call that does
  not emits nothing.\<close>

theorem gauges_follow_state:
  assumes "breaker_inv (brk m)" and "b_gauges (brk m)" and "b_name (brk m) = Some n"
    and "m' = snd (run (op_prog op) m)"
  shows "emitted m' = emitted m @
     (if cstate m' = cstate m then []
      else [LogTransition n (cstate m) (cstate m') (cstate m' = Open),
            GaugeCircuitState n (as_u8 (cstate m')), GaugeUpstreamAlive n (cstate m' = Closed)])"
  using assms
  by (cases op; cases "cstate m")
     (auto simp: op_prog_def run_ops tripped_def transition_effects_def Let_def)

end
