(* ===== verification/Proxy_Props.thy ===== *)
theory Proxy_Props
  imports Proxy Header_Props Breaker_Spec
begin

text \<open>
  Which requests reach an upstream, and what they look like there: the target and every header.
\<close>

section \<open>What the handler has checked when it forwards\<close>

lemma refuse_simps [simp]:
  "fst (refuse H cx rt up st body s) = error_response H st body"
  "px_store (snd (refuse H cx rt up st body s)) = px_store s"
  "px_notes (snd (refuse H cx rt up st body s)) = px_notes s"
  "px_records (snd (refuse H cx rt up st body s)) =
     px_records s @ [\<lparr>rr_access = cx, rr_route = rt, rr_upstream = up, rr_status = st, rr_bytes_out = None\<rparr>]"
  "rs_status (error_response H st body) = st"
  by (simp_all add: refuse_def record_req_def record_len_def error_response_def)

lemma warn_simps [simp]:
  "px_store (warn_private_peer_once s) = px_store s" "px_records (warn_private_peer_once s) = px_records s"
  by (simp_all add: warn_private_peer_once_def take_note_def)

lemma on_store_simps [simp]:
  "px_store (on_store f s) = f (px_store s)" "px_records (on_store f s) = px_records s"
  by (simp_all add: on_store_def)

lemma handle_begin_ForwardE:
  assumes "handle_begin H U streaming t peer proto rq cx now s = (Forward fw, s')"
  obtains r strip u where
    "\<not> answers_locally t rq" "\<not> bad_path_normalized (uri_path (rq_uri rq))"
    "\<not> ambiguous_route t (uri_path (rq_uri rq))" "\<not> bad_host H (rq_headers rq) (rq_uri rq) (rq_version rq)"
    "lookup t (uri_path (rq_uri rq)) = Some r" "strip_of r (uri_path (rq_uri rq)) = Inr strip"
    "\<not> wants_upgrade H rq" "rq_method rq \<noteq> ''CONNECT''"
    "upstream_try_acquire (r_upstream r) (px_store s) = (Some (fw_admission fw), px_store s')"
    "px_records s' = px_records s"
    "upstream_target U (r_upstream r) (rq_uri rq) strip = Inr u"
    "fw_request fw = rq\<lparr>rq_uri := u, rq_version := HTTP_11,
                          rq_headers := forward_headers H t r peer proto rq strip\<rparr>"
    "fw_upstream fw = r_upstream r" "fw_route fw = r_prefix r"
    "fw_counts_timeout fw = (rq_end_stream rq \<or> wrap streaming t rq now \<noteq> None)"
    "fw_body fw = wrap streaming t rq now"
  using assms
  by (auto simp: handle_begin_def admitted_def Let_def refuse_def
      split: if_splits option.splits sum.splits prod.splits)

section \<open>The forwarded target\<close>

text \<open>What the http crate documents of its URI parsers: \<open>from_parts\<close> keeps the parts of a complete
  URI, and a path and query is read back as the text it was parsed from, split at the first \<open>?\<close>.\<close>

lemma split_at_first: "c \<notin> set a \<Longrightarrow> c \<notin> set b \<Longrightarrow> a @ c # x = b @ c # y \<longleftrightarrow> a = b \<and> x = y"
proof (induction a arbitrary: b)
  case (Cons d a)
  then show ?case by (cases b) auto
qed (auto simp: Cons_eq_append_conv)

locale uri_parser =
  fixes U :: uri_ops
  assumes from_parts_keeps: "uri_scheme u \<noteq> None \<Longrightarrow> from_parts U u = Inr u' \<Longrightarrow> u' = u"
    and parse_pq_split:
      "parse_pq U s = Some (p, q) \<Longrightarrow> prefix [slash] s \<Longrightarrow> CHR ''#'' \<notin> set s
       \<Longrightarrow> s = p @ (case q of Some x \<Rightarrow> CHR ''?'' # x | None \<Rightarrow> []) \<and> CHR ''?'' \<notin> set p"
begin

lemma parse_pq_back:
  assumes "parse_pq U (case q of Some x \<Rightarrow> path @ ''?'' @ x | None \<Rightarrow> path) = Some pq"
    and "prefix [slash] path" and "CHR ''?'' \<notin> set path" "CHR ''#'' \<notin> set path"
    and "\<forall>x. q = Some x \<longrightarrow> CHR ''#'' \<notin> set x"
  shows "pq = (path, q)"
proof -
  let ?s = "case q of Some x \<Rightarrow> path @ ''?'' @ x | None \<Rightarrow> path"
  obtain p q' where pq: "pq = (p, q')" by fastforce
  have "prefix [slash] ?s" "CHR ''#'' \<notin> set ?s" using assms by (auto split: option.splits)
  note split = parse_pq_split [OF assms(1) [unfolded pq] this]
  show ?thesis
  proof (cases q)
    case None
    then show ?thesis using split assms(3) pq by (auto split: option.splits)
  next
    case (Some x)
    then obtain y where y: "q' = Some y" using split assms(3) by (auto split: option.splits)
    then have "path @ CHR ''?'' # x = p @ CHR ''?'' # y" using split Some by simp
    then have "path = p \<and> x = y" using split assms(3) by (simp add: split_at_first)
    then show ?thesis using Some y pq by simp
  qed
qed

end

text \<open>An instance: text split at the first question mark, complete URIs only.\<close>

definition split_uris :: uri_ops where
  "split_uris =
     \<lparr>parse_pq = (\<lambda>s. if prefix [slash] s
                      then Some (takeWhile (\<lambda>c. c \<noteq> CHR ''?'') s,
                                 if CHR ''?'' \<in> set s then Some (drop 1 (dropWhile (\<lambda>c. c \<noteq> CHR ''?'') s)) else None)
                      else None),
      from_parts = (\<lambda>u. if uri_scheme u \<noteq> None \<and> uri_authority u \<noteq> None \<and> uri_path_and_query u \<noteq> None
                        then Inr u else Inl ''invalid uri'')\<rparr>"

interpretation split_uri: uri_parser split_uris
proof unfold_locales
  fix s p q
  assume a: "parse_pq split_uris s = Some (p, q)"
  show "s = p @ (case q of Some x \<Rightarrow> CHR ''?'' # x | None \<Rightarrow> []) \<and> CHR ''?'' \<notin> set p"
  proof (cases "CHR ''?'' \<in> set s")
    case True
    then obtain ys x where s: "s = ys @ CHR ''?'' # x" "CHR ''?'' \<notin> set ys" by (meson split_list_first)
    then have "\<forall>c \<in> set ys. c \<noteq> CHR ''?''" by metis
    then have w: "takeWhile (\<lambda>c. c \<noteq> CHR ''?'') s = ys" "dropWhile (\<lambda>c. c \<noteq> CHR ''?'') s = CHR ''?'' # x"
      using s(1) by (simp_all add: takeWhile_append2 dropWhile_append2)
    have "p = ys \<and> q = Some x" using a True unfolding split_uris_def uri_ops.simps w by (simp split: if_splits)
    then show ?thesis using s by simp
  next
    case False
    then have w: "takeWhile (\<lambda>c. c \<noteq> CHR ''?'') s = s" unfolding takeWhile_eq_all_conv by metis
    have "p = s \<and> q = None" using a False unfolding split_uris_def uri_ops.simps w by (simp split: if_splits)
    then show ?thesis using False by simp
  qed
qed (auto simp: split_uris_def split: if_splits)

lemma split_uris_ok: "uri_parser split_uris"
  by (rule split_uri.uri_parser_axioms)

text \<open>Normalising a path brings in no query or fragment delimiter.\<close>

lemma norm_loop_delims:
  assumes "d = CHR ''?'' \<or> d = CHR ''#''" and "d \<notin> set b"
  shows "d \<notin> set (norm_loop b)"
  using assms(2)
proof (induction b rule: norm_induct)
  case (Rewrite b n out)
  have hex: "d \<noteq> to_ascii_uppercase y" if "hex_val y \<noteq> None" for y
    using that assms(1)
    by (auto simp: hex_val_def to_ascii_uppercase_def ascii_defs byte_def split: if_splits dest!: arg_cong [where f = byte])
  have plain: "\<not> is_unreserved d" using assms(1) by (auto simp: is_unreserved_def ascii_defs byte_def)
  have "d \<notin> set out" using Rewrite(1)
    by (cases rule: rewrite_at_cases) (use hex plain assms(1) in auto)
  then show ?case using Rewrite by (auto simp: norm_loop_Some dest: in_set_dropD)
qed (simp_all add: norm_loop_None)

text \<open>A request target in origin or absolute form, as \<open>http::Uri\<close> presents it: delimiters split off.\<close>

definition target_ok :: "uri \<Rightarrow> bool" where
  "target_ok u \<longleftrightarrow> prefix [slash] (uri_path u) \<and> CHR ''?'' \<notin> set (uri_path u) \<and> CHR ''#'' \<notin> set (uri_path u)
     \<and> (case uri_query u of Some q \<Rightarrow> CHR ''#'' \<notin> set q | None \<Rightarrow> True)"

lemma strip_target:
  assumes "uri_parser U" and "target_ok u" and "strip_of r (uri_path u) = Inr strip"
    and "upstream_target U up u strip = Inr u'" and "uri_scheme (u_uri up) \<noteq> None"
    and "\<not> bad_path (uri_path u)"
  shows "u' = (u_uri up)\<lparr>uri_path_and_query := uri_path_and_query u'\<rparr> \<and> uri_query u' = uri_query u
    \<and> \<not> bad_path (uri_path u')
    \<and> (if r_strip_prefix r \<and> stripped_prefix r \<noteq> []
       then normalize (uri_path u) = stripped_prefix r @ uri_path u'
            \<or> normalize (uri_path u) = stripped_prefix r \<and> uri_path u' = [slash]
       else uri_path u' = uri_path u)"
proof (cases "r_strip_prefix r")
  case False
  then have "strip = None" using assms(3) by (simp add: strip_of_def)
  then have "u' = (u_uri up)\<lparr>uri_path_and_query := uri_path_and_query u\<rparr>"
    using assms(4,5) uri_parser.from_parts_keeps [OF assms(1)] by (auto simp: upstream_target_def split: sum.splits)
  then show ?thesis using False assms(6) by (auto simp: uri_path_def uri_query_def)
next
  case True
  then obtain p where p: "stripped_path r (uri_path u) = Some p" "strip = Some (p, stripped_prefix r)"
    using assms(3) by (auto simp: strip_of_def split: option.splits)
  have path: "CHR ''?'' \<notin> set (uri_path u)" "CHR ''#'' \<notin> set (uri_path u)" "prefix [slash] (uri_path u)"
    "\<forall>x. uri_query u = Some x \<longrightarrow> CHR ''#'' \<notin> set x" using assms(2) by (auto simp: target_ok_def)
  have np: "CHR ''?'' \<notin> set (normalize (uri_path u))" "CHR ''#'' \<notin> set (normalize (uri_path u))"
    unfolding normalize_loop by (rule norm_loop_delims; use path in simp)+
  have s: "if stripped_prefix r = [] then p = uri_path u
     else prefix [slash] p \<and> \<not> bad_path p \<and> (normalize (uri_path u) = stripped_prefix r @ p
            \<or> normalize (uri_path u) = stripped_prefix r \<and> p = [slash])"
    using p(1) by (auto simp: stripped_path_def Let_def strip_prefix_Some split: option.splits if_splits)
  then have clean: "prefix [slash] p" "CHR ''?'' \<notin> set p" "CHR ''#'' \<notin> set p"
    using path np by (auto split: if_splits)
  obtain pq where pq: "parse_pq U (case uri_query u of Some q \<Rightarrow> p @ ''?'' @ q | None \<Rightarrow> p) = Some pq"
    "from_parts U ((u_uri up)\<lparr>uri_path_and_query := Some pq\<rparr>) = Inr u'"
    using assms(4) p(2) by (auto simp: upstream_target_def Let_def split: option.splits sum.splits)
  then have "u' = (u_uri up)\<lparr>uri_path_and_query := Some (p, uri_query u)\<rparr>"
    using uri_parser.parse_pq_back [OF assms(1) pq(1) clean path(4)] assms(5)
      uri_parser.from_parts_keeps [OF assms(1)] by auto
  then show ?thesis using s True assms(6) by (auto simp: uri_path_def uri_query_def split: if_splits)
qed

text \<open>A sample proxy: one upstream behind a stripped prefix, its breaker freshly closed.\<close>

definition demo_upstream :: upstream where
  "demo_upstream =
     \<lparr>u_uri = sample_uri, u_name = ''a:81'', u_breaker = 0, u_health_path = None, u_health_disabled = False\<rparr>"

definition demo_table :: route_table where
  "demo_table = table_new [with_strip_prefix True (route_new ''/api'' demo_upstream)] (from_secs 10)"

definition demo_store :: "breaker \<Rightarrow> u64 \<Rightarrow> store" where
  "demo_store b now = \<lparr>breakers = [b], st_clock = now, st_log = []\<rparr>"

definition demo_state :: "breaker \<Rightarrow> u64 \<Rightarrow> proxy_state" where
  "demo_state b now = \<lparr>px_store = demo_store b now, px_records = [], px_warned = False, px_notes = []\<rparr>"

definition demo_request :: "string \<Rightarrow> string \<Rightarrow> (string \<times> string) list \<Rightarrow> bool \<Rightarrow> (string \<times> string) list request" where
  "demo_request method path h e =
     \<lparr>rq_method = method,
      rq_uri = \<lparr>uri_scheme = None, uri_authority = None, uri_host = None, uri_port = None,
                uri_path_and_query = Some (path, Some ''q=1'')\<rparr>,
      rq_version = HTTP_11, rq_headers = (''host'', ''example.org'') # h, rq_end_stream = e\<rparr>"

abbreviation demo_begin :: "(string \<times> string) list request \<Rightarrow> ((string \<times> string) list, unit) decision \<times> proxy_state" where
  "demo_begin rq \<equiv>
     handle_begin list_headers split_uris True demo_table (V4 0x05050505) ''https'' rq None 0 (demo_state default_breaker 5)"

text \<open>C2. Whatever the client asks for, a forwarded request goes to the upstream of the route that the
  raw path selects, and nowhere else: scheme, authority, host and port are the configured ones, the
  query is the client's, and the path holds nothing that \<open>bad_path\<close> refuses. It is the client's path
  as sent, or, on a \<open>strip_prefix\<close> route, its normal form without exactly the configured prefix.\<close>

theorem forwarded_target_safe:
  assumes "uri_parser U" and "target_ok (rq_uri rq)"
    and "\<forall>r \<in> set (routes t). uri_scheme (u_uri (r_upstream r)) \<noteq> None"
    and "handle_begin H U streaming t peer proto rq cx now s = (Forward fw, s')"
  shows "\<exists>r. lookup t (uri_path (rq_uri rq)) = Some r \<and> fw_upstream fw = r_upstream r
    \<and> (let raw = uri_path (rq_uri rq); u = rq_uri (fw_request fw) in
       u = (u_uri (r_upstream r))\<lparr>uri_path_and_query := uri_path_and_query u\<rparr>
       \<and> uri_query u = uri_query (rq_uri rq) \<and> \<not> bad_path (uri_path u)
       \<and> (if r_strip_prefix r \<and> stripped_prefix r \<noteq> []
          then normalize raw = stripped_prefix r @ uri_path u \<or> normalize raw = stripped_prefix r \<and> uri_path u = [slash]
          else uri_path u = raw))"
proof -
  obtain r strip u where f: "\<not> bad_path_normalized (uri_path (rq_uri rq))"
    "lookup t (uri_path (rq_uri rq)) = Some r" "strip_of r (uri_path (rq_uri rq)) = Inr strip"
    "upstream_target U (r_upstream r) (rq_uri rq) strip = Inr u"
    "fw_upstream fw = r_upstream r" "rq_uri (fw_request fw) = u"
    using assms(4) by (rule handle_begin_ForwardE) simp
  have "r \<in> set (routes t)" using f(2) by (auto simp: lookup_def Let_def find_Some_iff)
  then have "uri_scheme (u_uri (r_upstream r)) \<noteq> None" using assms(3) by blast
  moreover have "\<not> bad_path (uri_path (rq_uri rq))" using f(1) by (simp add: bad_path_normalized_def)
  ultimately show ?thesis
    using strip_target [OF assms(1,2) f(3,4)] f(2,5,6) unfolding Let_def by blast
qed

theorem forwarded_target_safe_witness:
  "\<exists>fw s'. demo_begin (demo_request ''GET'' ''/%61pi//x'' [] True) = (Forward fw, s')
     \<and> \<not> bad_path (uri_path (rq_uri (fw_request fw))) \<and> uri_path (rq_uri (fw_request fw)) = ''/x''
     \<and> uri_query (rq_uri (fw_request fw)) = Some ''q=1''"
proof -
  let ?d = "demo_begin (demo_request ''GET'' ''/%61pi//x'' [] True)"
  have "(case fst ?d of Forward fw \<Rightarrow> uri_path (rq_uri (fw_request fw)) | _ \<Rightarrow> []) = ''/x''" by code_simp
  then obtain fw s' where d: "?d = (Forward fw, s')" "uri_path (rq_uri (fw_request fw)) = ''/x''"
    by (cases ?d; cases "fst ?d") auto
  have t: "target_ok (rq_uri (demo_request ''GET'' ''/%61pi//x'' [] True))" by code_simp
  have r: "\<forall>r \<in> set (routes demo_table). uri_scheme (u_uri (r_upstream r)) \<noteq> None" by code_simp
  have q: "uri_query (rq_uri (demo_request ''GET'' ''/%61pi//x'' [] True)) = Some ''q=1''" by code_simp
  show ?thesis using forwarded_target_safe [OF split_uris_ok t r d(1)] d q unfolding Let_def by metis
qed

section \<open>The forwarded headers\<close>

lemma plain_names:
  "\<not> is_noncanonical_spelling ''host''" "\<not> is_noncanonical_spelling ''x-request-id''"
  "m \<in> set hop_by_hop_headers \<Longrightarrow> m \<notin> set trust_governed"
  "''host'' \<notin> set trust_governed" "''x-request-id'' \<notin> set trust_governed"
  "''host'' \<notin> set hop_by_hop_headers" "''x-request-id'' \<notin> set hop_by_hop_headers"
proof -
  show "\<not> is_noncanonical_spelling ''host''" by code_simp
  show "\<not> is_noncanonical_spelling ''x-request-id''" by code_simp
qed (auto simp: hop_by_hop_headers_def trust_governed_def)

context header_map
begin

lemma get_forwarded_prefix: "m \<noteq> ''x-forwarded-prefix'' \<Longrightarrow> hm_get_all H (set_forwarded_prefix H p h) m = hm_get_all H h m"
  by (simp add: set_forwarded_prefix_def Let_def get_try_insert)

lemma get_hop_headers:
  "m \<noteq> ''cookie'' \<Longrightarrow> hm_get_all H (hop_headers H rq) m = hm_get_all H (strip_hop_by_hop H (rq_headers rq)) m"
  by (simp add: hop_headers_def Let_def get_join_cookies)

lemma get_set_host: "m \<noteq> ''host'' \<Longrightarrow> hm_get_all H (set_host H u h) m = hm_get_all H h m"
  by (simp add: set_host_def get_try_insert split: option.split)

lemma host_once: "length (hm_get_all H h ''host'') \<le> 1 \<Longrightarrow> length (hm_get_all H (set_host H u h) ''host'') \<le> 1"
  by (simp add: set_host_def get_try_insert split: option.split)

lemma get_forward_governed:
  "m \<noteq> ''x-forwarded-prefix'' \<Longrightarrow>
   \<exists>ch h2. hm_get_all H (forward_headers H t r peer proto rq strip) m
     = hm_get_all H (apply_forwarded_headers H peer proto ch
         \<lparr>f_trusted = t_trusted_proxies t, f_forwarded_header = forwarded_header t, f_xff = t_xff_mode t\<rparr> h2) m"
  unfolding forward_headers_def Let_def by (auto simp: get_forwarded_prefix split: option.split)

lemma get_apply_other:
  assumes "m \<notin> set trust_governed"
  shows "hm_get_all H (apply_forwarded_headers H peer proto ch cfg h) m
    = (if is_noncanonical_spelling m then [] else hm_get_all H h m)"
  using assms
  by (cases "contains (f_trusted cfg) peer")
     (auto simp: trusted_get [OF _ refl] untrusted_get trust_governed_def untrusted_stripped_def)

lemma get_forward_other:
  assumes "m \<notin> set trust_governed"
  shows "hm_get_all H (forward_headers H t r peer proto rq strip) m
    = (if is_noncanonical_spelling m then []
       else hm_get_all H (set_host H (if r_rewrite_host r then u_uri (r_upstream r) else rq_uri rq) (hop_headers H rq)) m)"
proof -
  have "m \<noteq> ''x-forwarded-prefix''" using assms by (auto simp: trust_governed_def)
  then show ?thesis unfolding forward_headers_def Let_def
    by (auto simp: get_forwarded_prefix get_apply_other assms split: option.split)
qed

lemma forwarded_plain:
  assumes "m \<notin> set trust_governed" and "m \<noteq> ''host''" and "m \<noteq> ''cookie''"
  shows "hm_get_all H (forward_headers H t r peer proto rq strip) m
    = (if is_noncanonical_spelling m then [] else hm_get_all H (strip_hop_by_hop H (rq_headers rq)) m)"
  using assms by (simp add: get_forward_other get_set_host get_hop_headers)

lemma forwarded_host:
  assumes "\<not> bad_host H (rq_headers rq) u v"
  shows "length (hm_get_all H (forward_headers H t r peer proto rq strip) ''host'') \<le> 1"
proof -
  have "length (hm_get_all H (rq_headers rq) ''host'') \<le> 1"
    using assms by (auto simp: bad_host_def split: list.splits)
  then show ?thesis
    using host_once [of "hop_headers H rq"] by (simp add: get_forward_other plain_names get_hop_headers get_strip_hop_by_hop)
qed

lemma cookie_plain: "\<not> is_noncanonical_spelling ''cookie''" "''cookie'' \<notin> set trust_governed"
  by code_simp+

lemma forwarded_client:
  "\<exists>client. hm_get_all H (forward_headers H t r peer proto rq strip) ''x-real-ip'' = [show_ip (to_canonical client)]
     \<and> (\<not> contains (t_trusted_proxies t) peer \<longrightarrow> client = peer)"
  using get_forward_governed [of "''x-real-ip''" t r peer proto rq strip] trusted_get [OF _ refl] untrusted_get
  by (cases "contains (t_trusted_proxies t) peer") fastforce+

lemma get_forward:
  "m \<noteq> ''x-forwarded-prefix'' \<Longrightarrow>
   hm_get_all H (forward_headers H t r peer proto rq strip) m
   = hm_get_all H (apply_forwarded_headers H peer proto (client_host H t (rq_uri rq) (hop_headers H rq))
         \<lparr>f_trusted = t_trusted_proxies t, f_forwarded_header = forwarded_header t, f_xff = t_xff_mode t\<rparr>
         (set_host H (if r_rewrite_host r then u_uri (r_upstream r) else rq_uri rq) (hop_headers H rq))) m"
  unfolding forward_headers_def Let_def by (auto simp: get_forwarded_prefix split: option.split)

lemma get_fresh_prefix:
  "hm_get_all H h ''x-forwarded-prefix'' = [] \<Longrightarrow>
   hm_get_all H (set_forwarded_prefix H p h) ''x-forwarded-prefix'' = (if hv_from_str H p then [p] else [])"
  by (simp add: set_forwarded_prefix_def Let_def get_try_insert)

lemma forwarded_untrusted:
  assumes "\<not> contains (t_trusted_proxies t) peer"
  shows "hm_get_all H (forward_headers H t r peer proto rq strip) ''x-forwarded-proto'' = [proto]"
    and "n \<in> {''x-forwarded-host'', ''x-forwarded-ssl'', ''x-forwarded-scheme'', ''x-forwarded-port''} \<Longrightarrow>
      hm_get_all H (forward_headers H t r peer proto rq strip) n = []"
    and "hm_get_all H (forward_headers H t r peer proto rq strip) ''forwarded'' =
      (let own = forwarded_element peer proto (client_host H t (rq_uri rq) (hop_headers H rq)) in
       if forwarded_header t \<and> hv_from_str H own then [own] else [])"
    and "hm_get_all H (forward_headers H t r peer proto rq strip) ''x-forwarded-for'' =
      [case t_xff_mode t of
         Replace \<Rightarrow> show_ip (to_canonical peer)
       | Append \<Rightarrow> join_with '', '' (filter (hv_to_str H)
             (if ''x-forwarded-for'' \<in> set (connection_names H (rq_headers rq)) then []
              else hm_get_all H (rq_headers rq) ''x-forwarded-for'') @ [show_ip peer])]"
  using assms
  by (auto simp: get_forward untrusted_get untrusted_stripped_def Let_def xff_value_join
      get_set_host get_hop_headers get_strip_hop_by_hop hop_by_hop_headers_def split: xff_mode.split)

lemma forwarded_untrusted_prefix:
  assumes "\<not> contains (t_trusted_proxies t) peer" and "strip_of r path = Inr strip"
  shows "hm_get_all H (forward_headers H t r peer proto rq strip) ''x-forwarded-prefix'' =
    (if r_strip_prefix r \<and> stripped_prefix r \<noteq> [] \<and> hv_from_str H (stripped_prefix r)
     then [stripped_prefix r] else [])"
  using assms unfolding forward_headers_def Let_def
  by (auto simp: strip_of_def get_fresh_prefix untrusted_get untrusted_stripped_def split: option.splits if_splits)

lemma forwarded_host_exact:
  "hm_get_all H (forward_headers H t r peer proto rq strip) ''host'' =
     (let u = if r_rewrite_host r then u_uri (r_upstream r) else rq_uri rq in
      if uri_authority u \<noteq> None \<and> hv_from_str H (host_port u) then [host_port u]
      else hm_get_all H (rq_headers rq) ''host'')"
  by (simp add: get_forward_other plain_names set_host_def get_try_insert get_hop_headers
      get_strip_hop_by_hop Let_def split: option.split)

lemma forwarded_host_one:
  assumes "\<not> bad_host H (rq_headers rq) (rq_uri rq) (rq_version rq)"
    and "rq_version rq = HTTP_11 \<and> uri_authority (rq_uri rq) = None"
  shows "length (hm_get_all H (forward_headers H t r peer proto rq strip) ''host'') = 1"
  using assms by (auto simp: forwarded_host_exact Let_def bad_host_def split: list.splits)

lemma forwarded_other:
  assumes "m \<notin> {''host'', ''cookie'', ''x-request-id''} \<union> set trust_governed"
  shows "hm_get_all H (forward_headers H t r peer proto rq strip) m =
    (if m \<in> set hop_by_hop_headers \<or> m \<in> set (connection_names H (rq_headers rq)) \<or> cgi_name m \<in> set trust_governed
     then [] else hm_get_all H (rq_headers rq) m)"
  using assms by (auto simp: forwarded_plain get_strip_hop_by_hop noncanonical_spelling)

lemma forwarded_hop: "list_all (\<lambda>n. hm_get_all H (forward_headers H t r peer proto rq strip) n = []) hop_by_hop_headers"
proof -
  have "hm_get_all H (forward_headers H t r peer proto rq strip) n = []" if "n \<in> set hop_by_hop_headers" for n
    using that plain_names(3) [of n] forwarded_plain [of n] by (auto simp: get_strip_hop_by_hop hop_by_hop_headers_def)
  then show ?thesis by (simp add: list_all_iff)
qed

lemma forwarded_same_id:
  "hm_get_all H (forward_headers H t r peer proto rq strip) ''x-request-id'' = hm_get_all H (rq_headers rq) ''x-request-id''"
  by (simp add: forwarded_plain plain_names get_strip_hop_by_hop)

lemma forwarded_disguised:
  "cgi_name m \<in> set trust_governed \<and> m \<notin> set trust_governed \<Longrightarrow>
   hm_get_all H (forward_headers H t r peer proto rq strip) m = []"
  by (simp add: get_forward_other noncanonical_spelling)

lemma forwarded_cookie:
  "hm_get_all H (forward_headers H t r peer proto rq strip) ''cookie''
   \<in> {[], hm_get_all H (rq_headers rq) ''cookie'', [join_with ''; '' (hm_get_all H (rq_headers rq) ''cookie'')]}"
  by (simp add: get_forward_other get_set_host cookie_plain hop_headers_def Let_def get_join_cookies get_strip_hop_by_hop)

end

text \<open>C1. Every header an upstream sees has been vetted, end to end. None of the eight hop-by-hop headers
  is left. \<open>Host\<close> is the authority of the upstream on a route that rewrites it, else that of an
  absolute target, else the client's own; there is at most one, and exactly one for an HTTP/1.1 request
  that had to bring it. The request id is the one the handler put there, and there is exactly one
  \<open>X-Real-IP\<close>. For a peer that is not a trusted proxy it is the peer; the scheme is the connection's;
  \<open>X-Forwarded-For\<close> is the peer alone, or the client's own text values and then the peer, separated by
  commas; \<open>Forwarded\<close> is the proxy's own element or absent, \<open>X-Forwarded-Prefix\<close> the prefix just
  stripped or absent, and the other four forwarding headers are absent. A header that a CGI backend
  could mistake for a forwarding header is gone, whoever sent it. Cookies are the client's, as they
  were or joined into one, and every other header is the client's, unchanged, unless it is named in
  \<open>Connection\<close>: none is invented and none altered.\<close>

theorem forwarded_headers_vetted:
  assumes "header_map H" and "handle_begin H U streaming t peer proto rq cx now s = (Forward fw, s')"
    and "h' = rq_headers (fw_request fw)"
  shows "let hop = [''connection'', ''keep-alive'', ''proxy-authenticate'', ''proxy-authorization'', ''te'',
                    ''trailer'', ''transfer-encoding'', ''upgrade''];
             governed = [''forwarded'', ''x-forwarded-for'', ''x-forwarded-host'', ''x-forwarded-proto'',
                         ''x-forwarded-port'', ''x-forwarded-ssl'', ''x-forwarded-scheme'',
                         ''x-forwarded-prefix'', ''x-real-ip''];
             got = hm_get_all H h'; sent = hm_get_all H (rq_headers rq);
             named = connection_names H (rq_headers rq) in
    list_all (\<lambda>n. got n = []) hop
    \<and> (\<exists>r. lookup t (uri_path (rq_uri rq)) = Some r
         \<and> got ''host'' =
             (let u = if r_rewrite_host r then u_uri (r_upstream r) else rq_uri rq in
              if uri_authority u \<noteq> None \<and> hv_from_str H (host_port u) then [host_port u] else sent ''host'')
         \<and> (\<not> contains (t_trusted_proxies t) peer \<longrightarrow>
              got ''x-forwarded-prefix'' =
                (if r_strip_prefix r \<and> stripped_prefix r \<noteq> [] \<and> hv_from_str H (stripped_prefix r)
                 then [stripped_prefix r] else [])))
    \<and> length (got ''host'') \<le> 1
    \<and> (rq_version rq = HTTP_11 \<and> uri_authority (rq_uri rq) = None \<longrightarrow> length (got ''host'') = 1)
    \<and> got ''x-request-id'' = sent ''x-request-id''
    \<and> (\<exists>client. got ''x-real-ip'' = [show_ip (to_canonical client)]
         \<and> (\<not> contains (t_trusted_proxies t) peer \<longrightarrow> client = peer))
    \<and> (\<not> contains (t_trusted_proxies t) peer \<longrightarrow>
         got ''x-forwarded-proto'' = [proto]
         \<and> got ''x-forwarded-for'' =
             [case t_xff_mode t of
                Replace \<Rightarrow> show_ip (to_canonical peer)
              | Append \<Rightarrow> join_with '', '' (filter (hv_to_str H)
                    (if ''x-forwarded-for'' \<in> set named then [] else sent ''x-forwarded-for'') @ [show_ip peer])]
         \<and> (\<exists>ch. got ''forwarded'' =
               (let own = forwarded_element peer proto ch in
                if forwarded_header t \<and> hv_from_str H own then [own] else []))
         \<and> list_all (\<lambda>n. got n = [])
             [''x-forwarded-host'', ''x-forwarded-ssl'', ''x-forwarded-scheme'', ''x-forwarded-port''])
    \<and> (\<forall>m. cgi_name m \<in> set governed \<and> m \<notin> set governed \<longrightarrow> got m = [])
    \<and> got ''cookie'' \<in> {[], sent ''cookie'', [join_with ''; '' (sent ''cookie'')]}
    \<and> (\<forall>m. m \<notin> {''host'', ''cookie'', ''x-request-id''} \<union> set governed \<longrightarrow>
          got m = (if m \<in> set hop \<or> m \<in> set named \<or> cgi_name m \<in> set governed then [] else sent m))"
proof -
  obtain r strip where h: "\<not> bad_host H (rq_headers rq) (rq_uri rq) (rq_version rq)"
    "h' = forward_headers H t r peer proto rq strip" "lookup t (uri_path (rq_uri rq)) = Some r"
    "strip_of r (uri_path (rq_uri rq)) = Inr strip"
    using assms(2) by (rule handle_begin_ForwardE) (simp add: assms(3))
  note f = header_map.forwarded_untrusted [OF assms(1), where t = t and peer = peer and r = r and proto = proto and rq = rq and strip = strip]
    and p = header_map.forwarded_untrusted_prefix [OF assms(1) _ h(4), of t peer proto rq]
  note out = header_map.forwarded_hop [OF assms(1)] header_map.forwarded_host [OF assms(1) h(1)]
    header_map.forwarded_host_one [OF assms(1) h(1)] header_map.forwarded_same_id [OF assms(1)]
    header_map.forwarded_client [OF assms(1)] header_map.forwarded_disguised [OF assms(1)]
    header_map.forwarded_cookie [OF assms(1)] header_map.forwarded_other [OF assms(1)]
  show ?thesis
    unfolding Let_def hop_by_hop_headers_def [symmetric] trust_governed_def [symmetric] h(2)
    by (intro conjI impI allI exI [of _ r] h(3) out f p header_map.forwarded_host_exact [OF assms(1), unfolded Let_def]
        exI [of _ "client_host H t (rq_uri rq) (hop_headers H rq)"]) (simp_all add: f Let_def)
qed

theorem forwarded_headers_vetted_witness:
  "\<exists>fw s'. demo_begin (demo_request ''GET'' ''/api/x'' [(''x-real-ip'', ''6.6.6.6''), (''x_forwarded_for'', ''6.6.6.6''),
       (''te'', ''trailers''), (''accept'', ''*''), (''x-forwarded-host'', ''evil'')] True) = (Forward fw, s')
     \<and> length (hm_get_all list_headers (rq_headers (fw_request fw)) ''host'') \<le> 1
     \<and> rq_headers (fw_request fw) =
         [(''host'', ''example.org''), (''accept'', ''*''), (''x-forwarded-proto'', ''https''),
          (''x-real-ip'', ''5.5.5.5''), (''x-forwarded-for'', ''5.5.5.5''), (''x-forwarded-prefix'', ''/api'')]"
proof -
  let ?d = "demo_begin (demo_request ''GET'' ''/api/x'' [(''x-real-ip'', ''6.6.6.6''), (''x_forwarded_for'', ''6.6.6.6''),
       (''te'', ''trailers''), (''accept'', ''*''), (''x-forwarded-host'', ''evil'')] True)"
  let ?h = "[(''host'', ''example.org''), (''accept'', ''*''), (''x-forwarded-proto'', ''https''),
          (''x-real-ip'', ''5.5.5.5''), (''x-forwarded-for'', ''5.5.5.5''), (''x-forwarded-prefix'', ''/api'')]"
  have "(case fst ?d of Forward fw \<Rightarrow> rq_headers (fw_request fw) | _ \<Rightarrow> []) = ?h" by code_simp
  then obtain fw s' where d: "?d = (Forward fw, s')" "rq_headers (fw_request fw) = ?h"
    by (cases ?d; cases "fst ?d") auto
  have "length (hm_get_all list_headers (rq_headers (fw_request fw)) ''host'') \<le> 1"
    using forwarded_headers_vetted [OF list_headers_ok d(1) refl] unfolding Let_def by blast
  then show ?thesis using d by blast
qed

end
