(* ===== verification/Proxy_Outcome.thy ===== *)
theory Proxy_Outcome
  imports Proxy_Props
begin

text \<open>
  What a request leaves behind: its record in the metrics and the access log, the verdict its
  admission brings to the breaker, and when a timeout is held against the upstream.
\<close>

section \<open>The two ways to an answer\<close>

lemma handle_coreE:
  fixes rs :: "('h, 'b) response"
  assumes "handle_core H U ready world streaming t peer proto rq cx now s = Some (rs, s')"
  obtains (answered) "handle_begin H U streaming t peer proto rq cx now s = (Answer rs, s')"
  | (forwarded) fw s1 hs reply later s2 tm st res where
      "handle_begin H U streaming t peer proto rq cx now s = ((Forward fw, s1) :: (_, 'b) decision \<times> _)"
      "world fw s1 = (hs, reply, later, s2)" "await ready hs (fw_body fw) = (tm, st)"
      "select reply tm = Some res" "handle_finish H cx fw res (stalled t later st) s2 = (rs, s')"
  using assms by (auto simp: handle_core_def split: prod.splits decision.splits)

section \<open>Answers without forwarding\<close>

lemma handle_begin_Answer:
  assumes "handle_begin H U streaming t peer proto rq cx now s = (Answer rs, s')"
  obtains (unchanged) "rs_status rs \<in> {200, 400, 404, 501}" "px_store s' = px_store s"
  | (refused) r where "lookup t (uri_path (rq_uri rq)) = Some r" "rs_status rs = 503"
      "upstream_try_acquire (r_upstream r) (px_store s) = (None, px_store s')"
  | (handed_back) r adm st where "lookup t (uri_path (rq_uri rq)) = Some r" "rs_status rs \<in> {400, 502}"
      "upstream_try_acquire (r_upstream r) (px_store s) = (Some adm, st)"
      "px_store s' = upstream_release adm (r_upstream r) st"
  using assms
  by (auto simp: handle_begin_def admitted_def upstream_target_def Let_def refuse_def record_req_def record_len_def
      error_response_def on_store_def split: if_splits option.splits sum.splits prod.splits)

lemma handle_begin_Answer_record:
  assumes "handle_begin H U streaming t peer proto rq cx now s = (Answer rs, s')"
  shows "\<exists>rt up. px_records s' = px_records s @
    [\<lparr>rr_access = cx, rr_route = rt, rr_upstream = up, rr_status = rs_status rs, rr_bytes_out = None\<rparr>]"
  using assms
  by (auto simp: handle_begin_def admitted_def Let_def refuse_def record_req_def record_len_def
      error_response_def on_store_def split: if_splits option.splits sum.splits prod.splits)

lemma take_note_simps [simp]:
  "px_store (take_note n s) = px_store s" "px_records (take_note n s) = px_records s"
  by (simp_all add: take_note_def)

lemma handle_finish_record:
  "\<exists>bytes. px_records (snd (handle_finish H cx fw res stall s)) = px_records s @
     [\<lparr>rr_access = cx, rr_route = fw_route fw, rr_upstream = u_name (fw_upstream fw),
       rr_status = rs_status (fst (handle_finish H cx fw res stall s)), rr_bytes_out = bytes\<rparr>]"
  by (simp add: handle_finish_def Let_def record_len_def split: option.split client_result.split)

section \<open>Every request is recorded\<close>

text \<open>C17. A request that is answered is recorded exactly once, with its own access log data and with the
  very status the client is sent, whichever way it was answered. One that is answered without being
  forwarded leaves the records as they were but for its own at the end. One that is forwarded records
  nothing before the exchange with the upstream, and one record after it, under its route and upstream:
  what other requests recorded meanwhile is in the records the exchange ended with.\<close>

theorem every_answer_recorded:
  fixes rs :: "('h, 'b) response"
  assumes "handle_core H U ready world streaming t peer proto rq cx now s = Some (rs, s')"
  shows "\<exists>route upstream bytes.
    (let r = \<lparr>rr_access = cx, rr_route = route, rr_upstream = upstream, rr_status = rs_status rs, rr_bytes_out = bytes\<rparr> in
     case (handle_begin H U streaming t peer proto rq cx now s :: ('h, 'b) decision \<times> proxy_state) of
       (Answer _, _) \<Rightarrow> px_records s' = px_records s @ [r]
     | (Forward fw, s1) \<Rightarrow>
         (let (hs, reply, later, s2) = world fw s1 in
          px_records s1 = px_records s \<and> px_records s' = px_records s2 @ [r]
          \<and> route = fw_route fw \<and> upstream = u_name (fw_upstream fw)))"
  using assms
proof (cases rule: handle_coreE)
  case answered
  from handle_begin_Answer_record [OF this] show ?thesis using answered by (auto simp: Let_def)
next
  case (forwarded fw s1 hs reply later s2 tm st res)
  have "px_records s1 = px_records s" using forwarded(1) by (rule handle_begin_ForwardE) simp
  moreover obtain bytes where "px_records s' = px_records s2 @
     [\<lparr>rr_access = cx, rr_route = fw_route fw, rr_upstream = u_name (fw_upstream fw),
       rr_status = rs_status rs, rr_bytes_out = bytes\<rparr>]"
    using handle_finish_record [of H cx fw res "stalled t later st" s2] unfolding forwarded(5) by auto
  ultimately show ?thesis using forwarded(1,2) by (auto simp: Let_def)
qed

text \<open>A world in which the upstream answers at once, with a given status.\<close>

definition answering :: "nat \<Rightarrow> ((string \<times> string) list, unit) world" where
  "answering status fw s =
     ([], Some (Client_response \<lparr>rs_status = status, rs_headers = [(''content-length'', ''5'')], rs_body = Streamed ()\<rparr>),
      1000000, s)"

abbreviation demo_core :: "nat \<Rightarrow> (string \<times> string) list request \<Rightarrow> proxy_state
    \<Rightarrow> (((string \<times> string) list, unit) response \<times> proxy_state) option" where
  "demo_core status rq s \<equiv>
     handle_core list_headers split_uris (\<lambda>d n. d \<le> n) (answering status) True demo_table (V4 0x05050505) ''https''
       rq None 0 s"

theorem every_answer_recorded_witness:
  "\<exists>rs s' bytes. demo_core 200 (demo_request ''GET'' ''/api/x'' [] True) (demo_state default_breaker 5) = Some (rs, s')
     \<and> px_records s' = [\<lparr>rr_access = None, rr_route = ''/api'', rr_upstream = ''a:81'', rr_status = 200, rr_bytes_out = bytes\<rparr>]"
proof -
  let ?rq = "demo_request ''GET'' ''/api/x'' [] True" and ?s = "demo_state default_breaker 5"
  let ?c = "demo_core 200 ?rq ?s" and ?d = "demo_begin ?rq"
  have "map_option (rs_status \<circ> fst) ?c = Some 200" by code_simp
  then obtain rs s' where c: "?c = Some (rs, s')" "rs_status rs = 200" by auto
  have "(case fst ?d of Forward fw \<Rightarrow> (fw_route fw, u_name (fw_upstream fw)) | _ \<Rightarrow> ([], [])) = (''/api'', ''a:81'')" by code_simp
  then obtain fw s1 where d: "?d = (Forward fw, s1)" "fw_route fw = ''/api''" "u_name (fw_upstream fw) = ''a:81''"
    by (cases ?d; cases "fst ?d") auto
  have "px_records ?s = []" by (simp add: demo_state_def)
  then show ?thesis using every_answer_recorded [OF c(1)] c d by (auto simp: answering_def Let_def)
qed

section \<open>Every admission is settled\<close>

datatype verdict = Praised | Blamed | Handed_back | Unsettled

fun settle :: "verdict \<Rightarrow> admission \<Rightarrow> upstream \<Rightarrow> store \<Rightarrow> store" where
  "settle Praised a u = upstream_record_success a u"
| "settle Blamed a u = upstream_record_failure a u"
| "settle Handed_back a u = upstream_release a u"
| "settle Unsettled a u = (\<lambda>s. s)"

text \<open>The client's own failures in the chain of an error.\<close>

definition clients_fault :: "err_link list \<Rightarrow> bool" where
  "clients_fault e \<longleftrightarrow> list_ex (\<lambda>l. l \<in> {Body_idle, Body_total, Hyper True}) e"

lemma clients_fault_iff: "clients_fault e \<longleftrightarrow> is_body_idle_timeout e \<or> is_client_body_error e"
  by (induction e) (auto simp: clients_fault_def)

definition gateway_error :: "nat \<Rightarrow> bool" where
  "gateway_error st \<longleftrightarrow> 502 \<le> st \<and> st \<le> 504"

definition verdict_of :: "bool \<Rightarrow> bool \<Rightarrow> ('h, 'b) client_result option \<Rightarrow> verdict" where
  "verdict_of counts stall res =
     (case res of
        None \<Rightarrow> if counts then Blamed else Unsettled
      | Some (Client_response rs) \<Rightarrow>
          if \<not> gateway_error (rs_status rs) then Praised else if stall then Handed_back else Blamed
      | Some (Client_error e) \<Rightarrow> if clients_fault e \<or> stall then Handed_back else Blamed)"

lemma finish_verdict:
  "px_store (snd (handle_finish H cx fw res stall s))
   = settle (verdict_of (fw_counts_timeout fw) stall res) (fw_admission fw) (fw_upstream fw) (px_store s)"
  by (auto simp: handle_finish_def verdict_of_def clients_fault_iff gateway_error_def Let_def record_len_def
      split: option.split client_result.split)

text \<open>C6. A handler that runs to its answer settles the admission it took, by exactly one call on the
  breaker that gave it. If it answers without forwarding, it either took none (the breakers are left as
  they were), or was refused one (503), or hands it back at once, because the upstream's URI cannot be
  built (400 or 502). If it forwards, the admission is the one the breaker just gave, and once the
  exchange is over the verdict is fair: success for every response but 502, 503 and 504; a failure only
  for those, for a transport error that is not the client's doing, or for a timeout; and none where the
  client's upload failed or stalled. Of the handlers that run to their answer only the deprecated \<open>handle\<close>
  leaves an admission unsettled, on a timeout of a request with a body. (A handler that is dropped
  before its answer, as when the client hangs up, settles nothing, streaming or not: that is
  \<open>gw_gone\<close> of theory \<open>Gateway\<close>.)\<close>

theorem admission_settled:
  fixes d :: "('h, 'b) decision" and res :: "('h, 'b) client_result option"
  assumes "handle_begin H U streaming t peer proto rq cx now s = (d, s1)"
  shows "case d of
      Answer rs \<Rightarrow>
        rs_status rs \<in> {200, 400, 404, 501} \<and> px_store s1 = px_store s
        \<or> (\<exists>r. lookup t (uri_path (rq_uri rq)) = Some r
             \<and> (case upstream_try_acquire (r_upstream r) (px_store s) of
                  (None, st) \<Rightarrow> rs_status rs = 503 \<and> px_store s1 = st
                | (Some adm, st) \<Rightarrow>
                    rs_status rs \<in> {400, 502} \<and> px_store s1 = settle Handed_back adm (r_upstream r) st))
    | Forward fw \<Rightarrow>
        upstream_try_acquire (fw_upstream fw) (px_store s) = (Some (fw_admission fw), px_store s1)
        \<and> (\<exists>v. px_store (snd (handle_finish H cx fw res stall s2))
                = settle v (fw_admission fw) (fw_upstream fw) (px_store s2)
            \<and> (v = Praised \<longleftrightarrow> (\<exists>up. res = Some (Client_response up) \<and> \<not> gateway_error (rs_status up)))
            \<and> (v = Blamed \<longleftrightarrow> res = None \<and> (streaming \<or> rq_end_stream rq)
                \<or> \<not> stall \<and> (\<exists>up. res = Some (Client_response up) \<and> gateway_error (rs_status up))
                \<or> \<not> stall \<and> (\<exists>e. res = Some (Client_error e) \<and> \<not> clients_fault e))
            \<and> (v = Unsettled \<longleftrightarrow> res = None \<and> \<not> streaming \<and> \<not> rq_end_stream rq))"
proof (cases d)
  case (Answer rs)
  from assms [unfolded this] show ?thesis by (rule handle_begin_Answer) (use Answer in auto)
next
  case (Forward fw)
  note fwd = assms [unfolded this]
  have counts: "fw_counts_timeout fw \<longleftrightarrow> streaming \<or> rq_end_stream rq"
    using fwd by (rule handle_begin_ForwardE) (auto simp: wrap_def)
  have adm: "upstream_try_acquire (fw_upstream fw) (px_store s) = (Some (fw_admission fw), px_store s1)"
    using fwd by (rule handle_begin_ForwardE) simp
  show ?thesis unfolding Forward decision.case
    by (rule conjI [OF adm], rule exI [of _ "verdict_of (fw_counts_timeout fw) stall res"], intro conjI)
       (use finish_verdict [of H cx fw res stall s2] in
        \<open>auto simp: verdict_of_def counts split: option.splits client_result.splits if_splits\<close>)
qed

theorem admission_settled_witness:
  "\<exists>fw s1. demo_begin (demo_request ''GET'' ''/api/x'' [] True) = (Forward fw, s1)
     \<and> px_store (snd (handle_finish list_headers None fw (Some (Client_error [Other_error, Body_idle])) False s1 ::
           ((string \<times> string) list, unit) response \<times> proxy_state))
       = settle Handed_back (fw_admission fw) (fw_upstream fw) (px_store s1)"
proof -
  let ?d = "demo_begin (demo_request ''GET'' ''/api/x'' [] True)"
  have "case fst ?d of Forward fw \<Rightarrow> True | _ \<Rightarrow> False" by code_simp
  then obtain fw s1 where d: "?d = (Forward fw, s1)" by (cases ?d; cases "fst ?d") auto
  have f: "clients_fault [Other_error, Body_idle]" by (simp add: clients_fault_def)
  let ?res = "Some (Client_error [Other_error, Body_idle]) :: ((string \<times> string) list, unit) client_result option"
  from admission_settled [OF d, where res = ?res and stall = False and ?s2.0 = s1] obtain v where
    v: "px_store (snd (handle_finish list_headers None fw ?res False s1)) = settle v (fw_admission fw) (fw_upstream fw) (px_store s1)"
    "v \<noteq> Praised" "v \<noteq> Blamed" "v \<noteq> Unsettled" using f by auto
  then have "v = Handed_back" by (cases v) auto
  then show ?thesis using d v(1) by auto
qed

section \<open>Timeouts of a streamed request\<close>

lemma timer_final:
  assumes "fold (happen ready) hs (Await_body, b0) = (Final, b)"
  shows "\<exists>pre suf b1. hs = pre @ Fired Eos_ok # suf \<and> fold (happen ready) pre (Await_body, b0) = (Await_body, b1)"
  using assms
proof (induction hs arbitrary: b rule: rev_induct)
  case (snoc h hs)
  obtain t1 b1 where f: "fold (happen ready) hs (Await_body, b0) = (t1, b1)" by fastforce
  then have step: "happen ready h (t1, b1) = (Final, b)" using snoc.prems by simp
  show ?case
  proof (cases "t1 = Final")
    case True
    with snoc.IH f obtain pre suf b2 where "hs = pre @ Fired Eos_ok # suf"
      "fold (happen ready) pre (Await_body, b0) = (Await_body, b2)" by blast
    then show ?thesis by (intro exI [of _ pre] exI [of _ "suf @ [h]"]) simp
  next
    case False
    then obtain ev where h: "h = Fired ev" using step by (cases h) auto
    then have "t1 = Await_body \<and> ev = Eos_ok" using step False by (cases t1; cases ev) (auto split: if_splits)
    then show ?thesis using f h by blast
  qed
qed simp

lemma never_legacy: "fst (fold (happen ready) hs (Await_body, b)) \<noteq> Legacy"
proof (induction hs rule: rev_induct)
  case (snoc h hs)
  obtain t1 b1 where f: "fold (happen ready) hs (Await_body, b) = (t1, b1)" by fastforce
  have "fst (timer_step t1 ev s) \<noteq> Legacy" for ev s using snoc f by (cases t1; cases ev) auto
  then show ?case using snoc f by (cases h) (auto simp: case_prod_beta Let_def)
qed simp

lemma timer_expired:
  assumes "fold (happen ready) hs (Await_body, b0) = (Expired, b)"
  shows "(\<exists>pre suf b1. hs = pre @ Fired Eos_ok # suf \<and> Fired Window \<in> set suf
            \<and> fold (happen ready) pre (Await_body, b0) = (Await_body, b1))
    \<or> (\<exists>pre suf b1 b2. hs = pre @ Fired Window # suf \<and> fold (happen ready) pre (Await_body, b0) = (Await_body, b1)
         \<and> happen ready (Fired Window) (Await_body, b1) = (Expired, b2))"
  using assms
proof (induction hs arbitrary: b rule: rev_induct)
  case (snoc h hs)
  obtain t1 b1 where f: "fold (happen ready) hs (Await_body, b0) = (t1, b1)" by fastforce
  then have step: "happen ready h (t1, b1) = (Expired, b)" using snoc.prems by simp
  consider "t1 = Expired" | "t1 = Final" "h = Fired Window" | "t1 = Await_body" "h = Fired Window"
  proof (cases h)
    case (Fired ev)
    have "t1 \<noteq> Legacy" using never_legacy [of ready hs b0] f by simp
    then show ?thesis using step Fired that by (cases t1; cases ev) (auto split: if_splits)
  qed (use step that in auto)
  then show ?case
  proof cases
    case 1
    then have "fold (happen ready) hs (Await_body, b0) = (Expired, b1)" using f by simp
    from snoc.IH [OF this] show ?thesis
    proof (elim disjE exE conjE, goal_cases)
      case (1 pre suf b2)
      then show ?case by (intro disjI1 exI [of _ pre] exI [of _ "suf @ [h]"]) simp
    next
      case (2 pre suf b2 b3)
      then show ?case by (intro disjI2 exI [of _ pre] exI [of _ "suf @ [h]"]) simp
    qed
  next
    case 2
    with timer_final [of ready hs b0 b1] f obtain pre suf b2 where "hs = pre @ Fired Eos_ok # suf"
      "fold (happen ready) pre (Await_body, b0) = (Await_body, b2)" by auto
    then show ?thesis using 2 by (intro disjI1 exI [of _ pre] exI [of _ "suf @ [h]"]) simp
  next
    case 3
    then show ?thesis using f step by (intro disjI2 exI [of _ hs] exI [of _ "[]"]) simp
  qed
qed simp

text \<open>The end of the body is signalled only by a poll that completes it.\<close>

lemma poll_frame_signals:
  "rb_signalled (snd (poll_frame ready now answers b)) \<Longrightarrow> rb_signalled b \<or> completes answers"
proof -
  assume a: "rb_signalled (snd (poll_frame ready now answers b))"
  let ?b1 = "b\<lparr>rb_state := (rb_state b)\<lparr>polled := True\<rparr>\<rparr>"
  show ?thesis
  proof (cases "rb_deadline b \<le> now")
    case False
    then have "rb_signalled (snd (poll_inner ready now answers ?b1))" using a by (simp add: poll_frame_def)
    then show ?thesis
      using poll_pending_fields(4) [OF prod.collapse [symmetric], of ready now ?b1]
      by (cases answers ready now ?b1 rule: poll_inner_cases) (auto simp: completes_def send_eos_def signal_if_done_def split: if_splits)
  qed (use a in \<open>simp add: poll_frame_def\<close>)
qed

definition uploaded :: "happening list \<Rightarrow> bool" where
  "uploaded hs \<longleftrightarrow> list_ex (\<lambda>h. case h of Polled _ a \<Rightarrow> completes a | Fired _ \<Rightarrow> False) hs"

lemma signalled_uploaded:
  "rb_signalled (snd (fold (happen ready) hs (t, b))) \<Longrightarrow> rb_signalled b \<or> uploaded hs"
proof (induction hs rule: rev_induct)
  case (snoc h hs)
  then show ?case
    using poll_frame_signals
    by (cases h; cases "fold (happen ready) hs (t, b)") (auto simp: uploaded_def case_prod_beta Let_def)
qed simp

text \<open>The channel delivers the end of the body only if it was sent.\<close>

definition eos_honest :: "(duration \<Rightarrow> duration \<Rightarrow> bool) \<Rightarrow> happening list \<Rightarrow> request_body \<Rightarrow> bool" where
  "eos_honest ready hs b \<longleftrightarrow>
     (\<forall>pre suf. hs = pre @ Fired Eos_ok # suf \<longrightarrow> rb_signalled (snd (fold (happen ready) pre (timer_new True, b))))"

text \<open>C16. With the streaming handler a timeout is held against the upstream only for what the upstream does.
  When the timer runs out, either the whole request body had been handed over first and a whole
  \<open>upstream_timeout\<close> passed after it, or a whole window passed in which hyper did not once ask for more
  of the body although the client was not the one it had last been waiting for.\<close>

theorem timeout_is_upstreams_fault:
  assumes "handle_begin H U True t peer proto rq cx now s = (Forward fw, s1)"
    and "fw_body fw = Some b0" and "eos_honest ready hs b0" and "fst (await ready hs (fw_body fw)) = Expired"
  shows "(\<exists>pre suf. hs = pre @ Fired Eos_ok # suf \<and> (rq_end_stream rq \<or> uploaded pre) \<and> Fired Window \<in> set suf)
    \<or> (\<exists>pre suf. hs = pre @ Fired Window # suf \<and> no_poll_in_window pre
         \<and> (let as = accepted_polls (now + request_body_timeout t) pre in as = [] \<or> seen_answer (last as) \<noteq> None))"
proof -
  have b0: "b0 = request_body_new (rq_end_stream rq) (request_body_idle_timeout t) (request_body_timeout t) now"
    using assms(1) by (rule handle_begin_ForwardE) (use assms(2) in \<open>simp add: wrap_def\<close>)
  then have new: "rb_signalled b0 \<longleftrightarrow> rq_end_stream rq" "rb_deadline b0 = now + request_body_timeout t"
    "\<not> polled (rb_state b0)" "\<not> waiting_on_client (rb_state b0)"
    by (auto simp: request_body_new_def signal_if_done_def send_eos_def)
  obtain b where "fold (happen ready) hs (Await_body, b0) = (Expired, b)"
    using assms(2,4) by (cases "fold (happen ready) hs (Await_body, b0)") (auto simp: await_def timer_new_def)
  from timer_expired [OF this] show ?thesis
  proof (elim disjE exE conjE)
    fix pre suf b1
    assume a: "hs = pre @ Fired Eos_ok # suf" "Fired Window \<in> set suf"
    then have "rq_end_stream rq \<or> uploaded pre"
      using assms(3) signalled_uploaded [of ready pre Await_body b0] new(1) by (auto simp: eos_honest_def timer_new_def)
    then show ?thesis using a by blast
  next
    fix pre suf b1 b2
    assume a: "hs = pre @ Fired Window # suf" "fold (happen ready) pre (Await_body, b0) = (Await_body, b1)"
      "happen ready (Fired Window) (Await_body, b1) = (Expired, b2)"
    have "\<not> polled (rb_state b1) \<and> \<not> waiting_on_client (rb_state b1)"
      using a(3) by (auto simp: Let_def split: if_splits)
    then have "no_poll_in_window pre \<and> (let as = accepted_polls (now + request_body_timeout t) pre in
        as = [] \<or> seen_answer (last as) \<noteq> None)"
      using happen_inv [OF a(2) refl new(3,4)] unfolding new(2) Let_def by (simp del: not_None_eq)
    then show ?thesis using a(1) by blast
  qed
qed

theorem timeout_is_upstreams_fault_witness:
  "\<exists>fw s1 b0. demo_begin (demo_request ''POST'' ''/api/x'' [] False) = (Forward fw, s1) \<and> fw_body fw = Some b0
     \<and> eos_honest (\<lambda>d n. d \<le> n) [Polled 1 [Data ''a'' True], Fired Eos_ok, Fired Window] b0
     \<and> fst (await (\<lambda>d n. d \<le> n) [Polled 1 [Data ''a'' True], Fired Eos_ok, Fired Window] (fw_body fw)) = Expired
     \<and> (\<exists>pre suf. [Polled 1 [Data ''a'' True], Fired Eos_ok, Fired Window] = pre @ Fired Eos_ok # suf \<and> uploaded pre)"
proof -
  let ?d = "demo_begin (demo_request ''POST'' ''/api/x'' [] False)" and ?r = "\<lambda>d n :: duration. d \<le> n"
  let ?hs = "[Polled 1 [Data ''a'' True], Fired Eos_ok, Fired Window]"
  let ?b = "request_body_new False (from_secs 30) (from_secs 300) 0"
  have "(case fst ?d of Forward fw \<Rightarrow> fw_body fw | _ \<Rightarrow> None) = Some ?b" by code_simp
  then obtain fw s1 where d: "?d = (Forward fw, s1)" "fw_body fw = Some ?b"
    by (cases ?d; cases "fst ?d") auto
  have "rb_signalled (snd (fold (happen ?r) [Polled 1 [Data ''a'' True]] (timer_new True, ?b)))" by code_simp
  then have e: "eos_honest ?r ?hs ?b" by (auto simp: eos_honest_def Cons_eq_append_conv)
  have "fst (await ?r ?hs (Some ?b)) = Expired" by code_simp
  then have x: "fst (await ?r ?hs (fw_body fw)) = Expired" using d(2) by simp
  have "\<not> no_poll_in_window [Polled 1 [Data ''a'' True], Fired Eos_ok]"
    by (auto simp: no_poll_in_window_def Cons_eq_append_conv)
  then have w: "\<not> (?hs = pre @ Fired Window # suf \<and> no_poll_in_window pre \<and> P)" for pre suf P
    by (auto simp: Cons_eq_append_conv)
  have "\<not> rq_end_stream (demo_request ''POST'' ''/api/x'' [] False)" by (simp add: demo_request_def)
  then have "\<exists>pre suf. ?hs = pre @ Fired Eos_ok # suf \<and> uploaded pre"
    using timeout_is_upstreams_fault [OF d e x] w by metis
  then show ?thesis using d e x by blast
qed

end
