(* ===== verification/Gateway_Spec.thy ===== *)
theory Gateway_Spec
  imports Proxy_Outcome Breaker_Spec
begin

text \<open>
  What the running gateway promises of its circuits, without tables, stores or shared pointers: one
  circuit per upstream name, the requests and health checks underway with the circuit each of them
  reports to, and the clock. An upstream that a reload drops takes its circuit with it, and whoever
  still holds it reports to nobody.
\<close>

section \<open>Simulations of runs\<close>

primrec run_steps :: "('e \<Rightarrow> 's \<Rightarrow> ('o \<times> 's) option) \<Rightarrow> 'e list \<Rightarrow> 's \<Rightarrow> ('o list \<times> 's) option" where
  "run_steps step [] s = Some ([], s)"
| "run_steps step (e # es) s =
     (case step e s of
        None \<Rightarrow> None
      | Some (x, s1) \<Rightarrow> map_option (map_prod (Cons x) id) (run_steps step es s1))"

text \<open>The labels of a run: what each event is to the specification, in the state it finds.\<close>

primrec labels ::
    "('e \<Rightarrow> 's \<Rightarrow> ('o \<times> 's) option) \<Rightarrow> ('s \<Rightarrow> 'e \<Rightarrow> 'a) \<Rightarrow> 'e list \<Rightarrow> 's \<Rightarrow> 'a list" where
  "labels step label [] s = []"
| "labels step label (e # es) s =
     label s e # (case step e s of None \<Rightarrow> [] | Some (x, s1) \<Rightarrow> labels step label es s1)"

text \<open>A condition on every event of a run and the state it finds.\<close>

primrec throughout :: "('e \<Rightarrow> 's \<Rightarrow> bool) \<Rightarrow> ('e \<Rightarrow> 's \<Rightarrow> ('o \<times> 's) option) \<Rightarrow> 'e list \<Rightarrow> 's \<Rightarrow> bool" where
  "throughout P step [] s \<longleftrightarrow> True"
| "throughout P step (e # es) s \<longleftrightarrow>
     P e s \<and> (case step e s of None \<Rightarrow> True | Some (x, s1) \<Rightarrow> throughout P step es s1)"

lemma run_steps_ConsE:
  assumes "run_steps step (e # es) s = Some (xs, s')"
  obtains x s1 ys where "step e s = Some (x, s1)" "run_steps step es s1 = Some (ys, s')" "xs = x # ys"
  using assms by (auto split: option.splits)

lemma run_steps_append:
  "run_steps step (es @ fs) s =
     (case run_steps step es s of
        None \<Rightarrow> None
      | Some (xs, s1) \<Rightarrow> map_option (map_prod ((@) xs) id) (run_steps step fs s1))"
proof (induction es arbitrary: s)
  case Nil
  show ?case by (cases "run_steps step fs s") auto
next
  case (Cons e es)
  show ?case
  proof (cases "step e s")
    case (Some y)
    obtain x s1 where y: "y = (x, s1)" by fastforce
    show ?thesis
    proof (cases "run_steps step es s1")
      case (Some z)
      then show ?thesis using \<open>step e s = Some y\<close> y Cons.IH [of s1]
        by (cases z; cases "run_steps step fs (snd z)") auto
    qed (use \<open>step e s = Some y\<close> y Cons.IH [of s1] in simp)
  qed simp
qed

locale simulation =
  fixes cstep :: "'e \<Rightarrow> 's \<Rightarrow> ('o \<times> 's) option"
    and astep :: "'a \<Rightarrow> 't \<Rightarrow> ('p \<times> 't) option"
    and label :: "'s \<Rightarrow> 'e \<Rightarrow> 'a"
    and see :: "'e \<Rightarrow> 'o \<Rightarrow> 'p"
    and view :: "'s \<Rightarrow> 't"
    and good :: "'s \<Rightarrow> bool"
    and allowed :: "'e \<Rightarrow> bool"
  assumes step_good: "good s \<Longrightarrow> allowed e \<Longrightarrow> cstep e s = Some (x, s') \<Longrightarrow> good s'"
    and step_view: "good s \<Longrightarrow> allowed e \<Longrightarrow> cstep e s = Some (x, s') \<Longrightarrow>
      astep (label s e) (view s) = Some (see e x, view s')"
begin

theorem runs_simulate:
  assumes "good s" and "list_all allowed es" and "run_steps cstep es s = Some (xs, s')"
  shows "run_steps astep (labels cstep label es s) (view s) = Some (map2 see es xs, view s') \<and> good s'"
  using assms
proof (induction es arbitrary: s xs)
  case (Cons e es)
  from Cons.prems(3) obtain x s1 ys where st: "cstep e s = Some (x, s1)" "run_steps cstep es s1 = Some (ys, s')" "xs = x # ys"
    by (rule run_steps_ConsE)
  have "good s1" "astep (label s e) (view s) = Some (see e x, view s1)"
    using step_good [OF _ _ st(1)] step_view [OF _ _ st(1)] Cons.prems(1,2) by simp_all
  then show ?case using Cons.IH [OF _ _ st(2)] Cons.prems(2) st(1,3) by simp
qed simp

end

section \<open>The abstract gateway\<close>

record net =
  circuits :: "string \<rightharpoonup> circuit"
  flights :: "(string option \<times> admission) list"
  checks :: "string option list"
  time :: nat

datatype net_event =
    Skip
  | Time nat
  | Arrive "(string \<times> bool) option"
  | Finish nat verdict
  | Vanish nat
  | Start "string list"
  | Report nat bool
  | Retune "string \<rightharpoonup> nat \<times> nat"

datatype answer_kind = Admitted | Refused | Answered | Quiet

text \<open>What a report does: to the circuit it concerns, if there still is one, and to no other.\<close>

definition on_circuit :: "string option \<Rightarrow> (circuit \<Rightarrow> circuit) \<Rightarrow> (string \<rightharpoonup> circuit) \<Rightarrow> (string \<rightharpoonup> circuit)" where
  "on_circuit n f cs = (case n of None \<Rightarrow> cs | Some n \<Rightarrow> cs(n := map_option f (cs n)))"

fun spec_settle :: "verdict \<Rightarrow> admission \<Rightarrow> nat \<Rightarrow> circuit \<Rightarrow> circuit" where
  "spec_settle Praised a now = spec_success a"
| "spec_settle Blamed a now = spec_failure a now"
| "spec_settle Handed_back a now = spec_release a now"
| "spec_settle Unsettled a now = id"

fun spec_check :: "bool \<Rightarrow> nat \<Rightarrow> circuit \<Rightarrow> circuit" where
  "spec_check healthy now = (if healthy then spec_success Probe else spec_failure Probe now)"

definition remove_nth :: "nat \<Rightarrow> 'a list \<Rightarrow> 'a list" where
  "remove_nth i xs = take i xs @ drop (Suc i) xs"

text \<open>A reload: a circuit whose name stays goes on as it is under its new tuning, a new name gets a
  shut circuit, and a name that goes takes its circuit along.\<close>

definition retuned :: "circuit option \<Rightarrow> nat \<times> nat \<Rightarrow> circuit" where
  "retuned c = (\<lambda>(th, cd). case c of
      Some c \<Rightarrow> c\<lparr>threshold := th, cooldown := cd\<rparr>
    | None \<Rightarrow> \<lparr>phase = Shut 0, rearmed = None, threshold = th, cooldown = cd\<rparr>)"

definition kept :: "(string \<rightharpoonup> 'a) \<Rightarrow> string option \<Rightarrow> string option" where
  "kept T n = (case n of None \<Rightarrow> None | Some n \<Rightarrow> if T n = None then None else Some n)"

definition net_arrive :: "(string \<times> bool) option \<Rightarrow> net \<Rightarrow> (answer_kind \<times> net) option" where
  "net_arrive target N =
     (case target of
        None \<Rightarrow> Some (Answered, N)
      | Some (n, bad) \<Rightarrow>
          (case circuits N n of
             None \<Rightarrow> None
           | Some c \<Rightarrow>
               (case spec_acquire (time N) c of
                  (None, c') \<Rightarrow> Some (Refused, N\<lparr>circuits := (circuits N)(n \<mapsto> c')\<rparr>)
                | (Some a, c') \<Rightarrow>
                    if bad
                    then Some (Answered, N\<lparr>circuits := (circuits N)(n \<mapsto> spec_release a (time N) c')\<rparr>)
                    else Some (Admitted, N\<lparr>circuits := (circuits N)(n \<mapsto> c'),
                                           flights := flights N @ [(Some n, a)]\<rparr>))))"

fun net_step :: "net_event \<Rightarrow> net \<Rightarrow> (answer_kind \<times> net) option" where
  "net_step Skip N = Some (Quiet, N)"
| "net_step (Time now) N = Some (Quiet, N\<lparr>time := now\<rparr>)"
| "net_step (Arrive target) N = net_arrive target N"
| "net_step (Finish i v) N =
     (if i < length (flights N)
      then (let (n, a) = flights N ! i in
            Some (Quiet, N\<lparr>circuits := on_circuit n (spec_settle v a (time N)) (circuits N),
                           flights := remove_nth i (flights N)\<rparr>))
      else None)"
| "net_step (Vanish i) N =
     (if i < length (flights N) then Some (Quiet, N\<lparr>flights := remove_nth i (flights N)\<rparr>) else None)"
| "net_step (Start ns) N = (if checks N = [] then Some (Quiet, N\<lparr>checks := map Some ns\<rparr>) else None)"
| "net_step (Report i healthy) N =
     (if i < length (checks N)
      then Some (Quiet, N\<lparr>circuits := on_circuit (checks N ! i) (spec_check healthy (time N)) (circuits N),
                          checks := remove_nth i (checks N)\<rparr>)
      else None)"
| "net_step (Retune T) N =
     Some (Quiet, N\<lparr>circuits := (\<lambda>n. map_option (retuned (circuits N n)) (T n)),
                    flights := map (map_prod (kept T) id) (flights N),
                    checks := map (kept T) (checks N)\<rparr>)"

end
