(* ===== verification/Shared_Breakers.thy ===== *)
theory Shared_Breakers
  imports Route_Table Breaker_Spec
begin

text \<open>
  Calls on a breaker behind an \<open>Arc\<close>: what the calls of the upstreams do to the store is what the calls
  of theory \<open>Breaker_Spec\<close> do to the one breaker they name.
\<close>

section \<open>Calls on a shared breaker\<close>

lemma try_acquire_store:
  assumes "u_breaker u < length (breakers s)" and "breaker_inv (breakers s ! u_breaker u)"
  shows "fst (upstream_try_acquire u s) = fst (call try_acquire (st_clock s) (breakers s ! u_breaker u))"
    and "breakers (snd (upstream_try_acquire u s))
      = (breakers s)[u_breaker u := after try_acquire (st_clock s) (breakers s ! u_breaker u)]"
    and "st_clock (snd (upstream_try_acquire u s)) = st_clock s"
  using assms by (auto simp: upstream_try_acquire_def on_breaker_def call_def run_try_acquire Let_def)

lemma record_failure_store:
  assumes "u_breaker u < length (breakers s)" and "breaker_inv (breakers s ! u_breaker u)"
  shows "breakers (upstream_record_failure a u s)
      = (breakers s)[u_breaker u := after (record_failure a) (st_clock s) (breakers s ! u_breaker u)]"
    and "st_clock (upstream_record_failure a u s) = st_clock s"
  using assms
  by (auto simp: upstream_record_failure_def on_breaker_def call_def run_record_failure tripped_def Let_def
      split: circuit_state.split)

lemma record_success_store:
  assumes "u_breaker u < length (breakers s)"
  shows "breakers (upstream_record_success a u s)
      = (breakers s)[u_breaker u := after (record_success a) (st_clock s) (breakers s ! u_breaker u)]"
    and "st_clock (upstream_record_success a u s) = st_clock s"
  using assms by (auto simp: upstream_record_success_def on_breaker_def call_def run_record_success Let_def)

lemma release_store:
  assumes "u_breaker u < length (breakers s)"
  shows "breakers (upstream_release a u s)
      = (breakers s)[u_breaker u := after (release a) (st_clock s) (breakers s ! u_breaker u)]"
    and "st_clock (upstream_release a u s) = st_clock s"
  using assms by (auto simp: upstream_release_def on_breaker_def call_def run_release Let_def)

text \<open>A shut circuit admits, and admitting changes nothing.\<close>

lemma shut_admits:
  assumes "breaker_inv b" and "phase (abs_breaker b) = Shut n"
  shows "call try_acquire now b = (Some Normal, b)"
  using assms by (auto simp: call_def run_try_acquire abs_breaker_def Let_def split: circuit_state.splits)

lemma tripped_refuses:
  assumes "breaker_inv b" and "phase (abs_breaker b) = Tripped t0" and "unat now - t0 < cooldown (abs_breaker b)"
  shows "fst (call try_acquire now b) = None"
  using brk.acquire_result [OF assms(1), of now] assms(2,3) by simp

end
