(* ===== verification/Proxy_Breaker.thy ===== *)
theory Proxy_Breaker
  imports Proxy_Outcome Shared_Breakers
begin

text \<open>
  The request handler and the circuit breakers together: a failing upstream is cut off, and what the
  deprecated handler does with a probe.
\<close>

section \<open>A failing upstream is cut off\<close>

lemma handle_begin_again:
  assumes "handle_begin H U streaming t peer proto rq cx now s = (Forward fw, s1)"
  shows "upstream_try_acquire (fw_upstream fw) (px_store s2) = (Some adm, st) \<Longrightarrow>
      \<exists>s3. handle_begin H U streaming t peer proto rq cx now s2 = (Forward (fw\<lparr>fw_admission := adm\<rparr>), s3) \<and> px_store s3 = st"
    and "upstream_try_acquire (fw_upstream fw) (px_store s2) = (None, st) \<Longrightarrow>
      \<exists>rs s3. handle_begin H U streaming t peer proto rq cx now s2 = (Answer rs, s3) \<and> rs_status rs = 503 \<and> px_store s3 = st"
  using assms(1)
  by (elim handle_begin_ForwardE,
      auto simp: handle_begin_def admitted_def Let_def refuse_def error_response_def record_req_def record_len_def split: prod.splits)+

text \<open>An upstream that answers every request with a gateway error, no client being at fault; nothing
  else happens meanwhile.\<close>

definition failing :: "(duration \<Rightarrow> duration \<Rightarrow> bool) \<Rightarrow> route_table \<Rightarrow> 'h forward \<Rightarrow> ('h, 'b) world \<Rightarrow> bool" where
  "failing ready t fw world \<longleftrightarrow>
     (\<forall>adm s. \<exists>hs up later. world (fw\<lparr>fw_admission := adm\<rparr>) s = (hs, Some (Client_response up), later, s)
        \<and> gateway_error (rs_status up) \<and> \<not> stalled t later (snd (await ready hs (fw_body fw))))"

lemma failing_request:
  fixes world :: "('h, 'b) world"
  assumes fwd: "handle_begin H U streaming t peer proto rq cx now s0 = ((Forward fw, s1) :: ('h, 'b) decision \<times> proxy_state)"
    and w: "failing ready t fw world" and i: "i = u_breaker (fw_upstream fw)" "i < length (breakers (px_store s))"
    and b: "b = breakers (px_store s) ! i" "breaker_inv b" "phase (abs_breaker b) = Shut n"
  obtains rs s' where "handle_core H U ready world streaming t peer proto rq cx now s = Some (rs, s')"
    "breakers (px_store s') = (breakers (px_store s))[i := after (record_failure Normal) (st_clock (px_store s)) b]"
    "st_clock (px_store s') = st_clock (px_store s)"
proof -
  let ?up = "fw_upstream fw"
  note acq = try_acquire_store [of ?up "px_store s", folded i(1), OF i(2), folded b(1), OF b(2)]
  obtain st where st: "upstream_try_acquire ?up (px_store s) = (Some Normal, st)" "breakers st = breakers (px_store s)"
    "st_clock st = st_clock (px_store s)"
    using acq shut_admits [OF b(2,3)] b(1) by (metis fst_conv list_update_id prod.collapse snd_conv)
  obtain s2 where s2: "handle_begin H U streaming t peer proto rq cx now s
      = ((Forward (fw\<lparr>fw_admission := Normal\<rparr>), s2) :: ('h, 'b) decision \<times> proxy_state)" "px_store s2 = st"
    using handle_begin_again(1) [OF fwd st(1)] by blast
  let ?fw = "fw\<lparr>fw_admission := Normal\<rparr>"
  obtain hs up later where h: "world ?fw s2 = (hs, Some (Client_response up), later, s2)" "gateway_error (rs_status up)"
    "\<not> stalled t later (snd (await ready hs (fw_body ?fw)))" using w unfolding failing_def by force
  have "fw_upstream ?fw = ?up" "fw_admission ?fw = Normal" by simp_all
  then obtain rs s' where fin: "handle_finish H cx ?fw (Some (Client_response up)) False s2 = (rs, s')"
    "px_store s' = upstream_record_failure Normal ?up st"
    using finish_verdict [of H cx ?fw "Some (Client_response up)" False s2] h(2) s2(2)
    by (cases "handle_finish H cx ?fw (Some (Client_response up)) False s2") (simp add: verdict_of_def)
  have "handle_core H U ready world streaming t peer proto rq cx now s = Some (rs, s')"
    using s2(1) h fin(1) by (auto simp: handle_core_def select_def split: prod.splits)
  then show thesis using that fin(2) record_failure_store [of ?up st Normal] st(2,3) i b(1,2) by metis
qed

lemma failing_requests:
  fixes world :: "('h, 'b) world"
  assumes fwd: "handle_begin H U streaming t peer proto rq cx now s = ((Forward fw, s1) :: ('h, 'b) decision \<times> proxy_state)"
    and w: "failing ready t fw world" and i: "i = u_breaker (fw_upstream fw)" "i < length (breakers (px_store s))"
    and b: "b = breakers (px_store s) ! i" "breaker_inv b" "phase (abs_breaker b) = Shut 0"
    and thr: "0 < threshold (abs_breaker b)"
    and serve: "serve = (\<lambda>s. snd (the (handle_core H U ready world streaming t peer proto rq cx now s)))"
  shows "k \<le> threshold (abs_breaker b) \<Longrightarrow>
    breakers (px_store ((serve ^^ k) s))
      = (breakers (px_store s))[i := (after (record_failure Normal) (st_clock (px_store s)) ^^ k) b]
    \<and> st_clock (px_store ((serve ^^ k) s)) = st_clock (px_store s)"
proof (induction k)
  case 0
  then show ?case using b(1) by simp
next
  case (Suc k)
  let ?s = "(serve ^^ k) s" and ?c = "st_clock (px_store s)"
  let ?b = "(after (record_failure Normal) ?c ^^ k) b"
  have IH: "breakers (px_store ?s) = (breakers (px_store s))[i := ?b]" "st_clock (px_store ?s) = ?c"
    using Suc by simp_all
  have b': "?b = breakers (px_store ?s) ! i" "i < length (breakers (px_store ?s))" "breaker_inv ?b"
    using IH i(2) b(2) by (simp_all add: brk.inv_failures)
  have "phase (abs_breaker ?b) = Shut k"
    using brk.threshold_failures [OF b(2,3), of k Normal ?c] thr Suc.prems by simp
  from failing_request [OF fwd w i(1) b'(2,1,3) this] obtain rs s' where
    "handle_core H U ready world streaming t peer proto rq cx now ?s = Some (rs, s')"
    "breakers (px_store s') = (breakers (px_store ?s))[i := after (record_failure Normal) (st_clock (px_store ?s)) ?b]"
    "st_clock (px_store s') = st_clock (px_store ?s)" .
  then show ?case using IH by (simp add: serve)
qed

text \<open>The clock moves on.\<close>

definition later_at :: "u64 \<Rightarrow> proxy_state \<Rightarrow> proxy_state" where
  "later_at c s = s\<lparr>px_store := (px_store s)\<lparr>st_clock := c\<rparr>\<rparr>"

text \<open>C5. A failing upstream is cut off. From a closed circuit, as many requests as the failure threshold
  that each get a gateway error open it, and from then on, for the whole cooldown, the same request is
  answered 503 by the proxy itself, whatever the upstream would have said, and its breaker is left as
  it was.\<close>

theorem failing_upstream_cut_off:
  fixes world world2 :: "('h, 'b) world"
  assumes "handle_begin H U streaming t peer proto rq cx now s = ((Forward fw, s1) :: ('h, 'b) decision \<times> proxy_state)"
    and "failing ready t fw world" and "i = u_breaker (fw_upstream fw)" "i < length (breakers (px_store s))"
    and "b = breakers (px_store s) ! i" "breaker_inv b" "phase (abs_breaker b) = Shut 0"
    and "0 < threshold (abs_breaker b)" and "unat c - unat (st_clock (px_store s)) < cooldown (abs_breaker b)"
    and "serve = (\<lambda>s. snd (the (handle_core H U ready world streaming t peer proto rq cx now s)))"
    and "s' = later_at c ((serve ^^ threshold (abs_breaker b)) s)"
  shows "\<exists>rs s''. handle_core H U ready world2 streaming t peer proto rq cx now s' = Some (rs, s'') \<and> rs_status rs = 503
    \<and> breakers (px_store s'') = breakers (px_store s')"
proof -
  let ?c = "st_clock (px_store s)" and ?n = "threshold (abs_breaker b)"
  let ?b = "(after (record_failure Normal) ?c ^^ ?n) b"
  have s': "breakers (px_store s') = (breakers (px_store s))[i := ?b]" "st_clock (px_store s') = c"
    using failing_requests [OF assms(1-8,10), of ?n] assms(11) by (simp_all add: later_at_def)
  have inv: "breaker_inv ?b" using assms(6) by (simp add: brk.inv_failures)
  have v: "abs_breaker ?b = (abs_breaker b)\<lparr>phase := Tripped (unat ?c)\<rparr>"
    using brk.threshold_failures [OF assms(6,7), of ?n Normal ?c] assms(8) by simp
  have no: "fst (call try_acquire c ?b) = None"
    by (rule tripped_refuses [OF inv, of "unat ?c"]) (use v assms(9) in simp_all)
  then have same: "after try_acquire c ?b = ?b"
    using inv by (auto simp: call_def run_try_acquire Let_def split: if_splits)
  have i: "u_breaker (fw_upstream fw) < length (breakers (px_store s'))"
    "breakers (px_store s') ! u_breaker (fw_upstream fw) = ?b" using s'(1) assms(3,4) by simp_all
  obtain st where st: "upstream_try_acquire (fw_upstream fw) (px_store s') = (None, st)" "breakers st = breakers (px_store s')"
    using try_acquire_store(1,2) [of "fw_upstream fw" "px_store s'"] i inv no same s'(2)
    by (metis list_update_id prod.collapse fst_conv snd_conv)
  obtain rs s'' where a: "handle_begin H U streaming t peer proto rq cx now s' = ((Answer rs, s'') :: ('h, 'b) decision \<times> proxy_state)"
    "rs_status rs = 503" "px_store s'' = st"
    using handle_begin_again(2) [OF assms(1) st(1)] by blast
  then show ?thesis using a st(2) by (auto simp: handle_core_def)
qed

theorem failing_upstream_cut_off_witness:
  "let rq = demo_request ''GET'' ''/api/x'' [] True;
       serve = (\<lambda>s. snd (the (demo_core 503 rq s)));
       s' = later_at 29000 ((serve ^^ 3) (demo_state default_breaker 5)) in
   \<exists>rs s''. demo_core 200 rq s' = Some (rs, s'') \<and> rs_status rs = 503 \<and> breakers (px_store s'') = breakers (px_store s')"
proof -
  let ?rq = "demo_request ''GET'' ''/api/x'' [] True" and ?s = "demo_state default_breaker 5"
  let ?d = "demo_begin ?rq" and ?b = "request_body_new True (from_secs 30) (from_secs 300) 0"
  have "(case fst ?d of Forward fw \<Rightarrow> (u_breaker (fw_upstream fw), fw_body fw) | _ \<Rightarrow> (1, None)) = (0, Some ?b)" by code_simp
  then obtain fw s1 where d: "?d = (Forward fw, s1)" "0 = u_breaker (fw_upstream fw)" "fw_body fw = Some ?b"
    by (cases ?d; cases "fst ?d") auto
  have "\<not> stalled demo_table 1000000 (snd (await (\<lambda>d n. d \<le> n) [] (Some ?b)))" by code_simp
  then have w: "failing (\<lambda>d n. d \<le> n) demo_table fw (answering 503)"
    by (simp add: failing_def answering_def gateway_error_def d(3))
  have n: "0 < length (breakers (px_store ?s))" "default_breaker = breakers (px_store ?s) ! 0" "st_clock (px_store ?s) = 5"
    by (simp_all add: demo_state_def demo_store_def)
  have inv: "breaker_inv default_breaker" using breaker_new_inv [OF new_default_breaker] .
  have abs: "phase (abs_breaker default_breaker) = Shut 0" "threshold (abs_breaker default_breaker) = 3"
    "cooldown (abs_breaker default_breaker) = 30000"
    by (simp_all add: abs_breaker_def default_breaker_def)
  have c: "unat (29000 :: u64) - unat (st_clock (px_store ?s)) < cooldown (abs_breaker default_breaker)"
    unfolding n(3) abs(3) by simp
  show ?thesis
    using failing_upstream_cut_off [OF d(1) w d(2) n(1,2) inv abs(1) _ c refl refl, of "answering 200"]
    unfolding Let_def abs(2) by simp
qed

section \<open>The deprecated handler drops a probe\<close>

text \<open>A world in which nothing happens until the timer's sleep is over.\<close>

definition timing_out :: "((string \<times> string) list, unit) world" where
  "timing_out fw s = ([Fired Window], None, from_secs 10, s)"

definition open_breaker :: breaker where
  "open_breaker = default_breaker\<lparr>b_state := 1, b_opened_at_millis := 5\<rparr>"

lemma probe_admitted:
  assumes "breaker_inv b" and "fst (call try_acquire now b) = Some Probe"
  shows "abs_breaker (after try_acquire now b) = (abs_breaker b)\<lparr>phase := Probing (unat now)\<rparr>"
    and "cooldown (abs_breaker b) \<le> unat now" and "breaker_inv (after try_acquire now b)"
  using brk.acquire_result [OF assms(1), of now] brk.acquire_view [OF assms(1), of now] assms
    inv_op [OF assms(1), of TryAcquire now]
  by (auto simp: op_prog_def call_unit split: phase.splits if_splits)

lemma probing_refuses:
  assumes "breaker_inv b" and "phase (abs_breaker b) = Probing u" and "unat now - u < cooldown (abs_breaker b)"
  shows "fst (call try_acquire now b) = None"
  using brk.acquire_result [OF assms(1), of now] assms(2,3) by simp

lemma release_inv: "breaker_inv b \<Longrightarrow> breaker_inv (after (release a) now b)"
  using inv_op [of b "Release a" now] by (simp add: op_prog_def call_unit)

lemma released_slot_admits:
  assumes "breaker_inv b" and "phase (abs_breaker b) = Probing u" and "now \<noteq> u64_max" and "now \<le> c"
    and "cooldown (abs_breaker b) \<le> unat now"
    and "case rearmed (abs_breaker b) of None \<Rightarrow> True | Some l \<Rightarrow> cooldown (abs_breaker b) \<le> unat now - l"
  shows "fst (call try_acquire c (after (release Probe) now b)) = Some Probe"
proof -
  have inv: "breaker_inv (after (release Probe) now b)" using assms(1) by (rule release_inv)
  have "unat now \<le> unat c" using assms(4) by (simp add: word_le_nat_alt)
  then show ?thesis using brk.acquire_result [OF inv, of c] refine_release [OF assms(3), of Probe b] assms(2,5,6)
    by simp
qed

lemma legacy_timeout:
  fixes world :: "('h, 'b) world"
  assumes fwd: "handle_begin H U False t peer proto rq cx now s = ((Forward fw, s1) :: ('h, 'b) decision \<times> proxy_state)"
    and "\<not> rq_end_stream rq" and "world fw s1 = (hs, None, later, s2)" and "Fired Window \<in> set hs"
  obtains rs s' where "handle_core H U ready world False t peer proto rq cx now s = Some (rs, s')"
    "rs_status rs = 504" "px_store s' = px_store s2"
proof -
  have fw: "fw_body fw = None" "\<not> fw_counts_timeout fw"
    using fwd by (rule handle_begin_ForwardE, simp_all add: wrap_def assms(2))+
  then have aw: "await ready hs (fw_body fw) = (Expired, None)" using assms(4) by (simp add: await_def)
  obtain rs s' where fin: "handle_finish H cx fw (None :: ('h, 'b) client_result option) (stalled t later None) s2 = (rs, s')"
    by fastforce
  show thesis
  proof (rule that)
    show "handle_core H U ready world False t peer proto rq cx now s = Some (rs, s')"
      using fwd assms(3) aw fin by (simp add: handle_core_def select_def)
    show "rs_status rs = 504" using fin by (auto simp: handle_finish_def refuse_def error_response_def Let_def)
    show "px_store s' = px_store s2"
      using finish_verdict [of H cx fw "None :: ('h, 'b) client_result option" "stalled t later None" s2] fin fw(2) by (simp add: verdict_of_def)
  qed
qed

text \<open>C21. \<open>release\<close> asks to be handed every ticket whose request ended without a verdict, a timeout that is not
  the upstream's fault included. The deprecated \<open>handle\<close> does not do so: whatever the table, the request
  with a body, the client and the world, when the request it forwarded as a probe times out, the client
  gets 504 and the breaker keeps the taken slot. Any request to that upstream within the cooldown of the
  probe is then refused with 503, which would be forwarded as the next probe had the ticket been handed
  back, unless a slot was already handed back within the last cooldown. (The clock does not run
  backwards, and no other request touches this upstream's breaker meanwhile.)\<close>

theorem legacy_timeout_drops_probe:
  fixes world :: "('h, 'b) world"
  assumes "handle_begin H U False t peer proto rq cx now s = ((Forward fw, s1) :: ('h, 'b) decision \<times> proxy_state)"
    and "\<not> rq_end_stream rq" and "fw_admission fw = Probe"
    and "world fw s1 = (hs, None, later, s2)" and "Fired Window \<in> set hs" and "breakers (px_store s2) = breakers (px_store s1)"
    and "i = u_breaker (fw_upstream fw)" "i < length (breakers (px_store s))" "b = breakers (px_store s) ! i" "breaker_inv b"
    and "handle_begin H U streaming2 t peer2 proto2 rq2 cx2 now2 s = ((Forward fw2, s3) :: ('h, 'b) decision \<times> proxy_state)"
    and "fw_upstream fw2 = fw_upstream fw"
    and "st_clock (px_store s) \<le> st_clock (px_store s2)" "st_clock (px_store s2) \<le> c" "st_clock (px_store s2) \<noteq> u64_max"
    and "unat c - unat (st_clock (px_store s)) < cooldown (abs_breaker b)"
  shows "\<exists>rs s'. handle_core H U ready world False t peer proto rq cx now s = Some (rs, s') \<and> rs_status rs = 504
    \<and> (\<exists>rs2 s4. handle_begin H U streaming2 t peer2 proto2 rq2 cx2 now2 (later_at c s')
          = ((Answer rs2, s4) :: ('h, 'b) decision \<times> proxy_state) \<and> rs_status rs2 = 503)
    \<and> ((case rearmed (abs_breaker b) of
           None \<Rightarrow> True | Some l \<Rightarrow> cooldown (abs_breaker b) \<le> unat (st_clock (px_store s2)) - l) \<longrightarrow>
       (\<exists>fw4 s4. handle_begin H U streaming2 t peer2 proto2 rq2 cx2 now2
            (later_at c (on_store (upstream_release Probe (fw_upstream fw)) s'))
          = ((Forward fw4, s4) :: ('h, 'b) decision \<times> proxy_state) \<and> fw_admission fw4 = Probe))"
proof -
  let ?up = "fw_upstream fw" and ?c = "st_clock (px_store s)" and ?c2 = "st_clock (px_store s2)"
  let ?b = "after try_acquire ?c b"
  obtain rs s' where core: "handle_core H U ready world False t peer proto rq cx now s = Some (rs, s')"
    "rs_status rs = 504" "px_store s' = px_store s2"
    by (rule legacy_timeout [where world = world, OF assms(1,2,4,5)])
  have acq: "upstream_try_acquire ?up (px_store s) = (Some Probe, px_store s1)"
    using assms(1) by (rule handle_begin_ForwardE) (simp add: assms(3))
  note st = try_acquire_store [of ?up "px_store s", folded assms(7), OF assms(8), folded assms(9), OF assms(10)]
  have pr: "fst (call try_acquire ?c b) = Some Probe" using st(1) acq by simp
  note view = probe_admitted [OF assms(10) pr]
  have brs: "breakers (px_store s') = (breakers (px_store s))[i := ?b]" using st(2) acq core(3) assms(6) by simp
  have len: "u_breaker ?up < length (breakers (px_store s'))" and nth: "breakers (px_store s') ! u_breaker ?up = ?b"
    using brs assms(7,8) by simp_all
  have no: "fst (upstream_try_acquire ?up (px_store (later_at c s'))) = None"
    using try_acquire_store(1) [of ?up "px_store (later_at c s')"] len nth view(1,3) assms(16)
      probing_refuses [OF view(3), of "unat ?c" c] by (simp add: later_at_def)
  have "\<exists>rs2 s4. handle_begin H U streaming2 t peer2 proto2 rq2 cx2 now2 (later_at c s')
          = ((Answer rs2, s4) :: ('h, 'b) decision \<times> proxy_state) \<and> rs_status rs2 = 503"
    using handle_begin_again(2) [OF assms(11), of "later_at c s'"] no assms(12) by (metis prod.collapse)
  moreover have "\<exists>fw4 s4. handle_begin H U streaming2 t peer2 proto2 rq2 cx2 now2
            (later_at c (on_store (upstream_release Probe ?up) s'))
          = ((Forward fw4, s4) :: ('h, 'b) decision \<times> proxy_state) \<and> fw_admission fw4 = Probe"
    if "case rearmed (abs_breaker b) of None \<Rightarrow> True | Some l \<Rightarrow> cooldown (abs_breaker b) \<le> unat ?c2 - l"
  proof -
    let ?s = "later_at c (on_store (upstream_release Probe ?up) s')" and ?r = "after (release Probe) ?c2 ?b"
    have rel: "breakers (px_store ?s) = (breakers (px_store s'))[u_breaker ?up := ?r]" "st_clock (px_store ?s) = c"
      using release_store [of ?up "px_store s'"] len nth core(3) by (simp_all add: later_at_def)
    have inv: "breaker_inv ?r" using view(3) by (rule release_inv)
    have "unat ?c \<le> unat ?c2" using assms(13) by (simp add: word_le_nat_alt)
    then have "fst (call try_acquire c ?r) = Some Probe"
      using released_slot_admits [OF view(3) _ assms(15,14)] view(1,2) that by (simp split: option.splits)
    then have "fst (upstream_try_acquire ?up (px_store ?s)) = Some Probe"
      using try_acquire_store(1) [of ?up "px_store ?s"] len rel inv by simp
    then show ?thesis using handle_begin_again(1) [OF assms(11), of ?s] assms(12)
      by (metis forward.select_convs(3) forward.surjective forward.update_convs(3) prod.collapse)
  qed
  ultimately show ?thesis using core by blast
qed
theorem legacy_timeout_drops_probe_witness:
  "let upload = demo_request ''POST'' ''/api/x'' [] False; get = demo_request ''GET'' ''/api/x'' [] True;
       ask = (\<lambda>s. handle_begin list_headers split_uris True demo_table (V4 0x05050505) ''https'' get None 0 s
                  :: ((string \<times> string) list, unit) decision \<times> proxy_state) in
   \<exists>rs s'. handle_core list_headers split_uris (\<lambda>d n. d \<le> n) timing_out False demo_table (V4 0x05050505) ''https''
        upload None 0 (demo_state open_breaker 40000) = Some (rs, s') \<and> rs_status rs = 504
     \<and> (\<exists>rs2 s4. ask (later_at 40001 s') = (Answer rs2, s4) \<and> rs_status rs2 = 503)
     \<and> (\<exists>fw4 s4. ask (later_at 40001 (on_store (upstream_release Probe demo_upstream) s')) = (Forward fw4, s4)
          \<and> fw_admission fw4 = Probe)"
proof -
  let ?s = "demo_state open_breaker 40000"
  let ?ask = "\<lambda>str rq. handle_begin list_headers split_uris str demo_table (V4 0x05050505) ''https'' rq None 0 ?s
    :: ((string \<times> string) list, unit) decision \<times> proxy_state"
  let ?d = "?ask False (demo_request ''POST'' ''/api/x'' [] False)" and ?e = "?ask True (demo_request ''GET'' ''/api/x'' [] True)"
  have "(case ?d of (Forward fw, s1) \<Rightarrow> (fw_admission fw, fw_upstream fw, st_clock (px_store s1)) | _ \<Rightarrow> (Normal, demo_upstream, 0))
    = (Probe, demo_upstream, 40000)" by code_simp
  then obtain fw s1 where d: "?d = (Forward fw, s1)" "fw_admission fw = Probe" "fw_upstream fw = demo_upstream"
    "st_clock (px_store s1) = 40000" by (cases ?d; cases "fst ?d") auto
  have "(case ?e of (Forward fw, s1) \<Rightarrow> (True, fw_upstream fw) | _ \<Rightarrow> (False, demo_upstream)) = (True, demo_upstream)" by code_simp
  then obtain fw2 s3 where e: "?e = (Forward fw2, s3)" "fw_upstream fw2 = demo_upstream" by (cases ?e; cases "fst ?e") auto
  have r: "\<not> rq_end_stream (demo_request ''POST'' ''/api/x'' [] False)" by (simp add: demo_request_def)
  have w: "timing_out fw s1 = ([Fired Window], None, from_secs 10, s1)" "Fired Window \<in> set [Fired Window]"
    by (simp_all add: timing_out_def)
  have n: "0 = u_breaker (fw_upstream fw)" "0 < length (breakers (px_store ?s))" "open_breaker = breakers (px_store ?s) ! 0"
    "st_clock (px_store ?s) = 40000" by (simp_all add: d(3) demo_upstream_def demo_state_def demo_store_def)
  have abs: "rearmed (abs_breaker open_breaker) = None" "cooldown (abs_breaker open_breaker) = 30000"
    by (simp_all add: abs_breaker_def open_breaker_def default_breaker_def)
  have inv: "breaker_inv open_breaker" by (simp add: breaker_inv_def open_breaker_def default_breaker_def)
  have c: "st_clock (px_store ?s) \<le> st_clock (px_store s1)" "st_clock (px_store s1) \<le> 40001" "st_clock (px_store s1) \<noteq> u64_max"
    "unat (40001 :: u64) - unat (st_clock (px_store ?s)) < cooldown (abs_breaker open_breaker)"
    unfolding n(4) d(4) abs(2) by simp_all
  show ?thesis
    using legacy_timeout_drops_probe [where world = timing_out, OF d(1) r d(2) w refl n(1-3) inv e(1) e(2)[folded d(3)] c, of "\<lambda>d n. d \<le> n"]
    unfolding Let_def abs(1) option.case d(3) by simp
qed

end
