(* ===== verification/Config.thy ===== *)
theory Config
  imports Ambiguous
begin

text \<open>
  The configuration and the builder of routing tables, \<open>crates/core/src/config.rs\<close>. Parsing TOML into
  \<open>ConfigToml\<close> is the work of the \<open>toml\<close> and \<open>serde\<close> crates; the model starts from the parsed values.
  The parsers of \<open>http::Uri\<close> and \<open>http::uri::PathAndQuery\<close> are parameters (\<open>http_parsers\<close>).
\<close>

section \<open>The configuration\<close>

record route_toml =
  rt_prefix :: string
  rt_upstream :: string
  rt_cooldown_secs :: "u64 option"
  rt_health_path :: "string option"
  rt_health_disabled :: bool
  rt_rewrite_host :: bool
  rt_strip_prefix :: bool

record config_toml =
  c_health_interval_secs :: u64
  c_default_cooldown_secs :: u64
  c_failure_threshold :: u32
  c_upstream_timeout_secs :: u64
  c_keepalive_timeout_secs :: u64
  c_trusted_proxies :: "string list"
  c_request_body_idle_timeout_secs :: u64
  c_request_body_timeout_secs :: u64
  c_local_health_path :: "string option"
  c_drain_timeout_secs :: u64
  c_shutdown_delay_secs :: u64
  c_forwarded_header :: bool
  c_xff :: xff_mode
  c_access_log :: bool
  c_request_id :: bool
  c_routes :: "route_toml list"

text \<open>The values serde fills in for the keys a file leaves out.\<close>

definition default_config :: "route_toml list \<Rightarrow> config_toml" where
  "default_config rs =
     \<lparr>c_health_interval_secs = 5, c_default_cooldown_secs = 30, c_failure_threshold = 3,
      c_upstream_timeout_secs = 30, c_keepalive_timeout_secs = 10, c_trusted_proxies = [],
      c_request_body_idle_timeout_secs = 30, c_request_body_timeout_secs = 300,
      c_local_health_path = None, c_drain_timeout_secs = 25, c_shutdown_delay_secs = 0,
      c_forwarded_header = False, c_xff = Append, c_access_log = False, c_request_id = False,
      c_routes = rs\<rparr>"

definition max_secs :: u64 where
  "max_secs = 86400"

record http_parsers =
  parse_uri :: "string \<Rightarrow> uri option"
  path_and_query_ok :: "string \<Rightarrow> bool"

text \<open>\<open>load_config\<close>: reading the file and parsing its text are the operating system's and the toml crate's.\<close>

definition config_from_str :: "(string \<Rightarrow> config_toml option) \<Rightarrow> string \<Rightarrow> (error, config_toml) result" where
  "config_from_str parse_toml s = (case parse_toml s of Some c \<Rightarrow> Inr c | None \<Rightarrow> Inl (Toml None))"

definition load_config ::
    "(string \<Rightarrow> config_toml option) \<Rightarrow> (string \<Rightarrow> string option) \<Rightarrow> string \<Rightarrow> (error, config_toml) result" where
  "load_config parse_toml read_to_string path =
     (case read_to_string path of
        None \<Rightarrow> Inl (ReadConfig path)
      | Some raw \<Rightarrow>
          (case config_from_str parse_toml raw of
             Inl (Toml _) \<Rightarrow> Inl (Toml (Some path))
           | r \<Rightarrow> r))"

section \<open>Validation of the top-level keys\<close>

definition check_threshold :: "config_toml \<Rightarrow> error option" where
  "check_threshold cfg =
     (if c_failure_threshold cfg < 1
      then Some (InvalidConfig ''failure_threshold'' (MustBeGe1Got (unat (c_failure_threshold cfg))))
      else None)"

definition check_secs :: "string \<times> u64 \<Rightarrow> error option" where
  "check_secs kv =
     (let (key, v) = kv in
      if v = 0 then Some (InvalidConfig key MustBeGe1)
      else if max_secs < v then Some (InvalidConfig key (MustBeLe (unat max_secs) (unat v)))
      else None)"

definition secs_keys :: "config_toml \<Rightarrow> (string \<times> u64) list" where
  "secs_keys cfg =
     [(''health_interval_secs'', c_health_interval_secs cfg),
      (''upstream_timeout_secs'', c_upstream_timeout_secs cfg),
      (''default_cooldown_secs'', c_default_cooldown_secs cfg),
      (''keepalive_timeout_secs'', c_keepalive_timeout_secs cfg),
      (''request_body_idle_timeout_secs'', c_request_body_idle_timeout_secs cfg),
      (''request_body_timeout_secs'', c_request_body_timeout_secs cfg),
      (''drain_timeout_secs'', c_drain_timeout_secs cfg)]"

definition check_shutdown_delay :: "config_toml \<Rightarrow> error option" where
  "check_shutdown_delay cfg =
     (if max_secs < c_shutdown_delay_secs cfg
      then Some (InvalidConfig ''shutdown_delay_secs''
                   (MustBeLe (unat max_secs) (unat (c_shutdown_delay_secs cfg))))
      else None)"

definition absolute_path :: "http_parsers \<Rightarrow> string \<Rightarrow> bool" where
  "absolute_path H p \<longleftrightarrow>
     prefix [slash] p \<and> \<not> list_ex (\<lambda>c. c = CHR ''?'' \<or> c = CHR ''#'') p \<and> path_and_query_ok H p"

definition check_local_health :: "http_parsers \<Rightarrow> config_toml \<Rightarrow> error option" where
  "check_local_health H cfg =
     (case c_local_health_path cfg of
        None \<Rightarrow> None
      | Some p \<Rightarrow>
          if \<not> absolute_path H p then Some (InvalidConfig ''local_health_path'' (BadHealthPath p))
          else if bad_path p then Some (InvalidConfig ''local_health_path'' (NotAcceptablePath p))
          else (case find (\<lambda>r. rt_prefix r = p) (c_routes cfg) of
                  Some r \<Rightarrow> Some (InvalidConfig ''local_health_path'' (ShadowsRoute p (rt_prefix r)))
                | None \<Rightarrow> None))"

text \<open>The first error of a list of checks, in order.\<close>

definition first_error :: "error option list \<Rightarrow> error option" where
  "first_error es = (case filter (\<lambda>e. e \<noteq> None) es of [] \<Rightarrow> None | e # _ \<Rightarrow> e)"

definition check_top :: "http_parsers \<Rightarrow> config_toml \<Rightarrow> error option" where
  "check_top H cfg =
     first_error (check_threshold cfg # map check_secs (secs_keys cfg)
                  @ [check_shutdown_delay cfg, check_local_health H cfg])"

section \<open>Validation of one route\<close>

definition check_prefix :: "string set \<Rightarrow> route_toml \<Rightarrow> error option" where
  "check_prefix seen r =
     (let p = rt_prefix r in
      if \<not> prefix [slash] p then Some (InvalidPrefix p)
      else if \<not> list_all is_ascii p \<or> normalize p \<noteq> p
      then Some (NonCanonicalPrefix p (if list_all is_ascii p then WriteAs (normalize p) else AsciiOnly))
      else if list_ex (\<lambda>c. c = semicolon \<or> c = backslash) p
           \<or> contains_str ''%2F'' (map to_ascii_uppercase p)
           \<or> contains_str ''%5C'' (map to_ascii_uppercase p)
      then Some (NonCanonicalPrefix p NoAmbiguousBytes)
      else if p \<in> seen then Some (DuplicatePrefix p)
      else None)"

definition check_upstream :: "http_parsers \<Rightarrow> route_toml \<Rightarrow> (error, uri) result" where
  "check_upstream H r =
     (let bad = (\<lambda>reason. Inl (InvalidUpstream (rt_prefix r) (rt_upstream r) reason)) in
      case parse_uri H (rt_upstream r) of
        None \<Rightarrow> bad (InvalidUri (rt_upstream r))
      | Some u \<Rightarrow>
          (case uri_scheme u of
             None \<Rightarrow> bad (NoScheme (rt_upstream r))
           | Some sch \<Rightarrow>
               if sch \<noteq> ''http'' then bad (UnsupportedScheme (rt_upstream r) sch)
               else if (case uri_host u of
                          None \<Rightarrow> True
                        | Some h \<Rightarrow> trim_matches (\<lambda>c. c = CHR ''['' \<or> c = CHR '']'') h = [])
               then bad (NoHost (rt_upstream r))
               else
                 (case uri_path_and_query u of
                    None \<Rightarrow> Inr u
                  | Some (p, q) \<Rightarrow>
                      if q \<noteq> None then bad (HasQuery (rt_upstream r))
                      else if p \<noteq> [] \<and> p \<noteq> ''/'' then bad (HasPath (rt_upstream r) p)
                      else Inr u)))"

definition route_cooldown :: "duration \<Rightarrow> route_toml \<Rightarrow> duration" where
  "route_cooldown default_cooldown r =
     (case rt_cooldown_secs r of Some s \<Rightarrow> from_secs (unat s) | None \<Rightarrow> default_cooldown)"

definition check_cooldown :: "duration \<Rightarrow> route_toml \<Rightarrow> error option" where
  "check_cooldown cooldown r =
     (if cooldown = 0 then Some (InvalidCooldown (rt_prefix r) MustBeGe1)
      else if unat max_secs < as_secs cooldown
      then Some (InvalidCooldown (rt_prefix r) (MustBeLe (unat max_secs) (as_secs cooldown)))
      else None)"

definition route_breaker :: "duration \<Rightarrow> u32 \<Rightarrow> breaker_config" where
  "route_breaker cooldown threshold =
     with_failure_threshold threshold (with_cooldown cooldown default_breaker_config)"

definition check_health_path :: "http_parsers \<Rightarrow> route_toml \<Rightarrow> error option" where
  "check_health_path H r =
     (case rt_health_path r of
        Some p \<Rightarrow> if absolute_path H p then None else Some (InvalidHealthPath (rt_prefix r) p)
      | None \<Rightarrow> None)"

definition route_health :: "route_toml \<Rightarrow> string \<times> bool" where
  "route_health r =
     (case rt_health_path r of Some p \<Rightarrow> p | None \<Rightarrow> ''/health'', rt_health_disabled r)"

definition show_bool :: "bool \<Rightarrow> string" where
  "show_bool b = (if b then ''true'' else ''false'')"

definition check_shared_health :: "string \<Rightarrow> string \<times> bool \<Rightarrow> string \<times> bool \<Rightarrow> route_toml \<Rightarrow> error option" where
  "check_shared_health nm first health r =
     (if fst first \<noteq> fst health
      then Some (ConflictingHealth (rt_prefix r) nm ''health_path'' (fst health) (fst first))
      else if snd first \<noteq> snd health
      then Some (ConflictingHealth (rt_prefix r) nm ''health_disabled''
                   (show_bool (snd health)) (show_bool (snd first)))
      else None)"

text \<open>A route that passed, as it is pushed on \<open>validated\<close>, and the tables the loop fills.\<close>

record checked =
  ck_prefix :: string
  ck_uri :: uri
  ck_name :: string
  ck_cooldown :: duration
  ck_breaker :: breaker_config
  ck_health :: "string \<times> bool"
  ck_rewrite_host :: bool
  ck_strip_prefix :: bool

record seen =
  seen_prefixes :: "string set"
  cooldown_by_name :: "string \<rightharpoonup> duration"
  health_by_name :: "string \<rightharpoonup> string \<times> bool"

definition or_insert :: "'k \<Rightarrow> 'v \<Rightarrow> ('k \<rightharpoonup> 'v) \<Rightarrow> 'v \<times> ('k \<rightharpoonup> 'v)" where
  "or_insert k v m = (case m k of Some w \<Rightarrow> (w, m) | None \<Rightarrow> (v, m(k \<mapsto> v)))"

text \<open>The body of the loop once prefix and upstream are accepted.\<close>

definition check_shared ::
    "http_parsers \<Rightarrow> duration \<Rightarrow> u32 \<Rightarrow> route_toml \<Rightarrow> uri \<Rightarrow> seen \<Rightarrow> (error, seen \<times> checked) result" where
  "check_shared H default_cooldown threshold r u s =
     (let nm = upstream_name u;
          cooldown = route_cooldown default_cooldown r;
          bc = route_breaker cooldown threshold in
      case check_cooldown cooldown r of
        Some e \<Rightarrow> Inl e
      | None \<Rightarrow>
          (case validate bc of
             Inl e \<Rightarrow> Inl (blame_upstream nm e)
           | Inr _ \<Rightarrow>
               (let (first, cds) = or_insert nm cooldown (cooldown_by_name s) in
                if first \<noteq> cooldown
                then Inl (ConflictingCooldown (rt_prefix r) nm (as_secs cooldown) (as_secs first))
                else
                  (case check_health_path H r of
                     Some e \<Rightarrow> Inl e
                   | None \<Rightarrow>
                       (let health = route_health r;
                            (hfirst, hs) = or_insert nm health (health_by_name s) in
                        case check_shared_health nm hfirst health r of
                          Some e \<Rightarrow> Inl e
                        | None \<Rightarrow>
                            Inr (\<lparr>seen_prefixes = seen_prefixes s, cooldown_by_name = cds, health_by_name = hs\<rparr>,
                                 \<lparr>ck_prefix = rt_prefix r, ck_uri = u, ck_name = nm, ck_cooldown = cooldown,
                                  ck_breaker = bc, ck_health = health,
                                  ck_rewrite_host = rt_rewrite_host r,
                                  ck_strip_prefix = rt_strip_prefix r\<rparr>))))))"

definition check_route ::
    "http_parsers \<Rightarrow> duration \<Rightarrow> u32 \<Rightarrow> route_toml \<Rightarrow> seen \<Rightarrow> (error, seen \<times> checked) result" where
  "check_route H default_cooldown threshold r s =
     (case check_prefix (seen_prefixes s) r of
        Some e \<Rightarrow> Inl e
      | None \<Rightarrow>
          (case check_upstream H r of
             Inl e \<Rightarrow> Inl e
           | Inr u \<Rightarrow>
               check_shared H default_cooldown threshold r u
                 (s\<lparr>seen_prefixes := insert (rt_prefix r) (seen_prefixes s)\<rparr>)))"

fun check_routes ::
    "http_parsers \<Rightarrow> duration \<Rightarrow> u32 \<Rightarrow> route_toml list \<Rightarrow> seen \<Rightarrow> (error, checked list) result" where
  "check_routes H d th [] s = Inr []"
| "check_routes H d th (r # rs) s =
     (case check_route H d th r s of
        Inl e \<Rightarrow> Inl e
      | Inr (s', c) \<Rightarrow>
          (case check_routes H d th rs s' of Inl e \<Rightarrow> Inl e | Inr cs \<Rightarrow> Inr (c # cs)))"

section \<open>Building the table\<close>

text \<open>The upstream of a validated route: shared within the new table, taken over from the old one, or new.\<close>

definition install_upstream ::
    "(string \<rightharpoonup> upstream) \<Rightarrow> u32 \<Rightarrow> checked \<Rightarrow> (string \<rightharpoonup> upstream) \<Rightarrow> store
     \<Rightarrow> (error, upstream \<times> (string \<rightharpoonup> upstream)) result \<times> store" where
  "install_upstream prev threshold c by_name s =
     (case by_name (ck_name c) of
        Some u \<Rightarrow> (Inr (u, by_name), s)
      | None \<Rightarrow>
          (case prev (ck_name c) of
             Some pu \<Rightarrow>
               (let (u, s') = reuse (ck_cooldown c) threshold (Some (fst (ck_health c))) (snd (ck_health c)) pu s in
                (Inr (u, by_name(ck_name c \<mapsto> u)), s'))
           | None \<Rightarrow>
               (case upstream_new (ck_uri c) (ck_breaker c) s of
                  (Inl e, s') \<Rightarrow> (Inl e, s')
                | (Inr u, s') \<Rightarrow>
                    (let u = with_health (Some (fst (ck_health c))) (snd (ck_health c)) u in
                     (Inr (u, by_name(ck_name c \<mapsto> u)), s')))))"

fun install_routes ::
    "(string \<rightharpoonup> upstream) \<Rightarrow> u32 \<Rightarrow> checked list \<Rightarrow> (string \<rightharpoonup> upstream) \<Rightarrow> store
     \<Rightarrow> (error, route list) result \<times> store" where
  "install_routes prev th [] by_name s = (Inr [], s)"
| "install_routes prev th (c # cs) by_name s =
     (case install_upstream prev th c by_name s of
        (Inl e, s') \<Rightarrow> (Inl e, s')
      | (Inr (u, by_name'), s') \<Rightarrow>
          (let r = with_strip_prefix (ck_strip_prefix c)
                     (with_rewrite_host (ck_rewrite_host c) (route_new (ck_prefix c) u)) in
           case install_routes prev th cs by_name' s' of
             (Inl e, s'') \<Rightarrow> (Inl e, s'')
           | (Inr rs, s'') \<Rightarrow> (Inr (r # rs), s'')))"

definition prev_by_name :: "route_table option \<Rightarrow> string \<rightharpoonup> upstream" where
  "prev_by_name prev =
     (case prev of Some t \<Rightarrow> map_of (map (\<lambda>u. (u_name u, u)) (upstreams t)) | None \<Rightarrow> Map.empty)"

definition finish_table :: "config_toml \<Rightarrow> trusted_proxies \<Rightarrow> route list \<Rightarrow> route_table" where
  "finish_table cfg proxies rs =
     with_local_health_path (c_local_health_path cfg)
     (with_request_id (c_request_id cfg)
     (with_access_log (c_access_log cfg)
     (with_xff_mode (c_xff cfg)
     (with_forwarded_header (c_forwarded_header cfg)
     (with_trusted_proxies proxies
     (with_shutdown_delay (from_secs (unat (c_shutdown_delay_secs cfg)))
     (with_drain_timeout (from_secs (unat (c_drain_timeout_secs cfg)))
     (with_request_body_timeout (from_secs (unat (c_request_body_timeout_secs cfg)))
     (with_request_body_idle_timeout (from_secs (unat (c_request_body_idle_timeout_secs cfg)))
     (with_keepalive_timeout (from_secs (unat (c_keepalive_timeout_secs cfg)))
     (table_new rs (from_secs (unat (c_upstream_timeout_secs cfg))))))))))))))"

definition no_seen :: seen where
  "no_seen = \<lparr>seen_prefixes = {}, cooldown_by_name = Map.empty, health_by_name = Map.empty\<rparr>"

definition build_table ::
    "http_parsers \<Rightarrow> config_toml \<Rightarrow> route_table option \<Rightarrow> store \<Rightarrow> (error, route_table) result \<times> store" where
  "build_table H cfg prev s =
     (case check_top H cfg of
        Some e \<Rightarrow> (Inl e, s)
      | None \<Rightarrow>
          (case parse_proxies (c_trusted_proxies cfg) of
             Inl e \<Rightarrow> (Inl e, s)
           | Inr proxies \<Rightarrow>
               (case check_routes H (from_secs (unat (c_default_cooldown_secs cfg)))
                       (c_failure_threshold cfg) (c_routes cfg) no_seen of
                  Inl e \<Rightarrow> (Inl e, s)
                | Inr cs \<Rightarrow>
                    (case install_routes (prev_by_name prev) (c_failure_threshold cfg) cs Map.empty s of
                       (Inl e, s') \<Rightarrow> (Inl e, s')
                     | (Inr rs, s') \<Rightarrow> (Inr (finish_table cfg proxies rs), s')))))"

end
