(* ===== verification/Config_Reload.thy ===== *)
theory Config_Reload
  imports Config
begin

text \<open>
  What \<open>build_table\<close> promises: a rejected configuration touches nothing, an accepted one gives a
  well-formed table whose upstreams share one breaker per name, and a reload keeps the breakers of
  the upstreams it keeps.
\<close>

section \<open>Validation\<close>

definition prefix_ok :: "string \<Rightarrow> bool" where
  "prefix_ok p \<longleftrightarrow>
     prefix [slash] p \<and> list_all is_ascii p \<and> normalize p = p \<and> semicolon \<notin> set p \<and> backslash \<notin> set p
     \<and> \<not> contains_str ''%2F'' (map to_ascii_uppercase p) \<and> \<not> contains_str ''%5C'' (map to_ascii_uppercase p)"

lemma check_prefix_None: "check_prefix S r = None \<longleftrightarrow> prefix_ok (rt_prefix r) \<and> rt_prefix r \<notin> S"
  by (auto simp: check_prefix_def prefix_ok_def Let_def list_ex_iff)

lemma or_insert_Some:
  "or_insert k v m = (w, m') \<Longrightarrow> m \<subseteq>\<^sub>m m' \<and> m' k = Some w"
  by (auto simp: or_insert_def map_le_def split: option.splits)

text \<open>What a validated route carries, with \<open>cd\<close> the cooldown and \<open>hm\<close> the health settings per name.\<close>

definition checked_ok ::
    "duration \<Rightarrow> u32 \<Rightarrow> (string \<rightharpoonup> duration) \<Rightarrow> (string \<rightharpoonup> string \<times> bool) \<Rightarrow> route_toml \<Rightarrow> checked \<Rightarrow> bool" where
  "checked_ok d th cd hm r c \<longleftrightarrow>
     ck_prefix c = rt_prefix r \<and> prefix_ok (ck_prefix c)
     \<and> ck_name c = upstream_name (ck_uri c)
     \<and> ck_cooldown c = route_cooldown d r
     \<and> ck_breaker c = route_breaker (ck_cooldown c) th \<and> validate (ck_breaker c) = Inr ()
     \<and> ck_rewrite_host c = rt_rewrite_host r \<and> ck_strip_prefix c = rt_strip_prefix r
     \<and> ck_health c = route_health r
     \<and> cd (ck_name c) = Some (ck_cooldown c) \<and> hm (ck_name c) = Some (ck_health c)
     \<and> check_cooldown (ck_cooldown c) r = None"

lemma checked_okD:
  assumes "checked_ok d th cd hm r c"
  shows "ck_prefix c = rt_prefix r" "prefix_ok (rt_prefix r)" "ck_name c = upstream_name (ck_uri c)"
    "ck_cooldown c = route_cooldown d r" "ck_breaker c = route_breaker (ck_cooldown c) th"
    "validate (ck_breaker c) = Inr ()" "ck_rewrite_host c = rt_rewrite_host r"
    "ck_strip_prefix c = rt_strip_prefix r" "ck_health c = route_health r"
    "cd (ck_name c) = Some (ck_cooldown c)" "hm (ck_name c) = Some (ck_health c)"
    "check_cooldown (ck_cooldown c) r = None"
  using assms unfolding checked_ok_def by metis+

lemma check_shared_ok:
  assumes "check_shared H d th r u s = Inr (s', c)" and "prefix_ok (rt_prefix r)"
  shows "checked_ok d th (cooldown_by_name s') (health_by_name s') r c
    \<and> seen_prefixes s' = seen_prefixes s
    \<and> cooldown_by_name s \<subseteq>\<^sub>m cooldown_by_name s' \<and> health_by_name s \<subseteq>\<^sub>m health_by_name s'"
proof -
  obtain first cds where cds: "or_insert (upstream_name u) (route_cooldown d r) (cooldown_by_name s) = (first, cds)"
    by (metis surj_pair)
  obtain hfirst hs where hs: "or_insert (upstream_name u) (route_health r) (health_by_name s) = (hfirst, hs)"
    by (metis surj_pair)
  have eq: "hfirst = route_health r"
    if "check_shared_health (upstream_name u) hfirst (route_health r) r = None"
    using that by (auto simp: check_shared_health_def prod_eq_iff split: if_splits)
  show ?thesis
    using assms or_insert_Some [OF cds] or_insert_Some [OF hs] eq
    by (auto simp: check_shared_def Let_def cds hs checked_ok_def split: option.splits sum.splits if_splits)
qed

lemma check_route_ok:
  assumes "check_route H d th r s = Inr (s', c)"
  shows "checked_ok d th (cooldown_by_name s') (health_by_name s') r c
    \<and> rt_prefix r \<notin> seen_prefixes s \<and> seen_prefixes s' = insert (rt_prefix r) (seen_prefixes s)
    \<and> cooldown_by_name s \<subseteq>\<^sub>m cooldown_by_name s' \<and> health_by_name s \<subseteq>\<^sub>m health_by_name s'"
  using assms check_shared_ok
  by (fastforce simp: check_route_def check_prefix_None split: option.splits sum.splits)

lemma checked_ok_mono:
  assumes "checked_ok d th cd hm r c" and "cd \<subseteq>\<^sub>m cd'" and "hm \<subseteq>\<^sub>m hm'"
  shows "checked_ok d th cd' hm' r c"
  using assms by (auto simp: checked_ok_def map_le_def dom_def)

lemma check_routes_ok:
  assumes "check_routes H d th rs s = Inr cs"
  shows "\<exists>cd hm. cooldown_by_name s \<subseteq>\<^sub>m cd \<and> health_by_name s \<subseteq>\<^sub>m hm
    \<and> list_all2 (checked_ok d th cd hm) rs cs
    \<and> distinct (map rt_prefix rs) \<and> set (map rt_prefix rs) \<inter> seen_prefixes s = {}"
  using assms
proof (induction rs arbitrary: s cs)
  case (Cons r rs)
  then obtain s' c cs' where r: "check_route H d th r s = Inr (s', c)"
    "check_routes H d th rs s' = Inr cs'" "cs = c # cs'"
    by (auto split: sum.splits)
  note ok = check_route_ok [OF r(1)]
  obtain cd hm where IH: "cooldown_by_name s' \<subseteq>\<^sub>m cd" "health_by_name s' \<subseteq>\<^sub>m hm"
    "list_all2 (checked_ok d th cd hm) rs cs'" "distinct (map rt_prefix rs)"
    "set (map rt_prefix rs) \<inter> seen_prefixes s' = {}"
    using Cons.IH [OF r(2)] by blast
  have "checked_ok d th cd hm r c" using ok IH(1,2) checked_ok_mono by blast
  then show ?case using ok IH r(3)
    by (intro exI [of _ cd] exI [of _ hm]) (auto intro: map_le_trans)
qed (auto intro: map_le_refl)

section \<open>Stores\<close>

text \<open>What a breaker is while it runs, apart from its tuning.\<close>

definition runtime :: "breaker \<Rightarrow> breaker" where
  "runtime b = b\<lparr>b_cooldown_millis := 0, b_failure_threshold := 0\<rparr>"

definition tuned :: "u32 \<Rightarrow> duration \<Rightarrow> breaker \<Rightarrow> bool" where
  "tuned th d b \<longleftrightarrow> b_failure_threshold b = th \<and> b_cooldown_millis b = of_nat (as_millis d)"

lemma reuse_store:
  "reuse d th hp hdis u s = (with_health hp hdis u,
     s\<lparr>breakers := (breakers s)[u_breaker u :=
       (breakers s ! u_breaker u)\<lparr>b_cooldown_millis := of_nat (as_millis d), b_failure_threshold := th\<rparr>]\<rparr>)"
  by (simp add: reuse_def on_breaker_def run_reconfigure)

lemma upstream_new_ok:
  assumes "validate cfg = Inr ()"
  shows "upstream_new u cfg s =
    (Inr \<lparr>u_uri = u, u_name = upstream_name u, u_breaker = length (breakers s),
          u_health_path = None, u_health_disabled = False\<rparr>,
     s\<lparr>breakers := breakers s @
       [unchecked_breaker (Some (upstream_name u)) True (cfg_cooldown cfg) (cfg_failure_threshold cfg)]\<rparr>)"
  using assms by (simp add: upstream_new_def for_upstream_def alloc_def Let_def)

lemma unchecked_tuned: "tuned th d (unchecked_breaker nm g d th)"
  "runtime (unchecked_breaker nm g d th) = fresh_breaker nm g"
  by (simp_all add: tuned_def runtime_def unchecked_breaker_def run_reconfigure fresh_breaker_def)

text \<open>A map of upstreams by name that agrees with a store.\<close>

definition names_ok :: "(string \<rightharpoonup> upstream) \<Rightarrow> store \<Rightarrow> bool" where
  "names_ok m s \<longleftrightarrow>
     (\<forall>n u. m n = Some u \<longrightarrow> u_name u = n \<and> u_breaker u < length (breakers s))
     \<and> (\<forall>n u k v. m n = Some u \<longrightarrow> m k = Some v \<longrightarrow> u_breaker u = u_breaker v \<longrightarrow> n = k)"

text \<open>An installed upstream: tuned as configured, with the breaker of its predecessor or a fresh one.\<close>

definition entry_ok ::
    "(string \<rightharpoonup> upstream) \<Rightarrow> u32 \<Rightarrow> (string \<rightharpoonup> duration) \<Rightarrow> (string \<rightharpoonup> string \<times> bool)
     \<Rightarrow> nat \<Rightarrow> breaker list \<Rightarrow> string \<Rightarrow> upstream \<Rightarrow> bool" where
  "entry_ok prev th cd hm n0 bs n u \<longleftrightarrow>
     tuned th (the (cd n)) (bs ! u_breaker u)
     \<and> u_health_path u = Some (fst (the (hm n))) \<and> u_health_disabled u = snd (the (hm n))
     \<and> (\<forall>v. prev n = Some v \<longrightarrow> u_breaker u = u_breaker v \<and> u_uri u = u_uri v)
     \<and> (prev n = None \<longrightarrow> n0 \<le> u_breaker u \<and> upstream_name (u_uri u) = n
          \<and> runtime (bs ! u_breaker u) = fresh_breaker (Some n) True)"

text \<open>The loop invariant of the second phase: \<open>m\<close> holds the upstreams installed so far.\<close>

definition installing ::
    "(string \<rightharpoonup> upstream) \<Rightarrow> u32 \<Rightarrow> (string \<rightharpoonup> duration) \<Rightarrow> (string \<rightharpoonup> string \<times> bool)
     \<Rightarrow> store \<Rightarrow> (string \<rightharpoonup> upstream) \<Rightarrow> store \<Rightarrow> bool" where
  "installing prev th cd hm s0 m s \<longleftrightarrow>
     names_ok m s
     \<and> st_clock s = st_clock s0 \<and> st_log s = st_log s0
     \<and> length (breakers s0) \<le> length (breakers s)
     \<and> (\<forall>i < length (breakers s0). runtime (breakers s ! i) = runtime (breakers s0 ! i))
     \<and> (\<forall>i < length (breakers s0). (\<forall>n u. m n = Some u \<longrightarrow> u_breaker u \<noteq> i) \<longrightarrow> breakers s ! i = breakers s0 ! i)
     \<and> (\<forall>n u. m n = Some u \<longrightarrow> entry_ok prev th cd hm (length (breakers s0)) (breakers s) n u)"

lemma names_inj:
  "names_ok m s \<Longrightarrow> m n = Some u \<Longrightarrow> m k = Some v \<Longrightarrow> u_breaker u = u_breaker v \<Longrightarrow> n = k"
  by (simp add: names_ok_def)

lemma installing_entry:
  "installing prev th cd hm s0 m s \<Longrightarrow> m n = Some u \<Longrightarrow>
   entry_ok prev th cd hm (length (breakers s0)) (breakers s) n u"
  unfolding installing_def by blast

lemma in_m_name: "installing prev th cd hm s0 m s \<Longrightarrow> m n = Some u \<Longrightarrow> u_name u = n"
  by (simp add: installing_def names_ok_def)

lemma installing_frame:
  "installing prev th cd hm s0 m s \<Longrightarrow> i < length (breakers s0) \<Longrightarrow>
   \<forall>n u. m n = Some u \<longrightarrow> u_breaker u \<noteq> i \<Longrightarrow> breakers s ! i = breakers s0 ! i"
  by (simp add: installing_def)

lemma installing_runtime:
  "installing prev th cd hm s0 m s \<Longrightarrow> i < length (breakers s0) \<Longrightarrow>
   runtime (breakers s ! i) = runtime (breakers s0 ! i)"
  by (simp add: installing_def)

lemma installing_log: "installing prev th cd hm s0 m s \<Longrightarrow> st_log s = st_log s0"
  by (simp add: installing_def)

lemma installing_insert:
  assumes inv: "installing prev th cd hm s0 m s" and "m n = None"
    and s': "st_clock s' = st_clock s" "st_log s' = st_log s" "length (breakers s) \<le> length (breakers s')"
      "\<forall>j < length (breakers s). j \<noteq> u_breaker u \<longrightarrow> breakers s' ! j = breakers s ! j"
    and u: "u_name u = n" "u_breaker u < length (breakers s')"
      "entry_ok prev th cd hm (length (breakers s0)) (breakers s') n u"
    and other: "\<forall>k v. m k = Some v \<longrightarrow> u_breaker v \<noteq> u_breaker u"
    and old: "u_breaker u < length (breakers s0) \<Longrightarrow>
       runtime (breakers s' ! u_breaker u) = runtime (breakers s ! u_breaker u)"
  shows "installing prev th cd hm s0 (m(n \<mapsto> u)) s'"
proof -
  have m: "u_name v = k" "u_breaker v < length (breakers s)" "breakers s' ! u_breaker v = breakers s ! u_breaker v"
    if "m k = Some v" for k v
    using inv that other s'(4) by (auto simp: installing_def names_ok_def)
  have inj: "m k = Some v \<Longrightarrow> m l = Some w \<Longrightarrow> u_breaker v = u_breaker w \<Longrightarrow> k = l" for k v l w
    using inv unfolding installing_def names_ok_def by blast
  have A: "names_ok (m(n \<mapsto> u)) s'"
    unfolding names_ok_def
  proof (intro conjI allI impI)
    fix k v
    assume "(m(n \<mapsto> u)) k = Some v"
    then show "u_name v = k" "u_breaker v < length (breakers s')"
      using m(1,2) [of k v] u(1,2) s'(3) by (auto split: if_splits)
  next
    fix k v l w
    assume "(m(n \<mapsto> u)) k = Some v" "(m(n \<mapsto> u)) l = Some w" "u_breaker v = u_breaker w"
    then show "k = l" using inj [of k v l w] other by (auto split: if_splits)
  qed
  have B: "runtime (breakers s' ! i) = runtime (breakers s0 ! i)" if "i < length (breakers s0)" for i
    using inv that old s'(4) by (cases "i = u_breaker u") (auto simp: installing_def)
  have D: "breakers s' ! i = breakers s0 ! i"
    if "i < length (breakers s0)" "\<forall>k v. (m(n \<mapsto> u)) k = Some v \<longrightarrow> u_breaker v \<noteq> i" for i
  proof -
    have "i \<noteq> u_breaker u" "\<forall>k v. m k = Some v \<longrightarrow> u_breaker v \<noteq> i"
      using that(2) \<open>m n = None\<close> by (metis fun_upd_apply option.distinct(1))+
    then show ?thesis using inv that(1) s'(4) by (auto simp: installing_def)
  qed
  have C: "st_clock s' = st_clock s0" "st_log s' = st_log s0" "length (breakers s0) \<le> length (breakers s')"
    using inv s'(1-3) by (simp_all add: installing_def)
  have E: "entry_ok prev th cd hm (length (breakers s0)) (breakers s') k v"
    if "(m(n \<mapsto> u)) k = Some v" for k v
  proof (cases "k = n")
    case False
    then have "m k = Some v" using that by simp
    then show ?thesis using installing_entry [OF inv, of k v] m(3) [of k v] by (simp add: entry_ok_def)
  qed (use that u(3) in simp)
  show ?thesis unfolding installing_def
    by (intro conjI allI impI) (fact A, fact C, fact C, fact C, erule B, erule (1) D, erule E)
qed

lemma install_upstream_ok:
  assumes inv: "installing prev th cd hm s0 m s" and prev: "names_ok prev s0"
    and c: "checked_ok d th cd hm r c"
  shows "\<exists>u m' s'. install_upstream prev th c m s = (Inr (u, m'), s')
    \<and> installing prev th cd hm s0 m' s' \<and> m \<subseteq>\<^sub>m m' \<and> m' (ck_name c) = Some u
    \<and> dom m' = insert (ck_name c) (dom m)"
proof (cases "m (ck_name c)")
  case (Some u)
  then show ?thesis using inv by (auto simp: install_upstream_def map_le_refl)
next
  case None
  let ?n = "ck_name c" and ?hp = "Some (fst (ck_health c))" and ?hd = "snd (ck_health c)"
  have cd: "the (cd ?n) = ck_cooldown c" "the (hm ?n) = ck_health c"
    using checked_okD(10,11) [OF c] by simp_all
  have le: "m \<subseteq>\<^sub>m m(?n \<mapsto> u)" for u using None by (auto simp: map_le_def dom_def)
  show ?thesis
  proof (cases "prev ?n")
    case (Some pu)
    have pu: "u_name pu = ?n" "u_breaker pu < length (breakers s0)"
      using prev Some by (auto simp: names_ok_def)
    have other: "u_breaker v \<noteq> u_breaker pu" if "m k = Some v" for k v
    proof (cases "prev k")
      case None
      then have "length (breakers s0) \<le> u_breaker v" using installing_entry [OF inv that] by (simp add: entry_ok_def)
      then show ?thesis using pu(2) by simp
    next
      case (Some w)
      then have "u_breaker v = u_breaker w" using installing_entry [OF inv that] by (simp add: entry_ok_def)
      moreover have "k \<noteq> ?n" using None that by auto
      ultimately show ?thesis using prev Some \<open>prev ?n = Some pu\<close> unfolding names_ok_def by metis
    qed
    let ?u = "with_health ?hp ?hd pu"
    let ?s = "s\<lparr>breakers := (breakers s)[u_breaker pu :=
       (breakers s ! u_breaker pu)\<lparr>b_cooldown_millis := of_nat (as_millis (ck_cooldown c)), b_failure_threshold := th\<rparr>]\<rparr>"
    have len: "u_breaker pu < length (breakers s)" using inv pu(2) by (simp add: installing_def)
    have "install_upstream prev th c m s = (Inr (?u, m(?n \<mapsto> ?u)), ?s)"
      using None Some by (simp add: install_upstream_def reuse_store)
    moreover have "installing prev th cd hm s0 (m(?n \<mapsto> ?u)) ?s"
      by (rule installing_insert [OF inv None])
         (use pu other len in \<open>simp_all add: with_health_def entry_ok_def tuned_def runtime_def cd Some\<close>)
    ultimately show ?thesis using le by auto
  next
    case new: None
    let ?b = "unchecked_breaker (Some ?n) True (ck_cooldown c) th"
    let ?u = "\<lparr>u_uri = ck_uri c, u_name = ?n, u_breaker = length (breakers s),
               u_health_path = ?hp, u_health_disabled = ?hd\<rparr>"
    let ?s = "s\<lparr>breakers := breakers s @ [?b]\<rparr>"
    have rb: "cfg_cooldown (ck_breaker c) = ck_cooldown c" "cfg_failure_threshold (ck_breaker c) = th"
      using checked_okD(5) [OF c] by (simp_all add: route_breaker_def with_failure_threshold_def with_cooldown_def)
    have v: "validate (ck_breaker c) = Inr ()" and nm: "upstream_name (ck_uri c) = ?n"
      using checked_okD(3,6) [OF c] by simp_all
    have "install_upstream prev th c m s = (Inr (?u, m(?n \<mapsto> ?u)), ?s)"
      using None new rb by (simp add: install_upstream_def upstream_new_ok [OF v] nm with_health_def Let_def)
    moreover have lt: "u_breaker v < length (breakers s)" if "m k = Some v" for k v
      using inv that by (simp add: installing_def names_ok_def)
    have "length (breakers s0) \<le> length (breakers s)" using inv by (simp add: installing_def)
    moreover have "\<forall>k v. m k = Some v \<longrightarrow> u_breaker v \<noteq> length (breakers s)" using lt by (metis less_irrefl)
    ultimately have "installing prev th cd hm s0 (m(?n \<mapsto> ?u)) ?s"
      by (intro installing_insert [OF inv None])
         (use new nm in \<open>simp_all add: nth_append entry_ok_def cd unchecked_tuned\<close>)
    moreover note \<open>install_upstream prev th c m s = _\<close>
    ultimately show ?thesis using le by auto
  qed
qed

lemma install_routes_ok:
  assumes "installing prev th cd hm s0 m s" and prev: "names_ok prev s0"
    and "list_all2 (checked_ok d th cd hm) rs cs"
  shows "\<exists>ts m' s'. install_routes prev th cs m s = (Inr ts, s')
    \<and> installing prev th cd hm s0 m' s' \<and> m \<subseteq>\<^sub>m m' \<and> dom m' = dom m \<union> ck_name ` set cs
    \<and> list_all2 (\<lambda>c t. r_prefix t = ck_prefix c \<and> m' (ck_name c) = Some (r_upstream t)
          \<and> r_rewrite_host t = ck_rewrite_host c \<and> r_strip_prefix t = ck_strip_prefix c) cs ts"
  using assms(1,3)
proof (induction cs arbitrary: rs m s)
  case (Cons c cs)
  then obtain r rs' where rs: "rs = r # rs'" "checked_ok d th cd hm r c" "list_all2 (checked_ok d th cd hm) rs' cs"
    by (auto simp: list_all2_Cons2)
  obtain u m1 s1 where one: "install_upstream prev th c m s = (Inr (u, m1), s1)"
    "installing prev th cd hm s0 m1 s1" "m \<subseteq>\<^sub>m m1" "m1 (ck_name c) = Some u"
    "dom m1 = insert (ck_name c) (dom m)"
    using install_upstream_ok [OF Cons.prems(1) prev rs(2)] by blast
  obtain ts m2 s2 where rest: "install_routes prev th cs m1 s1 = (Inr ts, s2)"
    "installing prev th cd hm s0 m2 s2" "m1 \<subseteq>\<^sub>m m2" "dom m2 = dom m1 \<union> ck_name ` set cs"
    "list_all2 (\<lambda>c t. r_prefix t = ck_prefix c \<and> m2 (ck_name c) = Some (r_upstream t)
          \<and> r_rewrite_host t = ck_rewrite_host c \<and> r_strip_prefix t = ck_strip_prefix c) cs ts"
    using Cons.IH [OF one(2) rs(3)] by blast
  have "m2 (ck_name c) = Some u" using one(4) rest(3) by (force simp: map_le_def)
  then show ?case using one rest map_le_trans [OF one(3) rest(3)]
    by (intro exI [of _ "\<lparr>r_prefix = ck_prefix c, r_upstream = u, r_rewrite_host = ck_rewrite_host c,
           r_strip_prefix = ck_strip_prefix c\<rparr> # ts"] exI [of _ m2] exI [of _ s2])
       (simp add: route_new_def with_strip_prefix_def with_rewrite_host_def)
qed (auto intro: map_le_refl)

section \<open>Well-formed tables\<close>

text \<open>A table as \<open>build_table\<close> makes them: distinct normal prefixes, one upstream per name, one
  breaker per upstream.\<close>

definition table_ok :: "route_table \<Rightarrow> store \<Rightarrow> bool" where
  "table_ok t s \<longleftrightarrow>
     distinct (map r_prefix (routes t)) \<and> (\<forall>r \<in> set (routes t). prefix_ok (r_prefix r))
     \<and> (\<forall>r \<in> set (routes t). u_breaker (r_upstream r) < length (breakers s))
     \<and> (\<forall>r \<in> set (routes t). \<forall>r' \<in> set (routes t).
          (u_name (r_upstream r) = u_name (r_upstream r') \<longleftrightarrow> u_breaker (r_upstream r) = u_breaker (r_upstream r'))
          \<and> (u_name (r_upstream r) = u_name (r_upstream r') \<longrightarrow> r_upstream r = r_upstream r'))"

lemma prev_by_name_Some:
  "prev_by_name prev n = Some u \<longleftrightarrow> (\<exists>t. prev = Some t \<and> u \<in> set (upstreams t) \<and> u_name u = n)"
proof -
  have "distinct (map fst (map (\<lambda>u. (u_name u, u)) (upstreams t)))" for t
    using upstreams_names(1) [of t] by (simp add: comp_def)
  then show ?thesis by (auto simp: prev_by_name_def map_of_eq_Some_iff split: option.split)
qed

lemma prev_names_ok:
  assumes "\<forall>t. prev = Some t \<longrightarrow> table_ok t s"
  shows "names_ok (prev_by_name prev) s"
proof -
  have sub: "\<exists>r \<in> set (routes t). r_upstream r = u" if "u \<in> set (upstreams t)" for u t
    using that unseen_sub [of "[]" "routes t"] by (auto simp: upstreams_def)
  have "u_breaker u < length (breakers s)" "u_breaker u = u_breaker v \<Longrightarrow> u_name u = u_name v"
    if "prev = Some t" "u \<in> set (upstreams t)" "v \<in> set (upstreams t)" for t u v
    using sub [OF that(2)] sub [OF that(3)] assms that(1) by (auto simp: table_ok_def)
  then show ?thesis unfolding names_ok_def prev_by_name_Some by blast
qed

lemma upstreams_sub: "u \<in> set (upstreams t) \<Longrightarrow> \<exists>r \<in> set (routes t). r_upstream r = u"
  using unseen_sub [of "[]" "routes t"] by (auto simp: upstreams_def)

lemma routes_finish: "routes (finish_table cfg p rs) = sort_key (\<lambda>r. - int (length (r_prefix r))) rs"
  by (simp add: finish_table_def with_defs table_new_def)

lemma installing_start: "installing prev th cd hm s Map.empty s"
  by (simp add: installing_def names_ok_def)

text \<open>Everything \<open>build_table\<close> did when it returned a table.\<close>

lemma build_table_Inr:
  assumes "build_table H cfg prev s = (Inr t, s')" and "\<forall>p. prev = Some p \<longrightarrow> table_ok p s"
  obtains cd hm cs ts m where
    "list_all2 (checked_ok (from_secs (unat (c_default_cooldown_secs cfg))) (c_failure_threshold cfg) cd hm) (c_routes cfg) cs"
    "distinct (map rt_prefix (c_routes cfg))"
    "installing (prev_by_name prev) (c_failure_threshold cfg) cd hm s m s'" "dom m = ck_name ` set cs"
    "list_all2 (\<lambda>c t. r_prefix t = ck_prefix c \<and> m (ck_name c) = Some (r_upstream t)
       \<and> r_rewrite_host t = ck_rewrite_host c \<and> r_strip_prefix t = ck_strip_prefix c) cs ts"
    "routes t = sort_key (\<lambda>r. - int (length (r_prefix r))) ts"
proof -
  obtain proxies cs where cs: "check_routes H (from_secs (unat (c_default_cooldown_secs cfg)))
      (c_failure_threshold cfg) (c_routes cfg) no_seen = Inr cs"
    and inst: "(case install_routes (prev_by_name prev) (c_failure_threshold cfg) cs Map.empty s of
       (Inl e, s') \<Rightarrow> (Inl e, s') | (Inr rs, s') \<Rightarrow> (Inr (finish_table cfg proxies rs), s')) = (Inr t, s')"
    using assms(1) unfolding build_table_def by (auto split: option.splits sum.splits)
  obtain cd hm where ok: "list_all2 (checked_ok (from_secs (unat (c_default_cooldown_secs cfg)))
      (c_failure_threshold cfg) cd hm) (c_routes cfg) cs" "distinct (map rt_prefix (c_routes cfg))"
    using check_routes_ok [OF cs] by blast
  obtain ts m s2 where i: "install_routes (prev_by_name prev) (c_failure_threshold cfg) cs Map.empty s = (Inr ts, s2)"
    "installing (prev_by_name prev) (c_failure_threshold cfg) cd hm s m s2" "dom m = ck_name ` set cs"
    "list_all2 (\<lambda>c t. r_prefix t = ck_prefix c \<and> m (ck_name c) = Some (r_upstream t)
       \<and> r_rewrite_host t = ck_rewrite_host c \<and> r_strip_prefix t = ck_strip_prefix c) cs ts"
    using install_routes_ok [OF installing_start prev_names_ok [OF assms(2)] ok(1)] by auto
  have eq: "s2 = s'" "t = finish_table cfg proxies ts" using inst i(1) by simp_all
  show thesis using that [OF ok i(2) [unfolded eq(1)] i(3,4)] routes_finish eq(2) by blast
qed

lemma install_never_fails:
  "list_all (\<lambda>c. validate (ck_breaker c) = Inr ()) cs \<Longrightarrow>
   \<exists>ts s'. install_routes prev th cs m s = (Inr ts, s')"
proof (induction cs arbitrary: m s)
  case (Cons c cs)
  have "\<exists>u m' s1. install_upstream prev th c m s = (Inr (u, m'), s1)"
    using Cons.prems by (cases "m (ck_name c)"; cases "prev (ck_name c)")
      (simp_all add: install_upstream_def upstream_new_ok Let_def reuse_store)
  then obtain u m' s1 where "install_upstream prev th c m s = (Inr (u, m'), s1)" by blast
  moreover obtain ts s2 where "install_routes prev th cs m' s1 = (Inr ts, s2)"
    using Cons.IH [of m' s1] Cons.prems by auto
  ultimately show ?case by (simp add: Let_def)
qed simp

section \<open>A rejected configuration\<close>

text \<open>\<open>build_table\<close> fails without side effects: when it returns an error, no breaker of the table
  still in use was retuned, none was added and nothing was logged. The second loop, which does
  touch breakers, never fails, because the first has already validated every breaker.\<close>

lemma rejected_same_store:
  assumes "build_table H cfg prev s = (Inl e, s')"
  shows "s' = s"
proof (cases "check_routes H (from_secs (unat (c_default_cooldown_secs cfg)))
      (c_failure_threshold cfg) (c_routes cfg) no_seen")
  case (Inl e')
  then show ?thesis using assms by (auto simp: build_table_def split: option.splits sum.splits)
next
  case (Inr cs)
  obtain cd hm where "list_all2 (checked_ok (from_secs (unat (c_default_cooldown_secs cfg)))
      (c_failure_threshold cfg) cd hm) (c_routes cfg) cs"
    using check_routes_ok [OF Inr] by blast
  then have "list_all (\<lambda>c. validate (ck_breaker c) = Inr ()) cs"
    by (induction rule: list_all2_induct) (simp_all add: checked_okD(6))
  then obtain ts s2 where "install_routes (prev_by_name prev) (c_failure_threshold cfg) cs Map.empty s = (Inr ts, s2)"
    using install_never_fails by blast
  then show ?thesis using assms Inr by (auto simp: build_table_def split: option.splits sum.splits)
qed

definition sample_parsers :: http_parsers where
  "sample_parsers = \<lparr>parse_uri = (\<lambda>s. if s = ''http://a:81'' then Some sample_uri else None),
     path_and_query_ok = (\<lambda>_. True)\<rparr>"

definition sample_toml :: "string \<Rightarrow> u64 option \<Rightarrow> route_toml" where
  "sample_toml p cd = \<lparr>rt_prefix = p, rt_upstream = ''http://a:81'', rt_cooldown_secs = cd,
     rt_health_path = None, rt_health_disabled = False, rt_rewrite_host = False, rt_strip_prefix = True\<rparr>"

definition empty_store :: store where
  "empty_store = \<lparr>breakers = [], st_clock = 0, st_log = []\<rparr>"

section \<open>An accepted configuration\<close>

lemma list_all2_dom:
  "list_all2 P xs ys \<Longrightarrow> y \<in> set ys \<Longrightarrow> \<exists>x \<in> set xs. P x y"
  by (induction rule: list_all2_induct) auto

lemma list_all2_ran:
  "list_all2 P xs ys \<Longrightarrow> x \<in> set xs \<Longrightarrow> \<exists>y \<in> set ys. P x y"
  by (induction rule: list_all2_induct) auto

lemma matches_self: "prefix [slash] p \<Longrightarrow> prefix_matches p p"
  by (simp add: prefix_matches_def)

lemma own_prefix:
  assumes "distinct (map r_prefix rs)" "r \<in> set rs" "prefix_ok (r_prefix r)"
  shows "find (\<lambda>x. prefix_matches (r_prefix x) (normalize (r_prefix r)))
           (sort_key (\<lambda>r. - int (length (r_prefix r))) rs) = Some r" (is "?f = _")
proof -
  have n: "normalize (r_prefix r) = r_prefix r" and m: "prefix_matches (r_prefix r) (r_prefix r)"
    using assms(3) by (simp_all add: prefix_ok_def matches_self)
  then have "?f \<noteq> None" using assms(2) by (auto simp: find_None_iff)
  then obtain x where x: "?f = Some x" by blast
  note long = find_sorted_longest [OF x]
  have "length (r_prefix x) = length (r_prefix r)"
    using long n m assms(2) matches_prefix prefix_length_le by (metis antisym)
  then have "r_prefix x = r_prefix r" using long n m matching_same_length by metis
  then show ?thesis using x long assms(1,2) by (auto simp: distinct_map dest: inj_onD)
qed

text \<open>The routes of a table and what they were built from.\<close>

definition from_toml ::
    "duration \<Rightarrow> (string \<rightharpoonup> duration) \<Rightarrow> (string \<rightharpoonup> string \<times> bool) \<Rightarrow> (string \<rightharpoonup> upstream)
     \<Rightarrow> route_toml \<Rightarrow> route \<Rightarrow> bool" where
  "from_toml d cd hm m rt r \<longleftrightarrow>
     r_prefix r = rt_prefix rt \<and> prefix_ok (r_prefix r)
     \<and> m (u_name (r_upstream r)) = Some (r_upstream r)
     \<and> r_rewrite_host r = rt_rewrite_host rt \<and> r_strip_prefix r = rt_strip_prefix rt
     \<and> cd (u_name (r_upstream r)) = Some (route_cooldown d rt)
     \<and> hm (u_name (r_upstream r)) = Some (route_health rt)
     \<and> check_cooldown (route_cooldown d rt) rt = None"

lemma built_routes:
  assumes "build_table H cfg prev s = (Inr t, s')" and "\<forall>p. prev = Some p \<longrightarrow> table_ok p s"
  obtains cd hm m ts where
    "installing (prev_by_name prev) (c_failure_threshold cfg) cd hm s m s'"
    "set (routes t) = set ts" "distinct (map r_prefix ts)"
    "routes t = sort_key (\<lambda>r. - int (length (r_prefix r))) ts"
    "list_all2 (from_toml (from_secs (unat (c_default_cooldown_secs cfg))) cd hm m) (c_routes cfg) ts"
    "\<forall>n u. m n = Some u \<longrightarrow> (\<exists>r \<in> set ts. r_upstream r = u)"
proof -
  let ?d = "from_secs (unat (c_default_cooldown_secs cfg))" and ?th = "c_failure_threshold cfg"
  obtain cd hm cs ts m where b: "list_all2 (checked_ok ?d ?th cd hm) (c_routes cfg) cs"
    "distinct (map rt_prefix (c_routes cfg))" "installing (prev_by_name prev) ?th cd hm s m s'" "dom m = ck_name ` set cs"
    "list_all2 (\<lambda>c t. r_prefix t = ck_prefix c \<and> m (ck_name c) = Some (r_upstream t)
       \<and> r_rewrite_host t = ck_rewrite_host c \<and> r_strip_prefix t = ck_strip_prefix c) cs ts"
    "routes t = sort_key (\<lambda>r. - int (length (r_prefix r))) ts"
    using assms by (rule build_table_Inr)
  have name: "u_name u = n" if "m n = Some u" for n u
    using b(3) that by (simp add: installing_def names_ok_def)
  have "list_all2 (from_toml ?d cd hm m) (c_routes cfg) ts"
  proof (rule list_all2_trans [OF _ b(1,5)])
    fix rt c and r :: route
    assume c: "checked_ok ?d ?th cd hm rt c"
      and r: "r_prefix r = ck_prefix c \<and> m (ck_name c) = Some (r_upstream r)
       \<and> r_rewrite_host r = ck_rewrite_host c \<and> r_strip_prefix r = ck_strip_prefix c"
    then have "u_name (r_upstream r) = ck_name c" using name by blast
    then show "from_toml ?d cd hm m rt r" using r checked_okD [OF c] by (simp add: from_toml_def)
  qed
  moreover then have "map r_prefix ts = map rt_prefix (c_routes cfg)"
    by (induction rule: list_all2_induct) (auto simp: from_toml_def)
  moreover have "\<exists>r \<in> set ts. r_upstream r = u" if mu: "m n = Some u" for n u
  proof -
    have "n \<in> ck_name ` set cs" using b(4) mu by (simp add: set_eq_iff [of "dom m"] dom_def) blast
    then obtain c where c: "c \<in> set cs" "ck_name c = n" by (auto simp: image_iff)
    from list_all2_ran [OF b(5) c(1)] obtain r where "r \<in> set ts" "m n = Some (r_upstream r)"
      unfolding c(2) by blast
    then show ?thesis using mu by auto
  qed
  ultimately show thesis using that [OF b(3)] b(2,6) by simp
qed

text \<open>The upstreams of the new table by name are those that were installed.\<close>

lemma built_names:
  assumes "build_table H cfg prev s = (Inr t, s')" and "\<forall>p. prev = Some p \<longrightarrow> table_ok p s"
  shows "\<exists>cd hm. installing (prev_by_name prev) (c_failure_threshold cfg) cd hm s (prev_by_name (Some t)) s'"
proof -
  obtain cd hm m ts where inv: "installing (prev_by_name prev) (c_failure_threshold cfg) cd hm s m s'"
    and ts: "set (routes t) = set ts" "distinct (map r_prefix ts)"
      "routes t = sort_key (\<lambda>r. - int (length (r_prefix r))) ts"
    and all: "list_all2 (from_toml (from_secs (unat (c_default_cooldown_secs cfg))) cd hm m) (c_routes cfg) ts"
    and used: "\<forall>n u. m n = Some u \<longrightarrow> (\<exists>r \<in> set ts. r_upstream r = u)"
    using assms by (rule built_routes)
  have in_m: "m (u_name u) = Some u" if u: "u \<in> set (upstreams t)" for u
    using upstreams_sub [OF u] list_all2_dom [OF all] ts(1) by (fastforce simp: from_toml_def)
  have "u \<in> set (upstreams t) \<and> u_name u = n" if mu: "m n = Some u" for n u
  proof -
    obtain r where r: "r \<in> set (routes t)" "r_upstream r = u" using used mu ts(1) by blast
    obtain v where v: "v \<in> set (upstreams t)" "u_name v = u_name u"
      using upstreams_names(2) [of t] r by (metis image_iff)
    then show ?thesis using in_m [OF v(1)] in_m_name [OF inv mu] mu by simp
  qed
  then have "prev_by_name (Some t) n = Some u \<longleftrightarrow> m n = Some u" for n u
    using in_m by (auto simp: prev_by_name_Some)
  then have "prev_by_name (Some t) = m" by (intro ext) (metis not_None_eq)
  then show ?thesis using inv by blast
qed

lemma built_wf:
  assumes "build_table H cfg prev s = (Inr t, s')" and "\<forall>p. prev = Some p \<longrightarrow> table_ok p s"
  shows "table_ok t s'"
proof -
  obtain cd hm m ts where inv: "installing (prev_by_name prev) (c_failure_threshold cfg) cd hm s m s'"
    and ts: "set (routes t) = set ts" "distinct (map r_prefix ts)"
      "routes t = sort_key (\<lambda>r. - int (length (r_prefix r))) ts"
    and all: "list_all2 (from_toml (from_secs (unat (c_default_cooldown_secs cfg))) cd hm m) (c_routes cfg) ts"
    and used: "\<forall>n u. m n = Some u \<longrightarrow> (\<exists>r \<in> set ts. r_upstream r = u)"
    using assms by (rule built_routes)
  have r: "prefix_ok (r_prefix r)" "m (u_name (r_upstream r)) = Some (r_upstream r)" if "r \<in> set ts" for r
    using list_all2_dom [OF all that] by (auto simp: from_toml_def)
  have names: "names_ok m s'" using inv by (simp add: installing_def)
  have u: "u_breaker (r_upstream r) < length (breakers s')" if "r \<in> set ts" for r
    using r(2) [OF that] names unfolding names_ok_def by blast
  have same: "u_name (r_upstream r) = u_name (r_upstream r') \<Longrightarrow> r_upstream r = r_upstream r'"
    if "r \<in> set ts" "r' \<in> set ts" for r r'
    using r(2) [OF that(1)] r(2) [OF that(2)] by (metis option.inject)
  have inj: "u_breaker (r_upstream r) = u_breaker (r_upstream r') \<Longrightarrow> u_name (r_upstream r) = u_name (r_upstream r')"
    if "r \<in> set ts" "r' \<in> set ts" for r r'
    using r(2) [OF that(1)] r(2) [OF that(2)] names_inj [OF names] by blast
  show ?thesis
    unfolding table_ok_def ts(1)
  proof (intro conjI ballI)
    show "distinct (map r_prefix (routes t))" using ts by (simp add: distinct_map)
  next
    fix r assume "r \<in> set ts"
    then show "prefix_ok (r_prefix r)" "u_breaker (r_upstream r) < length (breakers s')"
      by (rule r(1), rule u)
  next
    fix r r' assume "r \<in> set ts" "r' \<in> set ts"
    note same [OF this] inj [OF this]
    then show "u_name (r_upstream r) = u_name (r_upstream r') \<longleftrightarrow> u_breaker (r_upstream r) = u_breaker (r_upstream r')"
      "u_name (r_upstream r) = u_name (r_upstream r') \<longrightarrow> r_upstream r = r_upstream r'" by auto
  qed
qed

text \<open>C24. A table that \<open>build_table\<close> returns is well-formed with its breakers, given a well-formed
  previous table: prefixes are distinct and normal, routes to one \<open>host:port\<close> share one upstream and
  one breaker and others never do, and every configured prefix, requested as it is written,
  reaches its own route.\<close>

theorem built_table_ok:
  assumes "build_table H cfg prev s = (Inr t, s')" and "\<forall>p. prev = Some p \<longrightarrow> table_ok p s"
  shows "table_ok t s' \<and> (\<forall>r \<in> set (routes t). lookup t (r_prefix r) = Some r)"
proof -
  obtain cd hm m ts where inv: "installing (prev_by_name prev) (c_failure_threshold cfg) cd hm s m s'"
    and ts: "set (routes t) = set ts" "distinct (map r_prefix ts)"
      "routes t = sort_key (\<lambda>r. - int (length (r_prefix r))) ts"
    and all: "list_all2 (from_toml (from_secs (unat (c_default_cooldown_secs cfg))) cd hm m) (c_routes cfg) ts"
    and used: "\<forall>n u. m n = Some u \<longrightarrow> (\<exists>r \<in> set ts. r_upstream r = u)"
    using assms by (rule built_routes)
  have "lookup t (r_prefix r) = Some r" if r: "r \<in> set ts" for r
  proof -
    have "prefix_ok (r_prefix r)" using list_all2_dom [OF all r] by (auto simp: from_toml_def)
    then show ?thesis using own_prefix [OF ts(2) r] by (simp add: lookup_def ts(3) Let_def)
  qed
  then show ?thesis using built_wf [OF assms] ts(1) by simp
qed

definition sample_config :: config_toml where
  "sample_config = default_config [sample_toml ''/'' (Some 60), sample_toml ''/api'' (Some 60)]"

definition sample_built :: "route_table \<times> store" where
  "sample_built =
     (case build_table sample_parsers sample_config None empty_store of
        (Inr t, s) \<Rightarrow> (t, s) | (Inl _, s) \<Rightarrow> (table_new [] 0, s))"

lemma sample_built: "build_table sample_parsers sample_config None empty_store = (Inr (fst sample_built), snd sample_built)"
proof -
  have "fst (build_table sample_parsers sample_config None empty_store) = Inr (fst sample_built)" by code_simp
  moreover obtain x s where b: "build_table sample_parsers sample_config None empty_store = (x, s)" by fastforce
  ultimately have "x = Inr (fst sample_built)" by simp
  moreover then have "snd sample_built = s" unfolding sample_built_def b by (simp split: sum.split)
  ultimately show ?thesis using b by simp
qed

theorem built_table_ok_witness:
  "table_ok (fst sample_built) (snd sample_built)
   \<and> map r_prefix (routes (fst sample_built)) = [''/api'', ''/'']
   \<and> length (breakers (snd sample_built)) = 1"
proof -
  have "map r_prefix (routes (fst sample_built)) = [''/api'', ''/'']" "length (breakers (snd sample_built)) = 1"
    by code_simp+
  then show ?thesis using built_table_ok [OF sample_built] by simp
qed

text \<open>C25. An accepted configuration is implemented as written: there is one route per entry, and the
  route of an entry has its prefix and flags, its health settings, and a breaker tuned to the
  configured threshold and to the entry's own cooldown (or the default), although routes to one
  upstream share one breaker.\<close>

theorem table_implements_config:
  assumes "build_table H cfg prev s = (Inr t, s')" and "\<forall>p. prev = Some p \<longrightarrow> table_ok p s"
  shows "length (routes t) = length (c_routes cfg)
    \<and> (\<forall>rt \<in> set (c_routes cfg). \<exists>r \<in> set (routes t).
         r_prefix r = rt_prefix rt
         \<and> r_rewrite_host r = rt_rewrite_host rt \<and> r_strip_prefix r = rt_strip_prefix rt
         \<and> (health_path (r_upstream r), u_health_disabled (r_upstream r)) = route_health rt
         \<and> tuned (c_failure_threshold cfg) (route_cooldown (from_secs (unat (c_default_cooldown_secs cfg))) rt)
              (breakers s' ! u_breaker (r_upstream r)))"
proof -
  obtain cd hm m ts where inv: "installing (prev_by_name prev) (c_failure_threshold cfg) cd hm s m s'"
    and ts: "set (routes t) = set ts" "distinct (map r_prefix ts)"
      "routes t = sort_key (\<lambda>r. - int (length (r_prefix r))) ts"
    and all: "list_all2 (from_toml (from_secs (unat (c_default_cooldown_secs cfg))) cd hm m) (c_routes cfg) ts"
    and used: "\<forall>n u. m n = Some u \<longrightarrow> (\<exists>r \<in> set ts. r_upstream r = u)"
    using assms by (rule built_routes)
  have "\<exists>r \<in> set ts. r_prefix r = rt_prefix rt
         \<and> r_rewrite_host r = rt_rewrite_host rt \<and> r_strip_prefix r = rt_strip_prefix rt
         \<and> (health_path (r_upstream r), u_health_disabled (r_upstream r)) = route_health rt
         \<and> tuned (c_failure_threshold cfg) (route_cooldown (from_secs (unat (c_default_cooldown_secs cfg))) rt)
              (breakers s' ! u_breaker (r_upstream r))" if rt: "rt \<in> set (c_routes cfg)" for rt
  proof -
    obtain r where r: "r \<in> set ts" and f: "from_toml (from_secs (unat (c_default_cooldown_secs cfg))) cd hm m rt r"
      using list_all2_ran [OF all rt] by blast
    have "m (u_name (r_upstream r)) = Some (r_upstream r)" using f by (simp add: from_toml_def)
    note e = installing_entry [OF inv this]
    show ?thesis using r f e
      by (intro bexI [of _ r]) (auto simp: from_toml_def entry_ok_def health_path_def)
  qed
  then show ?thesis using ts list_all2_lengthD [OF all] by simp
qed

theorem table_implements_config_witness:
  "\<exists>r \<in> set (routes (fst sample_built)).
     r_prefix r = ''/api'' \<and> health_path (r_upstream r) = ''/health''
     \<and> tuned 3 (from_secs 60) (breakers (snd sample_built) ! u_breaker (r_upstream r))"
proof -
  have "sample_toml ''/api'' (Some 60) \<in> set (c_routes sample_config)"
    by (simp add: sample_config_def default_config_def)
  then show ?thesis using table_implements_config [OF sample_built]
    by (fastforce simp: sample_toml_def route_cooldown_def route_health_def sample_config_def default_config_def)
qed

section \<open>Reloading\<close>

text \<open>C7. A hot reload neither resets nor strands a breaker. An upstream of the new table whose
  \<open>host:port\<close> the old table had uses the breaker the old table uses; any other gets a fresh closed
  breaker of its own. Of the breakers there were, each keeps its state, failure count and time
  stamps, and one that the new table does not use is not changed at all. Nothing is logged.\<close>

theorem reload_keeps_breakers:
  assumes "build_table H cfg (Some old) s = (Inr t, s')" and "table_ok old s"
  shows "(\<forall>u \<in> set (upstreams t).
            (\<forall>v \<in> set (upstreams old). u_name v = u_name u \<longrightarrow> u_breaker u = u_breaker v)
            \<and> (u_name u \<notin> u_name ` set (upstreams old) \<longrightarrow>
                 length (breakers s) \<le> u_breaker u
                 \<and> runtime (breakers s' ! u_breaker u) = fresh_breaker (Some (u_name u)) True))
    \<and> (\<forall>i < length (breakers s). runtime (breakers s' ! i) = runtime (breakers s ! i)
         \<and> (i \<notin> u_breaker ` set (upstreams t) \<longrightarrow> breakers s' ! i = breakers s ! i))
    \<and> st_log s' = st_log s"
proof -
  obtain cd hm where inv: "installing (prev_by_name (Some old)) (c_failure_threshold cfg) cd hm s (prev_by_name (Some t)) s'"
    using built_names [OF assms(1)] assms(2) by auto
  have new: "prev_by_name (Some t) (u_name u) = Some u" if "u \<in> set (upstreams t)" for u t
    using that by (simp add: prev_by_name_Some)
  have A: "u_breaker u = u_breaker v"
    if "u \<in> set (upstreams t)" "v \<in> set (upstreams old)" "u_name v = u_name u" for u v
    using installing_entry [OF inv new [OF that(1)]] new [OF that(2)] that(3) by (simp add: entry_ok_def)
  have B: "length (breakers s) \<le> u_breaker u"
      "runtime (breakers s' ! u_breaker u) = fresh_breaker (Some (u_name u)) True"
    if "u \<in> set (upstreams t)" "u_name u \<notin> u_name ` set (upstreams old)" for u
  proof -
    have "prev_by_name (Some old) (u_name u) = None"
      using that(2) prev_by_name_Some [of "Some old" "u_name u"] by (metis image_eqI not_None_eq option.inject)
    then show "length (breakers s) \<le> u_breaker u"
      "runtime (breakers s' ! u_breaker u) = fresh_breaker (Some (u_name u)) True"
      using installing_entry [OF inv new [OF that(1)]] by (simp_all add: entry_ok_def)
  qed
  have D: "breakers s' ! i = breakers s ! i"
    if "i < length (breakers s)" "i \<notin> u_breaker ` set (upstreams t)" for i
    using installing_frame [OF inv that(1)] that(2) by (auto simp: prev_by_name_Some)
  show ?thesis using A B D installing_runtime [OF inv] installing_log [OF inv] by blast
qed

definition opened :: "store \<Rightarrow> store" where
  "opened s = s\<lparr>breakers := map (\<lambda>b. b\<lparr>b_state := as_u8 Open, b_opened_at_millis := 7\<rparr>) (breakers s)\<rparr>"

theorem reload_keeps_breakers_witness:
  "let r = build_table sample_parsers (default_config [sample_toml ''/x'' (Some 90)])
             (Some (fst sample_built)) (opened (snd sample_built)) in
   \<exists>t. fst r = Inr t \<and> map u_breaker (upstreams t) = [0]
     \<and> runtime (breakers (snd r) ! 0) = runtime (breakers (opened (snd sample_built)) ! 0)
     \<and> b_state (breakers (snd r) ! 0) = as_u8 Open \<and> b_cooldown_millis (breakers (snd r) ! 0) = 90000"
proof -
  let ?r = "build_table sample_parsers (default_config [sample_toml ''/x'' (Some 90)])
             (Some (fst sample_built)) (opened (snd sample_built))"
  have ok: "table_ok (fst sample_built) (opened (snd sample_built))" by code_simp
  have "case ?r of
      (Inl _, _) \<Rightarrow> False
    | (Inr t, s) \<Rightarrow> map u_breaker (upstreams t) = [0] \<and> b_state (breakers s ! 0) = as_u8 Open
        \<and> b_cooldown_millis (breakers s ! 0) = 90000" by code_simp
  then obtain t where t: "fst ?r = Inr t" "map u_breaker (upstreams t) = [0]"
    and c: "b_state (breakers (snd ?r) ! 0) = as_u8 Open" "b_cooldown_millis (breakers (snd ?r) ! 0) = 90000"
    by (cases ?r; cases "fst ?r") auto
  have r: "?r = (Inr t, snd ?r)" using t(1) by (metis prod.collapse)
  have len: "0 < length (breakers (opened (snd sample_built)))" by code_simp
  from conjunct1 [OF conjunct2 [OF reload_keeps_breakers [OF r ok]]]
  have "runtime (breakers (snd ?r) ! 0) = runtime (breakers (opened (snd sample_built)) ! 0)"
    using len by fast
  then show ?thesis unfolding Let_def using t c by (intro exI [of _ t] conjI)
qed

section \<open>Bounds\<close>

lemma first_error_None: "first_error es = None \<longleftrightarrow> (\<forall>e \<in> set es. e = None)"
  by (induction es) (auto simp: first_error_def)

lemma check_secs_None:
  "check_secs (k, v) = None \<longleftrightarrow> 1 \<le> unat v \<and> unat v \<le> 86400"
  by (auto simp: check_secs_def max_secs_def word_less_nat_alt unat_eq_zero [symmetric])

lemma from_secs_mono [simp]: "from_secs a \<le> from_secs b \<longleftrightarrow> a \<le> b"
  by (simp add: from_secs_def)

lemma cooldown_range:
  assumes "check_cooldown (from_secs n) r = None"
  shows "1 \<le> n \<and> n \<le> 86400 \<and> unat (of_nat (as_millis (from_secs n)) :: u64) = 1000 * n"
proof -
  have "n \<noteq> 0" "n \<le> 86400"
    using assms by (auto simp: check_cooldown_def max_secs_def from_secs_def as_secs_def split: if_splits)
  then show ?thesis by (simp add: as_millis_from_secs unsigned_of_nat take_bit_nat_eq_self del: of_nat_mult)
qed

lemma route_cooldown_secs: "\<exists>n. route_cooldown (from_secs d) r = from_secs n"
  by (auto simp: route_cooldown_def split: option.split)

text \<open>C26. Every duration of an accepted configuration lies between a second and a day, the health interval
  and the default cooldown included (the shutdown delay lies between nothing and a day), so that no
  arithmetic on durations overflows, not even the triple of the health interval that \<open>main\<close> computes after
  \<open>build_table\<close> has accepted it; and every breaker the table uses has a threshold of at least one and a
  cooldown of a second to a day, whose milliseconds fit the atomic cell.\<close>

theorem accepted_in_range:
  assumes "build_table H cfg prev s = (Inr t, s')" and "\<forall>p. prev = Some p \<longrightarrow> table_ok p s"
  shows "(\<forall>d \<in> {upstream_timeout t, keepalive_timeout t, request_body_idle_timeout t,
                 request_body_timeout t, drain_timeout t}. from_secs 1 \<le> d \<and> d \<le> from_secs 86400)
    \<and> shutdown_delay t \<le> from_secs 86400
    \<and> (\<forall>v \<in> {c_health_interval_secs cfg, c_default_cooldown_secs cfg}. 1 \<le> unat v \<and> unat v \<le> 86400)
    \<and> 3 * unat (c_health_interval_secs cfg) < 2 ^ 64
    \<and> (\<forall>r \<in> set (routes t). let b = breakers s' ! u_breaker (r_upstream r) in
         1 \<le> unat (b_failure_threshold b)
         \<and> 1000 \<le> unat (b_cooldown_millis b) \<and> unat (b_cooldown_millis b) \<le> 86400000)"
proof -
  obtain proxies rs where t: "check_top H cfg = None" "t = finish_table cfg proxies rs"
    using assms(1) unfolding build_table_def by (auto split: option.splits sum.splits prod.splits)
  have top: "check_threshold cfg = None" "check_shutdown_delay cfg = None" "\<forall>kv \<in> set (secs_keys cfg). check_secs kv = None"
    using t(1) by (auto simp: check_top_def first_error_None)
  have secs: "\<forall>v \<in> {c_upstream_timeout_secs cfg, c_keepalive_timeout_secs cfg, c_request_body_idle_timeout_secs cfg,
      c_request_body_timeout_secs cfg, c_drain_timeout_secs cfg, c_health_interval_secs cfg, c_default_cooldown_secs cfg}.
      1 \<le> unat v \<and> unat v \<le> 86400"
    using top(3) by (simp add: secs_keys_def check_secs_None)
  have delay: "unat (c_shutdown_delay_secs cfg) \<le> 86400"
    using top(2) by (simp add: check_shutdown_delay_def max_secs_def word_less_nat_alt not_less split: if_splits)
  have th: "1 \<le> unat (c_failure_threshold cfg)"
    using top(1) by (simp add: check_threshold_def word_less_nat_alt not_less split: if_splits)
  obtain cd hm m ts where inv: "installing (prev_by_name prev) (c_failure_threshold cfg) cd hm s m s'"
    and ts: "set (routes t) = set ts" "distinct (map r_prefix ts)"
      "routes t = sort_key (\<lambda>r. - int (length (r_prefix r))) ts"
    and all: "list_all2 (from_toml (from_secs (unat (c_default_cooldown_secs cfg))) cd hm m) (c_routes cfg) ts"
    and used: "\<forall>n u. m n = Some u \<longrightarrow> (\<exists>r \<in> set ts. r_upstream r = u)"
    using assms by (rule built_routes)
  have br: "1 \<le> unat (b_failure_threshold b) \<and> 1000 \<le> unat (b_cooldown_millis b) \<and> unat (b_cooldown_millis b) \<le> 86400000"
    if r: "r \<in> set ts" and b: "b = breakers s' ! u_breaker (r_upstream r)" for r b
  proof -
    obtain rt where f: "from_toml (from_secs (unat (c_default_cooldown_secs cfg))) cd hm m rt r"
      using list_all2_dom [OF all r] by blast
    obtain n where n: "route_cooldown (from_secs (unat (c_default_cooldown_secs cfg))) rt = from_secs n"
      using route_cooldown_secs by blast
    have "m (u_name (r_upstream r)) = Some (r_upstream r)" using f by (simp add: from_toml_def)
    from installing_entry [OF inv this] have "tuned (c_failure_threshold cfg) (from_secs n) b"
      using f n b by (simp add: entry_ok_def from_toml_def)
    moreover have "check_cooldown (from_secs n) rt = None" using f n by (simp add: from_toml_def)
    ultimately show ?thesis using cooldown_range [of n rt] th by (auto simp: tuned_def)
  qed
  show ?thesis using secs delay br ts(1) by (simp add: t(2) finish_table_def with_defs table_new_def Let_def)
qed

theorem accepted_in_range_witness:
  "shutdown_delay (fst sample_built) \<le> from_secs 86400
   \<and> from_secs 1 \<le> upstream_timeout (fst sample_built)
   \<and> unat (b_cooldown_millis (breakers (snd sample_built) ! 0)) = 60000"
proof -
  have "unat (b_cooldown_millis (breakers (snd sample_built) ! 0)) = 60000" by code_simp
  then show ?thesis using accepted_in_range [OF sample_built] by (simp add: Let_def)
qed

end
