(* ===== verification/Health.thy ===== *)
theory Health
  imports Config_Reload Shared_Breakers
begin

text \<open>
  The active health checker of \<open>crates/core/src/health.rs\<close>. The probes of one tick run concurrently,
  each ends in one call on its upstream's breaker, and the tick waits for all of them; a tick is
  therefore given with the order and the times in which its probes complete. The HTTP client is an
  argument: the status it gets from a URL, or \<open>None\<close> for a transport error or a timeout.
\<close>

section \<open>One check\<close>

definition is_healthy :: "nat option \<Rightarrow> bool" where
  "is_healthy status = (case status of Some s \<Rightarrow> \<not> (500 \<le> s \<and> s \<le> 599) | None \<Rightarrow> False)"

definition health_url :: "uri \<Rightarrow> string \<Rightarrow> string" where
  "health_url u path =
     (case uri_scheme u of Some s \<Rightarrow> s | None \<Rightarrow> ''http'') @ ''://'' @
     (case uri_authority u of Some a \<Rightarrow> a | None \<Rightarrow> []) @ path"

definition probe_one :: "(string \<Rightarrow> nat option) \<Rightarrow> upstream \<Rightarrow> store \<Rightarrow> store" where
  "probe_one get up s =
     (if is_healthy (get (health_url (u_uri up) (health_path up)))
      then upstream_record_success Probe up s
      else upstream_record_failure Probe up s)"

section \<open>A tick\<close>

definition probed :: "route_table \<Rightarrow> upstream list" where
  "probed t = filter (\<lambda>u. \<not> u_health_disabled u) (upstreams t)"

fun complete :: "(string \<Rightarrow> nat option) \<Rightarrow> upstream \<times> u64 \<Rightarrow> store \<Rightarrow> store" where
  "complete get (up, at_time) s = probe_one get up (s\<lparr>st_clock := at_time\<rparr>)"

definition health_tick :: "(string \<Rightarrow> nat option) \<Rightarrow> route_table \<Rightarrow> (upstream \<times> u64) list \<Rightarrow> store \<Rightarrow> store" where
  "health_tick get t order s = fold (complete get) order (publish_gauges t s)"

text \<open>The loop: at every tick the table then shared, and its probes. It never ends by itself, and does
  not start when the client cannot be built.\<close>

definition health_loop ::
    "bool \<Rightarrow> (string \<Rightarrow> nat option) \<Rightarrow> (route_table \<times> (upstream \<times> u64) list) list \<Rightarrow> store \<Rightarrow> store" where
  "health_loop built get ticks s =
     (if \<not> built then s else fold (\<lambda>(t, order) s. health_tick get t order s) ticks s)"

text \<open>The probes that complete in a tick are those of the table's upstreams that are not disabled.\<close>

definition tick_of :: "route_table \<Rightarrow> (upstream \<times> u64) list \<Rightarrow> bool" where
  "tick_of t order \<longleftrightarrow> distinct (map fst order) \<and> set (map fst order) = set (probed t)"

section \<open>What a tick does to the breakers\<close>

definition check_prog :: "(string \<Rightarrow> nat option) \<Rightarrow> upstream \<Rightarrow> unit prog" where
  "check_prog get u =
     (if is_healthy (get (health_url (u_uri u) (health_path u))) then record_success Probe else record_failure Probe)"

lemma set_gauges_breakers: "breakers (snd (on_breaker i set_gauges s)) = breakers s"
  by (simp add: on_breaker_def run_set_gauges Let_def)

lemma publish_breakers: "breakers (publish_gauges t s) = breakers s"
proof -
  have "breakers (fold (\<lambda>u s. snd (on_breaker (u_breaker u) set_gauges s)) us s) = breakers s" for us
    by (induction us arbitrary: s) (simp_all add: set_gauges_breakers)
  then show ?thesis by (simp add: publish_gauges_def)
qed

declare complete.simps [simp del]

lemma probe_one_breakers:
  assumes "u_breaker u < length (breakers s)" and "breaker_inv (breakers s ! u_breaker u)"
  shows "breakers (probe_one get u s)
    = (breakers s)[u_breaker u := after (check_prog get u) (st_clock s) (breakers s ! u_breaker u)]"
  using record_success_store [OF assms(1)] record_failure_store [OF assms] by (simp add: probe_one_def check_prog_def)

lemma completes_breakers:
  assumes "distinct (map (u_breaker \<circ> fst) order)"
    and "\<forall>e \<in> set order. u_breaker (fst e) < length (breakers s) \<and> breaker_inv (breakers s ! u_breaker (fst e))"
  shows "length (breakers (fold (complete get) order s)) = length (breakers s)
    \<and> (\<forall>(u, c) \<in> set order. breakers (fold (complete get) order s) ! u_breaker u
         = after (check_prog get u) c (breakers s ! u_breaker u))
    \<and> (\<forall>i. i \<notin> u_breaker ` fst ` set order \<longrightarrow> breakers (fold (complete get) order s) ! i = breakers s ! i)"
  using assms
proof (induction order arbitrary: s)
  case (Cons e order)
  obtain u c where e [simp]: "e = (u, c)" by fastforce
  let ?s = "complete get (u, c) s"
  have s: "breakers ?s = (breakers s)[u_breaker u := after (check_prog get u) c (breakers s ! u_breaker u)]"
    using Cons.prems(2) probe_one_breakers [of u "s\<lparr>st_clock := c\<rparr>" get] by (simp add: complete.simps)
  have ne: "u_breaker u \<noteq> u_breaker (fst x)" if "x \<in> set order" for x
    using Cons.prems(1) that by (auto simp: image_iff)
  have "\<forall>x \<in> set order. u_breaker (fst x) < length (breakers ?s) \<and> breaker_inv (breakers ?s ! u_breaker (fst x))"
    using Cons.prems(2) ne by (simp add: s)
  then have IH: "length (breakers (fold (complete get) order ?s)) = length (breakers ?s)"
    "\<forall>(v, d) \<in> set order. breakers (fold (complete get) order ?s) ! u_breaker v
         = after (check_prog get v) d (breakers ?s ! u_breaker v)"
    "\<forall>i. i \<notin> u_breaker ` fst ` set order \<longrightarrow> breakers (fold (complete get) order ?s) ! i = breakers ?s ! i"
    using Cons.IH [of ?s] Cons.prems(1) by simp_all
  have u: "u_breaker u \<notin> u_breaker ` fst ` set order" using ne by fastforce
  show ?case
  proof (intro conjI)
    show "length (breakers (fold (complete get) (e # order) s)) = length (breakers s)" using IH(1) by (simp add: s)
    have "breakers (fold (complete get) order ?s) ! u_breaker u = after (check_prog get u) c (breakers s ! u_breaker u)"
      using IH(3) u Cons.prems(2) by (simp add: s)
    moreover have "breakers ?s ! u_breaker (fst x) = breakers s ! u_breaker (fst x)" if "x \<in> set order" for x
      using ne [OF that] by (simp add: s)
    ultimately show "\<forall>(v, d) \<in> set (e # order). breakers (fold (complete get) (e # order) s) ! u_breaker v
        = after (check_prog get v) d (breakers s ! u_breaker v)"
      using IH(2) by fastforce
    show "\<forall>i. i \<notin> u_breaker ` fst ` set (e # order) \<longrightarrow> breakers (fold (complete get) (e # order) s) ! i = breakers s ! i"
      using IH(3) by (simp add: s)
  qed
qed simp

text \<open>In a table with one breaker per upstream the probes of a tick are on different breakers.\<close>

lemma tick_breakers:
  assumes "table_ok t s" and "tick_of t order"
  shows "distinct (map (u_breaker \<circ> fst) order)" and "\<forall>e \<in> set order. u_breaker (fst e) < length (breakers s)"
proof -
  have routed: "\<exists>r \<in> set (routes t). r_upstream r = u" if "u \<in> set (map fst order)" for u
    using that assms(2) unseen_sub [of "[]" "routes t"] unfolding tick_of_def probed_def upstreams_def by auto
  then have "inj_on u_breaker (set (map fst order))"
    using assms(1) unfolding table_ok_def inj_on_def by metis
  then show "distinct (map (u_breaker \<circ> fst) order)"
    using assms(2) by (simp add: tick_of_def distinct_map comp_inj_on)
  show "\<forall>e \<in> set order. u_breaker (fst e) < length (breakers s)"
    using routed assms(1) unfolding table_ok_def by fastforce
qed

text \<open>What one check makes of a circuit: a healthy answer closes it at once, an unhealthy one counts as a
  failure, or ends the probing, and never postpones the next probe of an open circuit.\<close>

fun check_spec :: "bool \<Rightarrow> nat \<Rightarrow> circuit \<Rightarrow> phase" where
  "check_spec healthy now c =
     (case phase c of
        Shut n \<Rightarrow> if healthy then Shut n else if n + 1 < threshold c then Shut (n + 1) else Tripped now
      | Tripped t0 \<Rightarrow> if healthy then Shut 0 else Tripped t0
      | Probing t0 \<Rightarrow> if healthy then Shut 0 else Tripped now)"

lemma check_prog_view:
  assumes "breaker_inv b"
  shows "abs_breaker (after (check_prog get u) c b) = (abs_breaker b)\<lparr>phase :=
      check_spec (is_healthy (get (health_url (u_uri u) (health_path u)))) (unat c) (abs_breaker b)\<rparr>"
    and "breaker_inv (after (check_prog get u) c b)"
  using brk.view_success [OF assms, of Probe c] brk.view_failure [OF assms, of Probe c]
    brk.inv_success [OF assms, of Probe c] brk.inv_failure [OF assms, of Probe c]
  by (auto simp: check_prog_def split: phase.split)

lemma tick_results:
  assumes "table_ok t s" and "tick_of t order" and "\<forall>b \<in> set (breakers s). breaker_inv b"
    and "s' = health_tick get t order s"
  shows "length (breakers s') = length (breakers s)"
    and "(u, c) \<in> set order \<Longrightarrow> breakers s' ! u_breaker u = after (check_prog get u) c (breakers s ! u_breaker u)"
    and "i \<notin> u_breaker ` set (probed t) \<Longrightarrow> breakers s' ! i = breakers s ! i"
    and "(u, c) \<in> set order \<Longrightarrow> breaker_inv (breakers s ! u_breaker u)"
proof -
  note ok = tick_breakers [OF assms(1,2)]
  have inv: "breaker_inv (breakers s ! u_breaker (fst e))" if "e \<in> set order" for e
    using ok(2) assms(3) that by simp
  then show "(u, c) \<in> set order \<Longrightarrow> breaker_inv (breakers s ! u_breaker u)" by fastforce
  have img: "u_breaker ` fst ` set order = u_breaker ` set (probed t)" using assms(2) by (simp add: tick_of_def)
  have "length (breakers s') = length (breakers s)"
    "\<forall>(u, c) \<in> set order. breakers s' ! u_breaker u = after (check_prog get u) c (breakers s ! u_breaker u)"
    "\<forall>i. i \<notin> u_breaker ` set (probed t) \<longrightarrow> breakers s' ! i = breakers s ! i"
    using completes_breakers [OF ok(1), of "publish_gauges t s" get] ok(2) inv
    unfolding assms(4) health_tick_def publish_breakers img by simp_all
  then show "length (breakers s') = length (breakers s)"
    "(u, c) \<in> set order \<Longrightarrow> breakers s' ! u_breaker u = after (check_prog get u) c (breakers s ! u_breaker u)"
    "i \<notin> u_breaker ` set (probed t) \<Longrightarrow> breakers s' ! i = breakers s ! i" by auto
qed

lemma tick_keeps:
  assumes "table_ok t s" and "tick_of t order" and "\<forall>b \<in> set (breakers s). breaker_inv b"
  shows "table_ok t (health_tick get t order s)" and "\<forall>b \<in> set (breakers (health_tick get t order s)). breaker_inv b"
proof -
  note r = tick_results(1-3) [OF assms refl, where get = get] and inv = tick_results(4) [OF assms refl]
  show "table_ok t (health_tick get t order s)" using assms(1) by (simp add: table_ok_def r(1))
  have "breaker_inv (breakers (health_tick get t order s) ! i)" if "i < length (breakers s)" for i
  proof (cases "i \<in> u_breaker ` set (probed t)")
    case True
    then have "i \<in> u_breaker ` fst ` set order" using assms(2) by (simp add: tick_of_def)
    then obtain u c where u: "(u, c) \<in> set order" "i = u_breaker u" by force
    then show ?thesis using r(2) [OF u(1)] check_prog_view(2) [OF inv [OF u(1)]] by simp
  next
    case False
    then show ?thesis using r(3) assms(3) that by simp
  qed
  then show "\<forall>b \<in> set (breakers (health_tick get t order s)). breaker_inv b" by (auto simp: in_set_conv_nth r(1))
qed

text \<open>Ticks over one table, by which a checked upstream that never answers well is cut off at its threshold.\<close>

definition ticks :: "(string \<Rightarrow> nat option) \<Rightarrow> route_table \<Rightarrow> (upstream \<times> u64) list list \<Rightarrow> store \<Rightarrow> store" where
  "ticks get t orders s = fold (health_tick get t) orders s"

lemma ticks_keep:
  assumes "table_ok t s" and "\<forall>order \<in> set orders. tick_of t order" and "\<forall>b \<in> set (breakers s). breaker_inv b"
  shows "table_ok t (ticks get t orders s) \<and> (\<forall>b \<in> set (breakers (ticks get t orders s)). breaker_inv b)"
  using assms
proof (induction orders arbitrary: s)
  case (Cons order orders)
  have "tick_of t order" using Cons.prems(2) by simp
  note k = tick_keeps [OF Cons.prems(1) this Cons.prems(3), where get = get]
  show ?case using Cons.IH [OF k(1) _ k(2)] Cons.prems(2) by (simp add: ticks_def)
qed (simp add: ticks_def)

lemma tick_view:
  assumes "table_ok t s" and "tick_of t order" and "\<forall>b \<in> set (breakers s). breaker_inv b" and "u \<in> set (probed t)"
  shows "\<exists>c. abs_breaker (breakers (health_tick get t order s) ! u_breaker u) = (abs_breaker (breakers s ! u_breaker u))\<lparr>phase :=
    check_spec (is_healthy (get (health_url (u_uri u) (health_path u)))) c (abs_breaker (breakers s ! u_breaker u))\<rparr>"
proof -
  have "u \<in> fst ` set order" using assms(2,4) by (simp add: tick_of_def)
  then obtain c where u: "(u, c) \<in> set order" by force
  show ?thesis
    unfolding tick_results(2) [OF assms(1-3) refl u, where get = get]
      check_prog_view(1) [OF tick_results(4) [OF assms(1-3) refl u]] by blast
qed

lemma failing_ticks:
  assumes "table_ok t s" and "\<forall>b \<in> set (breakers s). breaker_inv b" and "u \<in> set (probed t)"
    and "\<not> is_healthy (get (health_url (u_uri u) (health_path u)))"
    and "phase (abs_breaker (breakers s ! u_breaker u)) = Shut n" and "\<forall>order \<in> set orders. tick_of t order"
  shows "\<exists>t0. abs_breaker (breakers (ticks get t orders s) ! u_breaker u) = (abs_breaker (breakers s ! u_breaker u))\<lparr>phase :=
    (if orders = [] \<or> n + length orders < threshold (abs_breaker (breakers s ! u_breaker u)) then Shut (n + length orders) else Tripped t0)\<rparr>"
  using assms(6)
proof (induction orders rule: rev_induct)
  case Nil
  then show ?case using assms(5) by (metis (full_types) add_0_right circuit.surjective circuit.update_convs(1) fold_simps(1) list.size(3) ticks_def)
next
  case (snoc order orders)
  let ?s = "ticks get t orders s" and ?b = "abs_breaker (breakers s ! u_breaker u)"
  obtain t0 where ih: "abs_breaker (breakers ?s ! u_breaker u) = ?b\<lparr>phase :=
      (if orders = [] \<or> n + length orders < threshold ?b then Shut (n + length orders) else Tripped t0)\<rparr>"
    using snoc by auto
  have k: "table_ok t ?s" "\<forall>b \<in> set (breakers ?s). breaker_inv b"
    using ticks_keep [OF assms(1) _ assms(2), of orders get] snoc.prems by auto
  obtain c where c: "abs_breaker (breakers (health_tick get t order ?s) ! u_breaker u)
      = (abs_breaker (breakers ?s ! u_breaker u))\<lparr>phase := check_spec False c (abs_breaker (breakers ?s ! u_breaker u))\<rparr>"
    using tick_view [OF k(1) _ k(2) assms(3), of order get] snoc.prems assms(4) by auto
  have "ticks get t (orders @ [order]) s = health_tick get t order ?s" by (simp add: ticks_def)
  then show ?case using c unfolding ih by (auto simp: Suc_le_eq not_less)
qed

text \<open>One tick of the health checker judges each upstream on its own answer, in whatever order the
  answers come in: a status below 500 closes its circuit, a server error or no answer counts against
  it. The breaker of an upstream that is not checked, one with \<open>health_disabled\<close> included, or that
  belongs to no upstream of the table, is not touched.\<close>

theorem health_tick_verdicts:
  assumes "table_ok t s" and "tick_of t order" and "\<forall>b \<in> set (breakers s). breaker_inv b"
    and "s' = health_tick get t order s"
  shows "length (breakers s') = length (breakers s)
    \<and> (\<forall>(u, c) \<in> set order. phase (abs_breaker (breakers s' ! u_breaker u))
         = check_spec (is_healthy (get (health_url (u_uri u) (health_path u)))) (unat c) (abs_breaker (breakers s ! u_breaker u)))
    \<and> (\<forall>i. i \<notin> u_breaker ` set (probed t) \<longrightarrow> breakers s' ! i = breakers s ! i)"
proof -
  note r = tick_results [OF assms]
  have "phase (abs_breaker (breakers s' ! u_breaker u))
      = check_spec (is_healthy (get (health_url (u_uri u) (health_path u)))) (unat c) (abs_breaker (breakers s ! u_breaker u))"
    if "(u, c) \<in> set order" for u c
    unfolding r(2) [OF that] check_prog_view(1) [OF r(4) [OF that]] by simp
  then show ?thesis using r(1,3) by (auto simp del: check_spec.simps)
qed

theorem health_tick_verdicts_witness:
  "let t = table_new [sample_route ''/api''] 0; u = r_upstream (sample_route ''/api'');
       s = \<lparr>breakers = [default_breaker\<lparr>b_consecutive_failures := 2\<rparr>, default_breaker], st_clock = 0, st_log = []\<rparr>;
       s' = health_tick (\<lambda>url. if url = ''http://a:81/health'' then Some 503 else None) t [(u, 7)] s in
   phase (abs_breaker (breakers s' ! 0)) = Tripped 7 \<and> breakers s' ! 1 = default_breaker"
proof -
  let ?t = "table_new [sample_route ''/api''] 0" and ?u = "r_upstream (sample_route ''/api'')"
  let ?s = "\<lparr>breakers = [default_breaker\<lparr>b_consecutive_failures := 2\<rparr>, default_breaker], st_clock = 0, st_log = []\<rparr>"
  let ?g = "\<lambda>url. if url = ''http://a:81/health'' then Some 503 else None"
  have inv: "breaker_inv default_breaker" using breaker_new_inv [OF new_default_breaker] .
  have i: "\<forall>b \<in> set (breakers ?s). breaker_inv b"
    using inv by (simp add: breaker_inv_def default_breaker_def)
  have t: "table_ok ?t ?s" "tick_of ?t [(?u, 7)]" "probed ?t = [?u]" "u_breaker ?u = 0" by code_simp+
  have h: "is_healthy (?g (health_url (u_uri ?u) (health_path ?u))) = False" by code_simp
  have a: "check_spec False 7 (abs_breaker (breakers ?s ! 0)) = Tripped 7"
    by (simp add: abs_breaker_def default_breaker_def)
  have "phase (abs_breaker (breakers (health_tick ?g ?t [(?u, 7)] ?s) ! u_breaker ?u))
      = check_spec (is_healthy (?g (health_url (u_uri ?u) (health_path ?u)))) (unat (7 :: u64)) (abs_breaker (breakers ?s ! u_breaker ?u))"
    and "breakers (health_tick ?g ?t [(?u, 7)] ?s) ! 1 = breakers ?s ! 1"
    using health_tick_verdicts [OF t(1,2) i refl, of ?g] t(3,4)
    by (simp_all only: list.set image_insert image_empty ball_simps prod.case) simp_all
  then show ?thesis unfolding Let_def t(4) h using a by simp
qed

end
