(* ===== verification/Reload.thy ===== *)
theory Reload
  imports Config_Reload
begin

text \<open>
  Hot reload: \<open>crates/server/src/reload.rs\<close>, and of \<open>crates/server/src/tls.rs\<close> the loading and swapping of
  the certificate.

  The file system is an argument, the bytes of a path or \<open>None\<close>; so are the toml crate, the PEM and
  key code of rustls and the hasher of the standard library, the fields of \<open>reload_env\<close>. Digests and
  certificates are read separately in the code, so \<open>reload\<close> takes the file system at both moments.
\<close>

section \<open>Certificates\<close>

type_synonym file_system = "string \<Rightarrow> string option"

record 'k reload_env =
  e_parse_toml :: "string \<Rightarrow> config_toml option"
  e_parsers :: http_parsers
  e_hash :: "string option list \<Rightarrow> u64"
  e_pem_certs :: "string \<Rightarrow> string list option"
  e_pem_key :: "string \<Rightarrow> string option"
  e_from_der :: "string list \<Rightarrow> string \<Rightarrow> 'k option"

datatype tls_error = LoadingCert string | LoadingKey string | BuildingKey

definition load_certs :: "'k reload_env \<Rightarrow> file_system \<Rightarrow> string \<Rightarrow> (tls_error, string list) result" where
  "load_certs E fs path =
     (case Option.bind (fs path) (e_pem_certs E) of Some cs \<Rightarrow> Inr cs | None \<Rightarrow> Inl (LoadingCert path))"

definition load_key :: "'k reload_env \<Rightarrow> file_system \<Rightarrow> string \<Rightarrow> (tls_error, string) result" where
  "load_key E fs path =
     (case Option.bind (fs path) (e_pem_key E) of Some k \<Rightarrow> Inr k | None \<Rightarrow> Inl (LoadingKey path))"

definition load_certified :: "'k reload_env \<Rightarrow> file_system \<Rightarrow> string \<Rightarrow> string \<Rightarrow> (tls_error, 'k) result" where
  "load_certified E fs cert_path key_path =
     (case load_certs E fs cert_path of
        Inl e \<Rightarrow> Inl e
      | Inr certs \<Rightarrow>
          (case load_key E fs key_path of
             Inl e \<Rightarrow> Inl e
           | Inr k \<Rightarrow> (case e_from_der E certs k of Some ck \<Rightarrow> Inr ck | None \<Rightarrow> Inl BuildingKey)))"

text \<open>\<open>TlsReloader\<close>, with the certificate its resolver serves.\<close>

record 'k tls_reloader =
  tr_cert :: string
  tr_key :: string
  tr_current :: 'k

definition tls_files :: "'k tls_reloader \<Rightarrow> string list" where
  "tls_files tr = [tr_cert tr, tr_key tr]"

definition tls_reload :: "'k reload_env \<Rightarrow> file_system \<Rightarrow> 'k tls_reloader \<Rightarrow> (tls_error, unit) result \<times> 'k tls_reloader" where
  "tls_reload E fs tr =
     (case load_certified E fs (tr_cert tr) (tr_key tr) of
        Inl e \<Rightarrow> (Inl e, tr)
      | Inr ck \<Rightarrow> (Inr (), tr\<lparr>tr_current := ck\<rparr>))"

definition load_reloadable :: "'k reload_env \<Rightarrow> file_system \<Rightarrow> string \<Rightarrow> string \<Rightarrow> (tls_error, 'k tls_reloader) result" where
  "load_reloadable E fs cert_path key_path =
     (case load_certified E fs cert_path key_path of
        Inl e \<Rightarrow> Inl e
      | Inr ck \<Rightarrow> Inr \<lparr>tr_cert = cert_path, tr_key = key_path, tr_current = ck\<rparr>)"

section \<open>Reloading\<close>

definition digest :: "'k reload_env \<Rightarrow> file_system \<Rightarrow> string list \<Rightarrow> u64" where
  "digest E fs files = e_hash E (map fs files)"

definition hash_of :: "'k reload_env \<Rightarrow> string option \<Rightarrow> u64" where
  "hash_of E bytes = e_hash E [bytes]"

record 'k reloader =
  rl_config :: "string option"
  rl_table :: route_table
  rl_tls :: "'k tls_reloader option"
  rl_seen :: "u64 \<times> u64"

definition reloader_new ::
    "'k reload_env \<Rightarrow> file_system \<Rightarrow> string option \<Rightarrow> route_table \<Rightarrow> 'k tls_reloader option \<Rightarrow> 'k reloader" where
  "reloader_new E fs config t tls =
     \<lparr>rl_config = config, rl_table = t, rl_tls = tls,
      rl_seen = (digest E fs (case config of Some p \<Rightarrow> [p] | None \<Rightarrow> []),
                 digest E fs (case tls of Some tr \<Rightarrow> tls_files tr | None \<Rightarrow> []))\<rparr>"

text \<open>The text of the file, if it is UTF-8, parsed and built into a table beside the old one.\<close>

definition reload_once ::
    "'k reload_env \<Rightarrow> string option \<Rightarrow> route_table \<Rightarrow> store \<Rightarrow> route_table option \<times> store" where
  "reload_once E raw t s =
     (case raw of
        None \<Rightarrow> (None, s)
      | Some b \<Rightarrow>
          if \<not> utf8_valid b then (None, s)
          else
            (case config_from_str (e_parse_toml E) b of
               Inl _ \<Rightarrow> (None, s)
             | Inr cfg \<Rightarrow>
                 (case build_table (e_parsers E) cfg (Some t) s of
                    (Inl _, s') \<Rightarrow> (None, s')
                  | (Inr t', s') \<Rightarrow> (Some t', s'))))"

datatype reload_log = ConfigReloaded | ConfigFailed | TlsReloaded | TlsFailed tls_error

definition reload_config ::
    "'k reload_env \<Rightarrow> bool \<Rightarrow> file_system \<Rightarrow> 'k reloader \<Rightarrow> store \<Rightarrow> 'k reloader \<times> store \<times> reload_log list" where
  "reload_config E force fs r s =
     (case rl_config r of
        None \<Rightarrow> (r, s, [])
      | Some path \<Rightarrow>
          (let raw = fs path; h = hash_of E raw in
           if force \<or> h \<noteq> fst (rl_seen r)
           then (let r1 = r\<lparr>rl_seen := (h, snd (rl_seen r))\<rparr> in
                 case reload_once E raw (rl_table r1) s of
                   (Some t, s') \<Rightarrow> (r1\<lparr>rl_table := t\<rparr>, publish_gauges t s', [ConfigReloaded])
                 | (None, s') \<Rightarrow> (r1, s', [ConfigFailed]))
           else (r, s, [])))"

definition reload_cert ::
    "'k reload_env \<Rightarrow> bool \<Rightarrow> file_system \<Rightarrow> file_system \<Rightarrow> 'k reloader \<Rightarrow> 'k reloader \<times> reload_log list" where
  "reload_cert E force fs fs' r =
     (case rl_tls r of
        None \<Rightarrow> (r, [])
      | Some tr \<Rightarrow>
          (let h = digest E fs (tls_files tr) in
           if force \<or> h \<noteq> snd (rl_seen r)
           then (case tls_reload E fs' tr of
                   (Inr _, tr') \<Rightarrow> (r\<lparr>rl_seen := (fst (rl_seen r), h), rl_tls := Some tr'\<rparr>, [TlsReloaded])
                 | (Inl e, tr') \<Rightarrow> (r\<lparr>rl_seen := (fst (rl_seen r), h), rl_tls := Some tr'\<rparr>, [TlsFailed e]))
           else (r, [])))"

definition reload ::
    "'k reload_env \<Rightarrow> bool \<Rightarrow> file_system \<Rightarrow> file_system \<Rightarrow> 'k reloader \<Rightarrow> store \<Rightarrow> 'k reloader \<times> store \<times> reload_log list" where
  "reload E force fs fs' r s =
     (let (r1, s1, l1) = reload_config E force fs r s;
          (r2, l2) = reload_cert E force fs fs' r1 in
      (r2, s1, l1 @ l2))"

section \<open>The watch\<close>

definition debounce :: duration where
  "debounce = from_millis 200"

definition max_coalesce :: duration where
  "max_coalesce = from_secs 2"

datatype watch_event = Changed duration | Dropped duration

fun event_time :: "watch_event \<Rightarrow> duration" where
  "event_time (Changed t) = t"
| "event_time (Dropped t) = t"

text \<open>The inner loop, from the time \<open>now\<close>: events that arrive within the wait are taken, a time-out ends
  it, and so does the cap. \<open>None\<close> when the watcher is dropped.\<close>

fun coalesce :: "duration \<Rightarrow> duration \<Rightarrow> watch_event list \<Rightarrow> (duration \<times> watch_event list) option" where
  "coalesce first now evs =
     (if first + max_coalesce < now then Some (now, evs)
      else
        (let wait = min debounce (first + max_coalesce - now) in
         case evs of
           [] \<Rightarrow> Some (now + wait, [])
         | ev # rest \<Rightarrow>
             if event_time ev \<le> now + wait
             then (case ev of
                     Changed t \<Rightarrow> coalesce first (max now t) rest
                   | Dropped t \<Rightarrow> None)
             else Some (now + wait, evs)))"

declare coalesce.simps [simp del]

lemma coalesce_length: "coalesce first now evs = Some (at_time, rest) \<Longrightarrow> length rest \<le> length evs"
proof (induction evs arbitrary: now)
  case Nil
  then show ?case by (subst (asm) coalesce.simps) (auto simp: Let_def split: if_splits)
next
  case (Cons ev evs)
  then show ?case
    by (subst (asm) (2) coalesce.simps) (fastforce simp: Let_def split: if_splits watch_event.splits)
qed

text \<open>The outer loop: the times of its reloads, each of which takes \<open>cost\<close>.\<close>

function watch_reloads :: "duration \<Rightarrow> duration \<Rightarrow> watch_event list \<Rightarrow> duration list" where
  "watch_reloads cost now [] = []"
| "watch_reloads cost now (Dropped t # evs) = []"
| "watch_reloads cost now (Changed t # evs) =
     (case coalesce (max now t) (max now t) evs of
        None \<Rightarrow> []
      | Some (at_time, rest) \<Rightarrow> at_time # watch_reloads cost (at_time + cost) rest)"
  by pat_completeness auto
termination
  by (relation "measure (\<lambda>(_, _, evs). length evs)") (auto dest: coalesce_length)

section \<open>Reloads keep the proxy running\<close>

lemma reload_once_None: "reload_once E raw t s = (None, s') \<Longrightarrow> s' = s"
  by (auto simp: reload_once_def split: option.splits if_splits sum.splits prod.splits dest: rejected_same_store)

lemma reload_config_cases:
  assumes "reload_config E force fs r s = (r', s', l)"
  obtains (idle) "r' = r" "s' = s" "l = []"
  | (failed) "rl_table r' = rl_table r" "rl_tls r' = rl_tls r" "s' = s" "l = [ConfigFailed]"
  | (swapped) path raw cfg s1 where "rl_config r = Some path" "fs path = Some raw" "utf8_valid raw"
      "e_parse_toml E raw = Some cfg" "build_table (e_parsers E) cfg (Some (rl_table r)) s = (Inr (rl_table r'), s1)"
      "s' = publish_gauges (rl_table r') s1" "rl_tls r' = rl_tls r" "l = [ConfigReloaded]"
  using assms
  by (auto simp: reload_config_def reload_once_def config_from_str_def Let_def
      split: option.splits if_splits sum.splits prod.splits dest: rejected_same_store)

lemma reload_cert_cases:
  assumes "reload_cert E force fs fs' r = (r', l)"
  obtains (idle) "r' = r" "l = []"
  | (failed) tr e where "rl_tls r = Some tr" "rl_tls r' = Some tr" "rl_table r' = rl_table r" "l = [TlsFailed e]"
  | (swapped) tr ck where "rl_tls r = Some tr" "load_certified E fs' (tr_cert tr) (tr_key tr) = Inr ck"
      "rl_tls r' = Some (tr\<lparr>tr_current := ck\<rparr>)" "rl_table r' = rl_table r" "l = [TlsReloaded]"
  using assms
  by (auto simp: reload_cert_def tls_reload_def Let_def split: option.splits if_splits sum.splits prod.splits)

text \<open>C19. A reload replaces the table, or the certificate, only by one that was read, parsed and validated
  in full. In every other case, unreadable file, bytes that are not UTF-8, bad TOML, a configuration
  that is refused, a cert that does not go with its key, the old one stays in use and no breaker has
  been touched.\<close>

theorem reload_all_or_nothing:
  assumes "reload E force fs fs' r s = (r', s', l)"
  shows "(if ConfigReloaded \<in> set l
          then \<exists>path raw cfg s1. rl_config r = Some path \<and> fs path = Some raw \<and> utf8_valid raw
                 \<and> e_parse_toml E raw = Some cfg
                 \<and> build_table (e_parsers E) cfg (Some (rl_table r)) s = (Inr (rl_table r'), s1)
                 \<and> s' = publish_gauges (rl_table r') s1
          else rl_table r' = rl_table r \<and> s' = s)
    \<and> (if TlsReloaded \<in> set l
        then \<exists>tr ck. rl_tls r = Some tr \<and> load_certified E fs' (tr_cert tr) (tr_key tr) = Inr ck
               \<and> rl_tls r' = Some (tr\<lparr>tr_current := ck\<rparr>)
        else rl_tls r' = rl_tls r)"
proof -
  obtain r1 l1 l2 where c: "reload_config E force fs r s = (r1, s', l1)" and t: "reload_cert E force fs fs' r1 = (r', l2)"
    and l: "l = l1 @ l2" using assms by (auto simp: reload_def split: prod.splits)
  from c show ?thesis
  proof (cases rule: reload_config_cases)
    case idle
    from t show ?thesis by (cases rule: reload_cert_cases) (auto simp: l idle)
  next
    case failed
    from t show ?thesis by (cases rule: reload_cert_cases) (auto simp: l failed)
  next
    case (swapped path raw cfg s1)
    from t show ?thesis by (cases rule: reload_cert_cases) (use swapped in \<open>auto simp: l\<close>)
  qed
qed

text \<open>A file that has been looked at is not looked at again until its bytes change, whether it was
  loaded or found bad: without \<open>force\<close> a second reload over the same bytes does nothing at all, however
  many file events there are.\<close>

theorem same_bytes_ignored:
  assumes "reload E force fs fs' r s = (r', s', l)"
  shows "reload E False fs fs2 r' s' = (r', s', [])"
proof -
  obtain r1 l1 l2 where c: "reload_config E force fs r s = (r1, s', l1)" and t: "reload_cert E force fs fs' r1 = (r', l2)"
    using assms by (auto simp: reload_def split: prod.splits)
  have seen1: "\<forall>p. rl_config r1 = Some p \<longrightarrow> fst (rl_seen r1) = hash_of E (fs p)"
    using c by (auto simp: reload_config_def Let_def split: option.splits if_splits prod.splits)
  have seen2: "rl_config r' = rl_config r1 \<and> fst (rl_seen r') = fst (rl_seen r1)
      \<and> (\<forall>tr. rl_tls r' = Some tr \<longrightarrow> snd (rl_seen r') = digest E fs (tls_files tr))"
    using t by (auto simp: reload_cert_def tls_reload_def tls_files_def Let_def
        split: option.splits if_splits prod.splits sum.splits)
  have "reload_config E False fs r' s' = (r', s', [])"
    using seen1 seen2 by (simp add: reload_config_def Let_def split: option.split)
  moreover have "reload_cert E False fs fs2 r' = (r', [])"
    using seen2 by (simp add: reload_cert_def Let_def split: option.split)
  ultimately show ?thesis by (simp add: reload_def)
qed

text \<open>A sample: the text \<open>new\<close> holds a configuration, every other text is bad; the digest is a length.\<close>

definition demo_env :: "string reload_env" where
  "demo_env =
     \<lparr>e_parse_toml = (\<lambda>s. if s = ''new'' then Some sample_config else None), e_parsers = sample_parsers,
      e_hash = (\<lambda>bs. of_nat (length (concat (map (\<lambda>b. case b of Some x \<Rightarrow> CHR ''.'' # x | None \<Rightarrow> []) bs)))),
      e_pem_certs = (\<lambda>s. Some [s]), e_pem_key = Some, e_from_der = (\<lambda>cs k. if cs = [k] then Some k else None)\<rparr>"

definition demo_reloader :: "string reloader" where
  "demo_reloader =
     reloader_new demo_env (\<lambda>_. None) (Some ''c.toml'') (table_new [] 0) (Some \<lparr>tr_cert = ''crt'', tr_key = ''key'', tr_current = ''old''\<rparr>)"

theorem reload_all_or_nothing_witness:
  "let (r', s', l) = reload demo_env False (\<lambda>p. Some ''broken'') (\<lambda>p. Some ''k2'') demo_reloader empty_store in
   l = [ConfigFailed, TlsReloaded] \<and> rl_table r' = table_new [] 0 \<and> s' = empty_store
   \<and> (\<exists>tr ck. rl_tls r' = Some (tr\<lparr>tr_current := ck\<rparr>))"
proof -
  let ?x = "reload demo_env False (\<lambda>p. Some ''broken'') (\<lambda>p. Some ''k2'') demo_reloader empty_store"
  obtain r' s' l where x: "?x = (r', s', l)" by (cases ?x) auto
  have "snd (snd ?x) = [ConfigFailed, TlsReloaded]" by code_simp
  then have l: "l = [ConfigFailed, TlsReloaded]" by (simp add: x)
  have t: "rl_table demo_reloader = table_new [] 0" by (simp add: demo_reloader_def reloader_new_def)
  show ?thesis using reload_all_or_nothing [OF x] unfolding x l t prod.case by auto
qed

theorem same_bytes_ignored_witness:
  "let (r', s', l) = reload demo_env False (\<lambda>p. Some ''broken'') (\<lambda>p. Some ''k2'') demo_reloader empty_store in
   l = [ConfigFailed, TlsReloaded] \<and> reload demo_env False (\<lambda>p. Some ''broken'') (\<lambda>p. None) r' s' = (r', s', [])"
proof -
  let ?x = "reload demo_env False (\<lambda>p. Some ''broken'') (\<lambda>p. Some ''k2'') demo_reloader empty_store"
  obtain r' s' l where x: "?x = (r', s', l)" by (cases ?x) auto
  have "snd (snd ?x) = [ConfigFailed, TlsReloaded]" by code_simp
  then have l: "l = [ConfigFailed, TlsReloaded]" by (simp add: x)
  show ?thesis using same_bytes_ignored [OF x] unfolding x l prod.case by simp
qed

section \<open>Every change is reloaded in time\<close>

lemma coalesce_spec:
  assumes "coalesce first now (map Changed ts) = Some (at_time, rest)" and "now \<le> first + max_coalesce"
  shows "now \<le> at_time \<and> at_time \<le> first + max_coalesce
    \<and> (\<exists>taken later. ts = taken @ later \<and> rest = map Changed later \<and> (\<forall>t \<in> set taken. t \<le> at_time)
         \<and> (later = [] \<or> at_time < hd later))"
  using assms
proof (induction ts arbitrary: now)
  case Nil
  then show ?case by (subst (asm) coalesce.simps) (auto simp: Let_def split: if_splits)
next
  case (Cons t ts)
  let ?wait = "min debounce (first + max_coalesce - now)"
  show ?case
  proof (cases "t \<le> now + ?wait")
    case True
    then have "coalesce first (max now t) (map Changed ts) = Some (at_time, rest)" "max now t \<le> first + max_coalesce"
      using Cons.prems by (simp_all add: coalesce.simps [of first now] Let_def)
    from Cons.IH [OF this] obtain taken later where "max now t \<le> at_time" "at_time \<le> first + max_coalesce"
      "ts = taken @ later" "rest = map Changed later" "\<forall>t \<in> set taken. t \<le> at_time" "later = [] \<or> at_time < hd later"
      by blast
    then show ?thesis by (intro conjI exI [of _ "t # taken"] exI [of _ later]) auto
  next
    case False
    then have "at_time = now + ?wait" "rest = map Changed (t # ts)"
      using Cons.prems by (simp_all add: coalesce.simps [of first now] Let_def)
    then show ?thesis using False Cons.prems(2) by (intro conjI exI [of _ "[]"] exI [of _ "t # ts"]) auto
  qed
qed

lemma coalesce_Some: "\<exists>at_time rest. coalesce first now (map Changed ts) = Some (at_time, rest)"
  by (induction ts arbitrary: now) (subst coalesce.simps, simp add: Let_def)+

text \<open>C20. No change is missed and none waits for ever: every file event is followed by a reload, at or
  after it and at most two seconds (and one reload that is already running) later, however dense the
  stream of events is.\<close>

theorem every_change_reloaded:
  assumes "sorted ts" and "t \<in> set ts" and "\<forall>t \<in> set ts. now \<le> t + cost"
  shows "\<exists>at_time \<in> set (watch_reloads cost now (map Changed ts)). t \<le> at_time \<and> at_time \<le> t + cost + max_coalesce"
  using assms
proof (induction "length ts" arbitrary: ts now rule: less_induct)
  case less
  then obtain t0 ts' where ts: "ts = t0 # ts'" by (cases ts) auto
  let ?f = "max now t0"
  obtain at_time rest where c: "coalesce ?f ?f (map Changed ts') = Some (at_time, rest)" using coalesce_Some by blast
  from coalesce_spec [OF c] obtain taken later where k: "?f \<le> at_time" "at_time \<le> ?f + max_coalesce" "ts' = taken @ later"
    "rest = map Changed later" "\<forall>t \<in> set taken. t \<le> at_time" "later = [] \<or> at_time < hd later" by auto
  have w: "watch_reloads cost now (map Changed ts) = at_time # watch_reloads cost (at_time + cost) (map Changed later)"
    using c k(4) by (simp add: ts)
  show ?case
  proof (cases "t \<in> set later")
    case True
    have "at_time < x" if "x \<in> set later" for x
      using that k(3,6) less.prems(1) by (cases later) (auto simp: ts sorted_append)
    then have "\<forall>x \<in> set later. at_time + cost \<le> x + cost" by (simp add: less_imp_le)
    then show ?thesis using less.hyps [of later] less.prems(1) True k(3) w by (auto simp: ts sorted_append)
  next
    case False
    then have "t0 \<le> t" "t = t0 \<or> t \<in> set taken" using less.prems k(3) by (auto simp: ts)
    then have "t \<le> at_time" using k(1,5) by auto
    moreover have "at_time \<le> t + cost + max_coalesce" using k(2) less.prems(3) \<open>t0 \<le> t\<close> by (auto simp: ts)
    ultimately show ?thesis using w by auto
  qed
qed

theorem every_change_reloaded_witness:
  "watch_reloads 5 0 (map Changed [1000, 100000000, 9000000000]) = [300000000, 9200000000]
   \<and> (\<exists>at_time \<in> {300000000, 9200000000}. 100000000 \<le> at_time \<and> at_time \<le> 100000000 + 5 + max_coalesce)"
proof -
  have w: "watch_reloads 5 0 (map Changed [1000, 100000000, 9000000000]) = [300000000, 9200000000]" by code_simp
  show ?thesis using every_change_reloaded [of "[1000, 100000000, 9000000000]" 100000000 0 5] unfolding w by simp
qed

end
