(* ===== verification/Gateway.thy ===== *)
theory Gateway
  imports Gateway_Spec Proxy_Breaker Health Reload
begin

text \<open>
  The running gateway: the request handler, the health checker and the reloader over one shared table
  and one store of breakers, as an event system. A request is two events, the decision to forward it
  and its outcome, a tick of the health checker one event for its start and one for each answer, a
  reload one event, so that requests, checks and reloads interleave in any order of these events. Each
  event runs the operations of the other theories; the table is the one shared at that moment, while a
  request or a check keeps the upstream it was given.

  An event runs without interruption. That is how tasks interleave at their \<open>await\<close> points on one thread.
  The server runs on several: there the atomic actions of two handlers can mix inside \<open>try_acquire\<close> or
  \<open>record_failure\<close>, and a reload, which retunes the breakers it keeps one by one before it stores the new
  table, runs on a thread of its own beside the handlers. Those finer interleavings are outside this event
  system; of a single breaker they are the subject of theory \<open>Breaker_Conc\<close>.
\<close>

section \<open>The event system\<close>

record 'h flight =
  fl_table :: route_table
  fl_id :: "string option"
  fl_log :: "access_info option"
  fl_forward :: "'h forward"

record ('h, 'k) gateway =
  gw_reloader :: "'k reloader"
  gw_proxy :: proxy_state
  gw_flights :: "'h flight list"
  gw_checks :: "upstream list"

abbreviation gw_table :: "('h, 'k) gateway \<Rightarrow> route_table" where
  "gw_table g \<equiv> rl_table (gw_reloader g)"

abbreviation gw_store :: "('h, 'k) gateway \<Rightarrow> store" where
  "gw_store g \<equiv> px_store (gw_proxy g)"

text \<open>The handler up to its wait, with the whole call of \<open>try_acquire\<close>.\<close>

definition gw_request ::
    "'h header_ops \<Rightarrow> uri_ops \<Rightarrow> ip_addr \<Rightarrow> string \<Rightarrow> u64 \<times> u64 \<Rightarrow> 'h request \<Rightarrow> duration \<Rightarrow> ('h, 'k) gateway
     \<Rightarrow> ('h, 'b) response option \<times> ('h, 'k) gateway" where
  "gw_request H U peer proto rnd rq now g =
     (let t = gw_table g; (rid, rq1) = identified H t rnd rq;
          log = (if access_log t then Some (access_of H peer proto rq1 rid) else None) in
      case handle_begin H U True t peer proto rq1 log now (gw_proxy g) of
        (Answer rs, s) \<Rightarrow> (Some (echo H t rid rs), g\<lparr>gw_proxy := s\<rparr>)
      | (Forward fw, s) \<Rightarrow>
          (None, g\<lparr>gw_proxy := s, gw_flights := gw_flights g @
             [\<lparr>fl_table = t, fl_id = rid, fl_log = log, fl_forward = fw\<rparr>]\<rparr>))"

text \<open>The client or the timer is done with a request; nothing happens while neither is.\<close>

definition gw_outcome ::
    "'h header_ops \<Rightarrow> (duration \<Rightarrow> duration \<Rightarrow> bool) \<Rightarrow> nat \<Rightarrow> happening list \<Rightarrow> ('h, 'b) client_result option \<Rightarrow> duration
     \<Rightarrow> ('h, 'k) gateway \<Rightarrow> (('h, 'b) response option \<times> ('h, 'k) gateway) option" where
  "gw_outcome H ready i hs reply later g =
     (if i < length (gw_flights g)
      then (let fl = gw_flights g ! i; (tm, st) = await ready hs (fw_body (fl_forward fl)) in
            case select reply tm of
              None \<Rightarrow> None
            | Some res \<Rightarrow>
                (let (rs, s) = handle_finish H (fl_log fl) (fl_forward fl) res (stalled (fl_table fl) later st) (gw_proxy g) in
                 Some (Some (echo H (fl_table fl) (fl_id fl) rs),
                       g\<lparr>gw_proxy := s, gw_flights := remove_nth i (gw_flights g)\<rparr>)))
      else None)"

text \<open>The connection of a request is gone, and hyper drops its handler where it waits.\<close>

definition gw_gone :: "nat \<Rightarrow> ('h, 'k) gateway \<Rightarrow> ('h, 'k) gateway option" where
  "gw_gone i g =
     (if i < length (gw_flights g) then Some (g\<lparr>gw_flights := remove_nth i (gw_flights g)\<rparr>) else None)"

text \<open>A tick starts when all checks of the one before are done.\<close>

definition gw_tick :: "('h, 'k) gateway \<Rightarrow> ('h, 'k) gateway option" where
  "gw_tick g =
     (if gw_checks g = []
      then Some (g\<lparr>gw_proxy := on_store (publish_gauges (gw_table g)) (gw_proxy g), gw_checks := probed (gw_table g)\<rparr>)
      else None)"

definition gw_checked :: "nat \<Rightarrow> nat option \<Rightarrow> ('h, 'k) gateway \<Rightarrow> ('h, 'k) gateway option" where
  "gw_checked i status g =
     (if i < length (gw_checks g)
      then Some (g\<lparr>gw_proxy := on_store (probe_one (\<lambda>_. status) (gw_checks g ! i)) (gw_proxy g),
                   gw_checks := remove_nth i (gw_checks g)\<rparr>)
      else None)"

text \<open>A whole reload: the table is built, the breakers it keeps retuned, and the table stored.\<close>

definition gw_reload ::
    "'k reload_env \<Rightarrow> bool \<Rightarrow> file_system \<Rightarrow> file_system \<Rightarrow> ('h, 'k) gateway \<Rightarrow> ('h, 'k) gateway" where
  "gw_reload E force fs fs' g =
     (let (r, s, log) = reload E force fs fs' (gw_reloader g) (gw_store g) in
      g\<lparr>gw_reloader := r, gw_proxy := (gw_proxy g)\<lparr>px_store := s\<rparr>\<rparr>)"

definition gw_clock :: "u64 \<Rightarrow> ('h, 'k) gateway \<Rightarrow> ('h, 'k) gateway" where
  "gw_clock c g = g\<lparr>gw_proxy := on_store (\<lambda>s. s\<lparr>st_clock := c\<rparr>) (gw_proxy g)\<rparr>"

datatype ('h, 'b) event =
    Clock u64
  | Request ip_addr string "u64 \<times> u64" "'h request" duration
  | Outcome nat "happening list" "('h, 'b) client_result option" duration
  | Gone nat
  | Tick
  | Checked nat "nat option"
  | Touched bool file_system file_system

fun gateway_step ::
    "'h header_ops \<Rightarrow> uri_ops \<Rightarrow> (duration \<Rightarrow> duration \<Rightarrow> bool) \<Rightarrow> 'k reload_env \<Rightarrow> ('h, 'b) event \<Rightarrow> ('h, 'k) gateway
     \<Rightarrow> (('h, 'b) response option \<times> ('h, 'k) gateway) option" where
  "gateway_step H U ready E (Clock c) g = Some (None, gw_clock c g)"
| "gateway_step H U ready E (Request peer proto rnd rq now) g = Some (gw_request H U peer proto rnd rq now g)"
| "gateway_step H U ready E (Outcome i hs reply later) g = gw_outcome H ready i hs reply later g"
| "gateway_step H U ready E (Gone i) g = map_option (Pair None) (gw_gone i g)"
| "gateway_step H U ready E Tick g = map_option (Pair None) (gw_tick g)"
| "gateway_step H U ready E (Checked i status) g = map_option (Pair None) (gw_checked i status g)"
| "gateway_step H U ready E (Touched force fs fs') g = Some (None, gw_reload E force fs fs' g)"

text \<open>The two events of a request are the handler: what \<open>handle_streaming\<close> makes of a request while
  the world goes on, the events make of it, the world in between.\<close>

lemma request_then_outcome:
  fixes world :: "('h, 'b) world" and g :: "('h, 'k) gateway"
  shows "handle_streaming H U ready world (gw_table g) peer proto rnd rq now (gw_proxy g)
    = (case gw_request H U peer proto rnd rq now g of
         (Some rs, g1) \<Rightarrow> Some (rs, gw_proxy g1)
       | (None, g1) \<Rightarrow>
           (let (hs, reply, later, s2) = world (fl_forward (last (gw_flights g1))) (gw_proxy g1) in
            map_option (map_prod the gw_proxy)
              (gw_outcome H ready (length (gw_flights g)) hs reply later (g1\<lparr>gw_proxy := s2\<rparr>))))"
proof -
  obtain rid rq1 where id: "identified H (gw_table g) rnd rq = (rid, rq1)" by fastforce
  obtain log where log: "log = (if access_log (gw_table g) then Some (access_of H peer proto rq1 rid) else None)" by blast
  obtain d :: "('h, 'b) decision" and s where
    d: "handle_begin H U True (gw_table g) peer proto rq1 log now (gw_proxy g) = (d, s)" by fastforce
  note defs = handle_streaming_def handle_inner_def handle_core_def gw_request_def
  show ?thesis
  proof (cases d)
    case (Answer rs)
    then show ?thesis using d by (simp add: defs id log [symmetric])
  next
    case (Forward fw)
    obtain hs reply later s2 where w: "world fw s = (hs, reply, later, s2)" by (metis prod_cases4)
    obtain tm st where a: "await ready hs (fw_body fw) = (tm, st)" by fastforce
    show ?thesis using d Forward w a
      by (cases "select reply tm") (simp_all add: defs id log [symmetric] gw_outcome_def Let_def split: prod.split)
  qed
qed

end
