(* ===== verification/Gateway_Refine.thy ===== *)
theory Gateway_Refine
  imports Gateway
begin

text \<open>
  The gateway refines the abstract one: whatever the order of requests, outcomes, health checks and
  reloads, each of them, run without interruption, does to the circuits by name what the specification
  says.
\<close>

section \<open>Circuits by name\<close>

abbreviation named :: "route_table \<Rightarrow> string \<rightharpoonup> upstream" where
  "named t \<equiv> prev_by_name (Some t)"

definition circuits_of :: "route_table \<Rightarrow> store \<Rightarrow> string \<rightharpoonup> circuit" where
  "circuits_of t s n = map_option (\<lambda>u. abs_breaker (breakers s ! u_breaker u)) (named t n)"

text \<open>The circuit of the table in use that the holder of an upstream reports to, if any.\<close>

definition ref :: "route_table \<Rightarrow> upstream \<Rightarrow> string option" where
  "ref t u = map_option u_name (find (\<lambda>v. u_breaker v = u_breaker u) (upstreams t))"

definition store_ok :: "store \<Rightarrow> bool" where
  "store_ok s \<longleftrightarrow> list_all breaker_inv (breakers s) \<and> st_clock s \<noteq> u64_max"

lemma named_iff: "named t n = Some u \<longleftrightarrow> u \<in> set (upstreams t) \<and> u_name u = n"
  by (auto simp: prev_by_name_Some)

lemma named_inj:
  assumes "table_ok t s" "named t n = Some u" "named t k = Some v" "u_breaker u = u_breaker v"
  shows "n = k"
  using names_inj [OF prev_names_ok [of "Some t" s]] assms by simp

lemma named_index: "table_ok t s \<Longrightarrow> named t n = Some u \<Longrightarrow> u_breaker u < length (breakers s)"
  using prev_names_ok [of "Some t" s] by (simp add: names_ok_def)

lemma routed_named:
  assumes "table_ok t s" and "r \<in> set (routes t)"
  shows "named t (u_name (r_upstream r)) = Some (r_upstream r)"
proof -
  have "u_name (r_upstream r) \<in> u_name ` set (upstreams t)" using assms(2) by (simp add: upstreams_names(2))
  then obtain v where v: "v \<in> set (upstreams t)" "u_name v = u_name (r_upstream r)" by (metis imageE)
  obtain r' where "r' \<in> set (routes t)" "r_upstream r' = v" using upstreams_sub [OF v(1)] by blast
  then have "v = r_upstream r" using assms v(2) unfolding table_ok_def by metis
  then show ?thesis using v by (simp add: named_iff)
qed

lemma ref_Some:
  assumes "table_ok t s"
  shows "ref t u = Some n \<longleftrightarrow> (\<exists>v. named t n = Some v \<and> u_breaker v = u_breaker u)"
proof
  assume "ref t u = Some n"
  then show "\<exists>v. named t n = Some v \<and> u_breaker v = u_breaker u"
    by (auto simp: ref_def named_iff find_Some_iff intro: nth_mem)
next
  assume "\<exists>v. named t n = Some v \<and> u_breaker v = u_breaker u"
  then obtain v where v: "named t n = Some v" "u_breaker v = u_breaker u" by blast
  then have "find (\<lambda>v. u_breaker v = u_breaker u) (upstreams t) \<noteq> None" by (auto simp: find_None_iff named_iff)
  then obtain w where w: "find (\<lambda>v. u_breaker v = u_breaker u) (upstreams t) = Some w" by blast
  then have "named t (u_name w) = Some w" "u_breaker w = u_breaker u" by (auto simp: find_Some_iff named_iff)
  then have "u_name w = n" using named_inj [OF assms _ v(1)] v(2) by simp
  then show "ref t u = Some n" using w by (simp add: ref_def)
qed

lemma ref_named: "table_ok t s \<Longrightarrow> named t n = Some u \<Longrightarrow> ref t u = Some n"
  by (auto simp: ref_Some)

section \<open>A call on one breaker\<close>

lemma table_ok_length: "table_ok t s \<Longrightarrow> length (breakers s') = length (breakers s) \<Longrightarrow> table_ok t s'"
  by (simp add: table_ok_def)

text \<open>An operation \<open>p\<close> of an upstream \<open>u\<close>, from a store \<open>s\<close> to \<open>s'\<close>.\<close>

definition calls :: "'a prog \<Rightarrow> upstream \<Rightarrow> store \<Rightarrow> store \<Rightarrow> bool" where
  "calls p u s s' \<longleftrightarrow>
     breakers s' = (breakers s)[u_breaker u := after p (st_clock s) (breakers s ! u_breaker u)] \<and> st_clock s' = st_clock s"

lemma calls_keep:
  assumes "calls p u s s'" and "table_ok t s" "store_ok s" "u_breaker u < length (breakers s)"
    and "\<And>m. breaker_inv (brk m) \<Longrightarrow> breaker_inv (brk (snd (run p m)))"
  shows "table_ok t s'" "store_ok s'" "length (breakers s') = length (breakers s)" "st_clock s' = st_clock s"
proof -
  show len: "length (breakers s') = length (breakers s)" and "st_clock s' = st_clock s"
    using assms(1) by (simp_all add: calls_def)
  show "table_ok t s'" using table_ok_length [OF assms(2) len] .
  have "breaker_inv (after p (st_clock s) (breakers s ! u_breaker u))"
    using inv_call [of p, OF assms(5)] assms(3,4) by (simp add: store_ok_def list_all_length)
  then show "store_ok s'" using assms(1,3,4)
    by (auto simp: calls_def store_ok_def list_all_length nth_list_update)
qed

lemma calls_circuits:
  assumes "calls p u s s'" and "table_ok t s" "u_breaker u < length (breakers s)"
    and "abs_breaker (after p (st_clock s) (breakers s ! u_breaker u)) = f (abs_breaker (breakers s ! u_breaker u))"
  shows "circuits_of t s' = on_circuit (ref t u) f (circuits_of t s)"
proof
  fix n
  show "circuits_of t s' n = on_circuit (ref t u) f (circuits_of t s) n"
  proof (cases "named t n")
    case None
    then show ?thesis by (auto simp: circuits_of_def on_circuit_def split: option.split)
  next
    case (Some v)
    show ?thesis
    proof (cases "u_breaker v = u_breaker u")
      case True
      then have "ref t u = Some n" using Some assms(2) by (auto simp: ref_Some)
      then show ?thesis using Some True assms(1,3,4) by (simp add: circuits_of_def on_circuit_def calls_def)
    next
      case False
      then have "ref t u \<noteq> Some n" using Some assms(2) by (simp add: ref_Some)
      then show ?thesis using Some False assms(1)
        by (auto simp: circuits_of_def on_circuit_def calls_def split: option.split)
    qed
  qed
qed

lemma op_calls:
  assumes "u_breaker u < length (breakers s)" and "store_ok s"
  shows "calls try_acquire u s (snd (upstream_try_acquire u s))"
    and "calls (record_success a) u s (upstream_record_success a u s)"
    and "calls (record_failure a) u s (upstream_record_failure a u s)"
    and "calls (release a) u s (upstream_release a u s)"
proof -
  have "breaker_inv (breakers s ! u_breaker u)" using assms by (simp add: store_ok_def list_all_length)
  then show "calls try_acquire u s (snd (upstream_try_acquire u s))"
    "calls (record_success a) u s (upstream_record_success a u s)"
    "calls (record_failure a) u s (upstream_record_failure a u s)"
    "calls (release a) u s (upstream_release a u s)"
    using assms by (simp_all add: calls_def try_acquire_store record_success_store record_failure_store release_store)
qed

text \<open>An upstream in somebody's hands, over a store and a table that are well-formed.\<close>

definition held :: "route_table \<Rightarrow> store \<Rightarrow> upstream \<Rightarrow> bool" where
  "held t s u \<longleftrightarrow> table_ok t s \<and> store_ok s \<and> u_breaker u < length (breakers s)"

lemma heldD: "held t s u \<Longrightarrow> breaker_inv (breakers s ! u_breaker u)"
  by (simp add: held_def store_ok_def list_all_length)

definition follows :: "route_table \<Rightarrow> upstream \<Rightarrow> (circuit \<Rightarrow> circuit) \<Rightarrow> store \<Rightarrow> store \<Rightarrow> bool" where
  "follows t u f s s' \<longleftrightarrow>
     table_ok t s' \<and> store_ok s' \<and> length (breakers s') = length (breakers s) \<and> st_clock s' = st_clock s
     \<and> circuits_of t s' = on_circuit (ref t u) f (circuits_of t s)"

lemma calls_follow:
  assumes "calls p u s s'" and "held t s u" and "\<And>m. breaker_inv (brk m) \<Longrightarrow> breaker_inv (brk (snd (run p m)))"
    and "abs_breaker (after p (st_clock s) (breakers s ! u_breaker u)) = f (abs_breaker (breakers s ! u_breaker u))"
  shows "follows t u f s s'"
  using calls_keep [OF assms(1) _ _ _ assms(3), of t] calls_circuits [where f = f and t = t, OF assms(1) _ _ assms(4)] assms(2)
  by (simp add: follows_def held_def)

lemma settle_follows:
  assumes "held t s u"
  shows "follows t u (spec_settle v a (unat (st_clock s))) s (settle v a u s)"
proof -
  have h: "u_breaker u < length (breakers s)" "store_ok s" using assms by (simp_all add: held_def)
  note inv = heldD [OF assms]
  show ?thesis
  proof (cases v)
    case Praised
    then show ?thesis using calls_follow [where f = "spec_success a", OF op_calls(2) [OF h] assms inv_record_success brk.view_success [OF inv]] by simp
  next
    case Blamed
    then show ?thesis using calls_follow [where f = "spec_failure a (unat (st_clock s))",
        OF op_calls(3) [OF h] assms inv_record_failure brk.view_failure [OF inv]] by simp
  next
    case Handed_back
    have "st_clock s \<noteq> u64_max" using h(2) by (simp add: store_ok_def)
    then show ?thesis
      using Handed_back calls_follow [where f = "spec_release a (unat (st_clock s))",
        OF op_calls(4) [OF h] assms inv_release brk.view_hand_back [OF inv]] by simp
  next
    case Unsettled
    then show ?thesis using assms
      by (auto simp: follows_def held_def on_circuit_def option.map_id0 split: option.split)
  qed
qed

lemma probe_follows:
  assumes "held t s u"
  shows "follows t u (spec_check (is_healthy status) (unat (st_clock s))) s (probe_one (\<lambda>_. status) u s)"
  using settle_follows [OF assms, of Praised Probe] settle_follows [OF assms, of Blamed Probe]
  by (simp add: probe_one_def)

lemma acquire_follows:
  assumes "held t s u" and "upstream_try_acquire u s = (a, s')" and "named t n = Some u"
  shows "follows t u (\<lambda>c. snd (spec_acquire (unat (st_clock s)) c)) s s'"
    and "a = fst (spec_acquire (unat (st_clock s)) (the (circuits_of t s n)))"
proof -
  have h: "u_breaker u < length (breakers s)" "store_ok s" using assms by (simp_all add: held_def)
  note inv = heldD [OF assms(1)]
  have "calls try_acquire u s s'" using op_calls(1) [OF h] assms(2) by simp
  then show "follows t u (\<lambda>c. snd (spec_acquire (unat (st_clock s)) c)) s s'"
    by (rule calls_follow [where f = "\<lambda>c. snd (spec_acquire (unat (st_clock s)) c)", OF _ assms(1) inv_try_acquire
          brk.acquire_view [OF inv]])
  show "a = fst (spec_acquire (unat (st_clock s)) (the (circuits_of t s n)))"
    using try_acquire_store(1) [OF h(1) inv] brk.acquire_result [OF inv, of "st_clock s"] assms(2,3)
    by (simp add: circuits_of_def)
qed

section \<open>A reload\<close>

definition tuning :: "route_table \<Rightarrow> store \<Rightarrow> string \<rightharpoonup> nat \<times> nat" where
  "tuning t s n = map_option (\<lambda>c. (threshold c, cooldown c)) (circuits_of t s n)"

lemma abs_runtime:
  assumes "runtime b = runtime b'"
  shows "phase (abs_breaker b) = phase (abs_breaker b')" "rearmed (abs_breaker b) = rearmed (abs_breaker b')"
    "breaker_inv b \<longleftrightarrow> breaker_inv b'"
proof -
  have f: "b_state (runtime c) = b_state c" "b_consecutive_failures (runtime c) = b_consecutive_failures c"
    "b_opened_at_millis (runtime c) = b_opened_at_millis c" "b_rearmed_at_millis (runtime c) = b_rearmed_at_millis c" for c
    by (simp_all add: runtime_def)
  have "b_state b = b_state b'" "b_consecutive_failures b = b_consecutive_failures b'"
    "b_opened_at_millis b = b_opened_at_millis b'" "b_rearmed_at_millis b = b_rearmed_at_millis b'"
    using f [of b] f [of b'] assms by simp_all
  then show "phase (abs_breaker b) = phase (abs_breaker b')" "rearmed (abs_breaker b) = rearmed (abs_breaker b')"
    "breaker_inv b \<longleftrightarrow> breaker_inv b'"
    by (simp_all add: abs_breaker_def breaker_inv_def split: circuit_state.split)
qed

lemma fresh_entry:
  assumes "installing prev th cd hm s m s'" and "m n = Some v" and "prev n = None"
  shows "length (breakers s) \<le> u_breaker v"
    "phase (abs_breaker (breakers s' ! u_breaker v)) = Shut 0" "rearmed (abs_breaker (breakers s' ! u_breaker v)) = None"
proof -
  have e: "length (breakers s) \<le> u_breaker v" "runtime (breakers s' ! u_breaker v) = fresh_breaker (Some n) True"
    using installing_entry [OF assms(1,2)] assms(3) by (simp_all add: entry_ok_def)
  have "runtime (fresh_breaker (Some n) True) = fresh_breaker (Some n) True"
    by (simp add: runtime_def fresh_breaker_def)
  with e(2) have "runtime (breakers s' ! u_breaker v) = runtime (fresh_breaker (Some n) True)" by simp
  from abs_runtime [OF this] show "phase (abs_breaker (breakers s' ! u_breaker v)) = Shut 0"
    "rearmed (abs_breaker (breakers s' ! u_breaker v)) = None" "length (breakers s) \<le> u_breaker v"
    using e(1) by (simp_all add: abs_breaker_def fresh_breaker_def from_u8_def)
qed

lemma rebuild_circuits:
  assumes "build_table P cfg (Some t) s = (Inr t', s')" and "table_ok t s"
  shows "circuits_of t' s' = (\<lambda>n. map_option (retuned (circuits_of t s n)) (tuning t' s' n))"
    and "u_breaker u < length (breakers s) \<Longrightarrow> ref t' u = kept (tuning t' s') (ref t u)"
proof -
  obtain cd hm where inv: "installing (named t) (c_failure_threshold cfg) cd hm s (named t') s'"
    using built_names [OF assms(1)] assms(2) by auto
  have ok': "table_ok t' s'" using built_wf [OF assms(1)] assms(2) by auto
  have old: "u_breaker v = u_breaker w" "u_breaker w < length (breakers s)"
    "runtime (breakers s' ! u_breaker v) = runtime (breakers s ! u_breaker w)"
    if "named t' n = Some v" "named t n = Some w" for n v w
    using installing_entry [OF inv that(1)] that(2) named_index [OF assms(2) that(2)] installing_runtime [OF inv]
    by (simp_all add: entry_ok_def)
  note new = fresh_entry [OF inv]
  show "circuits_of t' s' = (\<lambda>n. map_option (retuned (circuits_of t s n)) (tuning t' s' n))"
  proof
    fix n
    show "circuits_of t' s' n = map_option (retuned (circuits_of t s n)) (tuning t' s' n)"
    proof (cases "named t' n")
      case (Some v)
      then show ?thesis
        using old(3) [OF Some, THEN abs_runtime(1)] old(3) [OF Some, THEN abs_runtime(2)] new(2,3) [OF Some]
        by (cases "named t n") (auto simp: circuits_of_def tuning_def retuned_def intro: circuit.equality)
    qed (simp add: circuits_of_def tuning_def)
  qed
  show "ref t' u = kept (tuning t' s') (ref t u)" if u: "u_breaker u < length (breakers s)"
  proof -
    have "ref t' u = Some n \<longleftrightarrow> kept (tuning t' s') (ref t u) = Some n" for n
    proof -
      have "named t' n \<noteq> None \<and> ref t u = Some n \<longleftrightarrow> ref t' u = Some n"
        using old(1) new(1) u by (fastforce simp: ref_Some [OF assms(2)] ref_Some [OF ok'])
      then show ?thesis by (auto simp: kept_def tuning_def circuits_of_def split: option.splits)
    qed
    then show ?thesis by (metis not_None_eq)
  qed
qed

section \<open>A request and the circuits\<close>

text \<open>The route of a request that asks a circuit for admission; every other request is answered by the
  proxy on its own.\<close>

definition routed :: "'h header_ops \<Rightarrow> route_table \<Rightarrow> 'h request \<Rightarrow> (route \<times> (string \<times> string) option) option" where
  "routed H t rq =
     (let path = uri_path (rq_uri rq) in
      if answers_locally t rq \<or> bad_path_normalized path \<or> ambiguous_route t path
         \<or> bad_host H (rq_headers rq) (rq_uri rq) (rq_version rq)
      then None
      else case lookup t path of
             None \<Rightarrow> None
           | Some r \<Rightarrow>
               (case strip_of r path of
                  Inl _ \<Rightarrow> None
                | Inr strip \<Rightarrow> if wants_upgrade H rq \<or> rq_method rq = ''CONNECT'' then None else Some (r, strip)))"

lemma lookup_route: "lookup t p = Some r \<Longrightarrow> r \<in> set (routes t)"
  by (auto simp: lookup_def Let_def find_Some_iff)

lemma target_errors: "upstream_target U up u strip = Inl (status, text) \<Longrightarrow> status \<noteq> 503"
  by (auto simp: upstream_target_def Let_def split: if_splits option.splits sum.splits)

lemma unrouted_request:
  assumes "handle_begin H U streaming t peer proto rq cx now s = (d, s')" and "routed H t rq = None"
  obtains rs where "d = Answer rs" "rs_status rs \<noteq> 503" "px_store s' = px_store s"
  using assms
  by (auto simp: handle_begin_def routed_def Let_def refuse_def record_req_def record_len_def error_response_def
      split: if_splits option.splits sum.splits)

lemma routed_request:
  assumes "handle_begin H U streaming t peer proto rq cx now s = (d, s')" and "routed H t rq = Some (r, strip)"
  obtains (refused) rs where "d = Answer rs" "rs_status rs = 503"
      "upstream_try_acquire (r_upstream r) (px_store s) = (None, px_store s')"
  | (returned) rs a st e where "d = Answer rs" "rs_status rs \<noteq> 503"
      "upstream_try_acquire (r_upstream r) (px_store s) = (Some a, st)"
      "px_store s' = settle Handed_back a (r_upstream r) st" "upstream_target U (r_upstream r) (rq_uri rq) strip = Inl e"
  | (forwarded) fw v where "d = Forward fw" "fw_upstream fw = r_upstream r"
      "upstream_try_acquire (r_upstream r) (px_store s) = (Some (fw_admission fw), px_store s')"
      "upstream_target U (r_upstream r) (rq_uri rq) strip = Inr v"
proof (cases d)
  case (Answer rs)
  then show thesis
    using assms target_errors [of U "r_upstream r" "rq_uri rq" strip] refused returned
    by (auto simp: handle_begin_def admitted_def routed_def Let_def refuse_def record_req_def record_len_def error_response_def
        on_store_def split: if_splits option.splits sum.splits prod.splits)
next
  case (Forward fw)
  from assms(1) [unfolded Forward] show thesis
    by (rule handle_begin_ForwardE) (use assms(2) Forward forwarded in \<open>auto simp: routed_def Let_def\<close>)
qed

lemma routed_route: "routed H t rq = Some (r, strip) \<Longrightarrow> r \<in> set (routes t)"
  by (auto simp: routed_def Let_def intro: lookup_route split: if_splits option.splits sum.splits)

section \<open>The abstraction of a gateway\<close>

definition flight_ref :: "route_table \<Rightarrow> 'h flight \<Rightarrow> string option \<times> admission" where
  "flight_ref t fl = (ref t (fw_upstream (fl_forward fl)), fw_admission (fl_forward fl))"

definition gateway_view :: "('h, 'k) gateway \<Rightarrow> net" where
  "gateway_view g =
     \<lparr>circuits = circuits_of (gw_table g) (gw_store g),
      flights = map (flight_ref (gw_table g)) (gw_flights g),
      checks = map (ref (gw_table g)) (gw_checks g),
      time = unat (st_clock (gw_store g))\<rparr>"

definition gateway_ok :: "('h, 'k) gateway \<Rightarrow> bool" where
  "gateway_ok g \<longleftrightarrow>
     table_ok (gw_table g) (gw_store g) \<and> store_ok (gw_store g)
     \<and> list_all (\<lambda>fl. u_breaker (fw_upstream (fl_forward fl)) < length (breakers (gw_store g))) (gw_flights g)
     \<and> list_all (\<lambda>u. u_breaker u < length (breakers (gw_store g))) (gw_checks g)"

definition arrival :: "'h header_ops \<Rightarrow> uri_ops \<Rightarrow> route_table \<Rightarrow> 'h request \<Rightarrow> (string \<times> bool) option" where
  "arrival H U t rq =
     (case routed H t rq of
        None \<Rightarrow> None
      | Some (r, strip) \<Rightarrow>
          Some (u_name (r_upstream r),
                case upstream_target U (r_upstream r) (rq_uri rq) strip of Inl _ \<Rightarrow> True | Inr _ \<Rightarrow> False))"

text \<open>What an event is to the specification.\<close>

fun gateway_label ::
    "'h header_ops \<Rightarrow> uri_ops \<Rightarrow> (duration \<Rightarrow> duration \<Rightarrow> bool) \<Rightarrow> 'k reload_env \<Rightarrow> ('h, 'k) gateway \<Rightarrow> ('h, 'b) event
     \<Rightarrow> net_event" where
  "gateway_label H U ready E g (Clock c) = Time (unat c)"
| "gateway_label H U ready E g (Request peer proto rnd rq now) =
     Arrive (arrival H U (gw_table g) (snd (identified H (gw_table g) rnd rq)))"
| "gateway_label H U ready E g (Outcome i hs reply later) =
     (let fl = gw_flights g ! i; (tm, st) = await ready hs (fw_body (fl_forward fl)) in
      Finish i (verdict_of (fw_counts_timeout (fl_forward fl)) (stalled (fl_table fl) later st) (the (select reply tm))))"
| "gateway_label H U ready E g (Gone i) = Vanish i"
| "gateway_label H U ready E g Tick = Start (map u_name (probed (gw_table g)))"
| "gateway_label H U ready E g (Checked i status) = Report i (is_healthy status)"
| "gateway_label H U ready E g (Touched force fs fs') =
     (let (r, s, log) = reload E force fs fs' (gw_reloader g) (gw_store g) in
      if ConfigReloaded \<in> set log then Retune (tuning (rl_table r) s) else Skip)"

text \<open>What the client of a request sees of the circuit: nothing yet, the refusal of the proxy, or another
  answer of its own.\<close>

fun gateway_see :: "('h, 'b) event \<Rightarrow> ('h, 'b) response option \<Rightarrow> answer_kind" where
  "gateway_see (Request peer proto rnd rq now) reply =
     (case reply of None \<Rightarrow> Admitted | Some rs \<Rightarrow> if rs_status rs = 503 then Refused else Answered)"
| "gateway_see e reply = Quiet"

fun clock_allowed :: "('h, 'b) event \<Rightarrow> bool" where
  "clock_allowed (Clock c) \<longleftrightarrow> c \<noteq> u64_max"
| "clock_allowed e \<longleftrightarrow> True"

section \<open>Each event\<close>

lemma remove_nth_map: "map f (remove_nth i xs) = remove_nth i (map f xs)"
  by (simp add: remove_nth_def take_map drop_map)

lemma remove_nth_all: "list_all P xs \<Longrightarrow> list_all P (remove_nth i xs)"
  by (auto simp: list_all_iff remove_nth_def dest: in_set_takeD in_set_dropD)

lemma gateway_held:
  assumes "gateway_ok g"
  shows "i < length (gw_flights g) \<Longrightarrow> held (gw_table g) (gw_store g) (fw_upstream (fl_forward (gw_flights g ! i)))"
    and "i < length (gw_checks g) \<Longrightarrow> held (gw_table g) (gw_store g) (gw_checks g ! i)"
    and "r \<in> set (routes (gw_table g)) \<Longrightarrow> held (gw_table g) (gw_store g) (r_upstream r)"
  using assms by (auto simp: gateway_ok_def held_def list_all_length table_ok_def)

text \<open>One call on the store, with some of the flights and checks left.\<close>

lemma follows_gateway:
  assumes "gateway_ok g" and "follows (gw_table g) u f (gw_store g) (px_store p)"
    and "list_all (\<lambda>fl. u_breaker (fw_upstream (fl_forward fl)) < length (breakers (gw_store g))) fls"
    and "list_all (\<lambda>u. u_breaker u < length (breakers (gw_store g))) us"
  shows "gateway_ok (g\<lparr>gw_proxy := p, gw_flights := fls, gw_checks := us\<rparr>)"
    and "gateway_view (g\<lparr>gw_proxy := p, gw_flights := fls, gw_checks := us\<rparr>)
      = (gateway_view g)\<lparr>circuits := on_circuit (ref (gw_table g) u) f (circuits (gateway_view g)),
                    flights := map (flight_ref (gw_table g)) fls, checks := map (ref (gw_table g)) us\<rparr>"
  using assms by (simp_all add: follows_def gateway_ok_def gateway_view_def)

lemma outcome_step:
  assumes "gateway_ok g" and "gw_outcome H ready i hs reply later g = Some (x, g')"
  shows "gateway_ok g'"
    and "net_step (gateway_label H U ready E g (Outcome i hs reply later)) (gateway_view g) = Some (Quiet, gateway_view g')"
proof -
  let ?fl = "gw_flights g ! i" and ?t = "gw_table g"
  let ?fw = "fl_forward ?fl"
  obtain tm st where a: "await ready hs (fw_body ?fw) = (tm, st)" by fastforce
  obtain res where i: "i < length (gw_flights g)" and res: "select reply tm = Some res"
    using assms(2) a by (auto simp: gw_outcome_def Let_def split: if_splits option.splits)
  obtain rs s where fin: "handle_finish H (fl_log ?fl) ?fw res (stalled (fl_table ?fl) later st) (gw_proxy g) = (rs, s)"
    by fastforce
  have g': "g' = g\<lparr>gw_proxy := s, gw_flights := remove_nth i (gw_flights g), gw_checks := gw_checks g\<rparr>"
    using assms(2) i a res fin by (auto simp: gw_outcome_def Let_def)
  let ?v = "verdict_of (fw_counts_timeout ?fw) (stalled (fl_table ?fl) later st) res"
  have "px_store s = settle ?v (fw_admission ?fw) (fw_upstream ?fw) (gw_store g)"
    using finish_verdict [of H "fl_log ?fl" ?fw res "stalled (fl_table ?fl) later st" "gw_proxy g"] fin by simp
  then have "follows ?t (fw_upstream ?fw) (spec_settle ?v (fw_admission ?fw) (unat (st_clock (gw_store g)))) (gw_store g) (px_store s)"
    using settle_follows [OF gateway_held(1) [OF assms(1) i]] by simp
  note f = follows_gateway [OF assms(1) this, of "remove_nth i (gw_flights g)" "gw_checks g", folded g']
  show "gateway_ok g'" using f(1) assms(1) by (simp add: gateway_ok_def remove_nth_all)
  have "gateway_view g' = (gateway_view g)\<lparr>circuits := on_circuit (ref ?t (fw_upstream ?fw))
        (spec_settle ?v (fw_admission ?fw) (time (gateway_view g))) (circuits (gateway_view g)),
      flights := remove_nth i (flights (gateway_view g))\<rparr>"
    using f(2) assms(1) by (simp add: gateway_ok_def remove_nth_all remove_nth_map gateway_view_def)
  then show "net_step (gateway_label H U ready E g (Outcome i hs reply later)) (gateway_view g) = Some (Quiet, gateway_view g')"
    using i a res by (simp add: Let_def gateway_view_def flight_ref_def)
qed

lemma checked_step:
  assumes "gateway_ok g" and "gw_checked i status g = Some g'"
  shows "gateway_ok g'" and "net_step (Report i (is_healthy status)) (gateway_view g) = Some (Quiet, gateway_view g')"
proof -
  let ?u = "gw_checks g ! i" and ?p = "on_store (probe_one (\<lambda>_. status) (gw_checks g ! i)) (gw_proxy g)"
  have i: "i < length (gw_checks g)"
    and g': "g' = g\<lparr>gw_proxy := ?p, gw_flights := gw_flights g, gw_checks := remove_nth i (gw_checks g)\<rparr>"
    using assms(2) by (auto simp: gw_checked_def split: if_splits)
  have "follows (gw_table g) ?u (spec_check (is_healthy status) (unat (st_clock (gw_store g)))) (gw_store g) (px_store ?p)"
    using probe_follows [OF gateway_held(2) [OF assms(1) i]] by (simp add: on_store_def)
  note f = follows_gateway [OF assms(1) this, of "gw_flights g" "remove_nth i (gw_checks g)", folded g']
  show "gateway_ok g'" using f(1) assms(1) by (simp add: gateway_ok_def remove_nth_all)
  show "net_step (Report i (is_healthy status)) (gateway_view g) = Some (Quiet, gateway_view g')"
    using f(2) assms(1) i by (simp add: gateway_ok_def remove_nth_all remove_nth_map gateway_view_def)
qed

lemma gone_step:
  assumes "gateway_ok g" and "gw_gone i g = Some g'"
  shows "gateway_ok g'" and "net_step (Vanish i) (gateway_view g) = Some (Quiet, gateway_view g')"
  using assms by (auto simp: gw_gone_def gateway_ok_def remove_nth_all remove_nth_map gateway_view_def split: if_splits)

lemma clock_step:
  assumes "gateway_ok g" and "c \<noteq> u64_max"
  shows "gateway_ok (gw_clock c g)" and "net_step (Time (unat c)) (gateway_view g) = Some (Quiet, gateway_view (gw_clock c g))"
  using assms
  by (auto simp: gw_clock_def on_store_def gateway_ok_def store_ok_def gateway_view_def circuits_of_def fun_eq_iff
      intro: table_ok_length)

lemma publish_store: "st_clock (publish_gauges t s) = st_clock s"
proof -
  have "st_clock (snd (on_breaker i set_gauges s)) = st_clock s" for i s
    by (simp add: on_breaker_def split: prod.split)
  then have "st_clock (fold (\<lambda>u s. snd (on_breaker (u_breaker u) set_gauges s)) us s) = st_clock s" for us
    by (induction us arbitrary: s) simp_all
  then show ?thesis by (simp add: publish_gauges_def)
qed

lemma publish_same:
  "table_ok t (publish_gauges t' s) \<longleftrightarrow> table_ok t s" "store_ok (publish_gauges t' s) \<longleftrightarrow> store_ok s"
  "circuits_of t (publish_gauges t' s) = circuits_of t s"
  by (simp_all add: table_ok_def store_ok_def publish_breakers publish_store circuits_of_def fun_eq_iff)

lemma tick_step:
  assumes "gateway_ok g" and "gw_tick g = Some g'"
  shows "gateway_ok g'"
    and "net_step (Start (map u_name (probed (gw_table g)))) (gateway_view g) = Some (Quiet, gateway_view g')"
proof -
  have ok: "table_ok (gw_table g) (gw_store g)" using assms(1) by (simp add: gateway_ok_def)
  have p: "ref (gw_table g) u = Some (u_name u)" "u_breaker u < length (breakers (gw_store g))"
    if "u \<in> set (probed (gw_table g))" for u
  proof -
    have "named (gw_table g) (u_name u) = Some u" using that by (simp add: probed_def named_iff)
    then show "ref (gw_table g) u = Some (u_name u)" "u_breaker u < length (breakers (gw_store g))"
      using ref_named [OF ok] named_index [OF ok] by blast+
  qed
  show "gateway_ok g'" using assms p(2)
    by (auto simp: gw_tick_def gateway_ok_def on_store_def publish_same publish_breakers list_all_iff split: if_splits)
  show "net_step (Start (map u_name (probed (gw_table g)))) (gateway_view g) = Some (Quiet, gateway_view g')" using assms(2) p(1)
    by (auto simp: gw_tick_def gateway_view_def on_store_def publish_same publish_store split: if_splits)
qed

lemma on_circuit_Some: "cs n = Some c \<Longrightarrow> on_circuit (Some n) f cs = cs(n \<mapsto> f c)"
  by (simp add: on_circuit_def)

lemma echo_status: "rs_status (echo H t rid rs) = rs_status rs"
  by (simp add: echo_def split: option.split)

lemma net_arrive_simps:
  assumes "circuits N n = Some c"
  shows "fst (spec_acquire (time N) c) = None \<Longrightarrow>
      net_arrive (Some (n, bad)) N = Some (Refused, N\<lparr>circuits := (circuits N)(n \<mapsto> snd (spec_acquire (time N) c))\<rparr>)"
    and "fst (spec_acquire (time N) c) = Some a \<Longrightarrow>
      net_arrive (Some (n, True)) N
        = Some (Answered, N\<lparr>circuits := (circuits N)(n \<mapsto> spec_release a (time N) (snd (spec_acquire (time N) c)))\<rparr>)"
    and "fst (spec_acquire (time N) c) = Some a \<Longrightarrow>
      net_arrive (Some (n, False)) N
        = Some (Admitted, N\<lparr>circuits := (circuits N)(n \<mapsto> snd (spec_acquire (time N) c)),
                             flights := flights N @ [(Some n, a)]\<rparr>)"
  using assms
  by (cases "spec_acquire (time N) c", simp add: net_arrive_def del: spec_acquire.simps spec_release.simps)+

lemma follows_trans:
  assumes "follows t u f s s1" and "follows t u h s1 s2"
  shows "follows t u (h \<circ> f) s s2"
  using assms by (auto simp: follows_def on_circuit_def option.map_comp comp_def split: option.split)

lemma follows_held: "held t s u \<Longrightarrow> follows t u f s s1 \<Longrightarrow> held t s1 u"
  by (simp add: held_def follows_def)

text \<open>A request that asks a circuit.\<close>

lemma routed_step:
  fixes d :: "('h, 'b) decision" and g :: "('h, 'k) gateway"
  assumes "gateway_ok g" and d: "handle_begin H U True (gw_table g) peer proto rq cx now (gw_proxy g) = (d, p)"
    and rs: "routed H (gw_table g) rq = Some (r, strip)"
    and g': "g' = g\<lparr>gw_proxy := p, gw_flights := gw_flights g @
        (case d of Answer _ \<Rightarrow> [] | Forward fw \<Rightarrow> [\<lparr>fl_table = gw_table g, fl_id = rid, fl_log = cx, fl_forward = fw\<rparr>]),
        gw_checks := gw_checks g\<rparr>"
  shows "gateway_ok g' \<and> net_arrive (arrival H U (gw_table g) rq) (gateway_view g)
    = Some (case d of Answer rs \<Rightarrow> if rs_status rs = 503 then Refused else Answered | Forward fw \<Rightarrow> Admitted, gateway_view g')"
proof -
  let ?t = "gw_table g" and ?s = "gw_store g" and ?u = "r_upstream r"
  let ?n = "u_name ?u" and ?now = "unat (st_clock ?s)"
  have ok: "table_ok ?t ?s" and all: "list_all (\<lambda>fl. u_breaker (fw_upstream (fl_forward fl)) < length (breakers ?s)) (gw_flights g)"
    "list_all (\<lambda>u. u_breaker u < length (breakers ?s)) (gw_checks g)"
    using assms(1) by (simp_all add: gateway_ok_def)
  have h: "held ?t ?s ?u" and n: "named ?t ?n = Some ?u"
    using gateway_held(3) [OF assms(1)] routed_named [OF ok] routed_route [OF rs] by blast+
  then obtain c where c: "circuits_of ?t ?s ?n = Some c" by (simp add: circuits_of_def)
  have ref: "ref ?t ?u = Some ?n" using ref_named [OF ok n] .
  note acq = acquire_follows [OF h _ n, unfolded c option.sel]
  have N: "circuits (gateway_view g) ?n = Some c" "time (gateway_view g) = ?now" using c by (simp_all add: gateway_view_def)
  note arr = net_arrive_simps [OF N(1), unfolded N(2)]
  note set = on_circuit_Some [where n = ?n and cs = "circuits (gateway_view g)" and c = c, OF N(1)]
  from d rs show ?thesis
  proof (cases rule: routed_request)
    case (refused rs)
    show ?thesis
      using follows_gateway [OF assms(1) acq(1) [OF refused(3)] all, unfolded ref set]
        arr(1) [OF acq(2) [OF refused(3), symmetric]] refused(1,2) assms(3) g'
      by (simp add: arrival_def del: spec_acquire.simps) (simp add: gateway_view_def)
  next
    case (returned rs a st e)
    note f1 = acq(1) [OF returned(3)]
    have "st_clock st = st_clock ?s" using f1 by (simp add: follows_def)
    then have f: "follows ?t ?u (spec_release a ?now \<circ> (\<lambda>c. snd (spec_acquire ?now c))) ?s (px_store p)"
      using follows_trans [OF f1 settle_follows [OF follows_held [OF h f1], of Handed_back a]] returned(4) by simp
    show ?thesis
      using follows_gateway [OF assms(1) f all, unfolded ref set] arr(2) [OF acq(2) [OF returned(3), symmetric]]
        returned(1,2,5) assms(3) g'
      by (simp add: arrival_def del: spec_acquire.simps spec_release.simps) (simp add: gateway_view_def)
  next
    case (forwarded fw v)
    let ?fl = "\<lparr>fl_table = ?t, fl_id = rid, fl_log = cx, fl_forward = fw\<rparr>"
    have all': "list_all (\<lambda>fl. u_breaker (fw_upstream (fl_forward fl)) < length (breakers ?s)) (gw_flights g @ [?fl])"
      using all(1) h forwarded(2) by (simp add: held_def)
    show ?thesis
      using follows_gateway [OF assms(1) acq(1) [OF forwarded(3)] all' all(2), unfolded ref set]
        arr(3) [OF acq(2) [OF forwarded(3), symmetric]] forwarded(1,2,4) assms(3) g'
      by (simp add: arrival_def del: spec_acquire.simps) (simp add: gateway_view_def flight_ref_def ref)
  qed
qed

lemma request_step:
  fixes x :: "('h, 'b) response option" and g :: "('h, 'k) gateway"
  assumes "gateway_ok g" and "gw_request H U peer proto rnd rq now g = (x, g')"
  shows "gateway_ok g' \<and> net_step (gateway_label H U ready E g (Request peer proto rnd rq now)) (gateway_view g)
    = Some (gateway_see (Request peer proto rnd rq now) x, gateway_view g')"
proof -
  let ?t = "gw_table g"
  obtain rid rq1 where id: "identified H ?t rnd rq = (rid, rq1)" by fastforce
  obtain log where log: "log = (if access_log ?t then Some (access_of H peer proto rq1 rid) else None)" by blast
  obtain d :: "('h, 'b) decision" and p where d: "handle_begin H U True ?t peer proto rq1 log now (gw_proxy g) = (d, p)"
    by fastforce
  have x: "x = (case d of Answer rs \<Rightarrow> Some (echo H ?t rid rs) | Forward fw \<Rightarrow> None)"
    and g': "g' = g\<lparr>gw_proxy := p, gw_flights := gw_flights g @
        (case d of Answer _ \<Rightarrow> [] | Forward fw \<Rightarrow> [\<lparr>fl_table = ?t, fl_id = rid, fl_log = log, fl_forward = fw\<rparr>]),
        gw_checks := gw_checks g\<rparr>"
    using assms(2) d by (auto simp: gw_request_def id log [symmetric] split: decision.splits)
  show ?thesis
  proof (cases "routed H ?t rq1")
    case None
    from unrouted_request [OF d None] obtain rs where "d = Answer rs" "rs_status rs \<noteq> 503" "px_store p = gw_store g" .
    then show ?thesis using x g' assms(1) id None
      by (simp add: arrival_def net_arrive_def echo_status gateway_ok_def gateway_view_def)
  next
    case (Some rst)
    then have "routed H ?t rq1 = Some (fst rst, snd rst)" by simp
    from routed_step [OF assms(1) d this g'] show ?thesis
      using id x by (auto simp: echo_status split: decision.split)
  qed
qed

text \<open>A reload.\<close>

lemma reuse_inv:
  "list_all breaker_inv (breakers s) \<Longrightarrow> list_all breaker_inv (breakers (snd (reuse d th hp hdis u s)))"
  by (cases "u_breaker u < length (breakers s)")
     (auto simp: reuse_store list_all_length nth_list_update breaker_inv_def)

lemma upstream_new_inv:
  "list_all breaker_inv (breakers s) \<Longrightarrow> list_all breaker_inv (breakers (snd (upstream_new u cfg s)))"
  by (auto simp: upstream_new_def for_upstream_def alloc_def Let_def breaker_inv_unchecked split: sum.split)

lemma install_inv:
  "list_all breaker_inv (breakers s) \<Longrightarrow> list_all breaker_inv (breakers (snd (install_routes prev th cs m s)))"
proof (induction prev th cs m s rule: install_routes.induct)
  case (2 prev th c cs m s)
  have "list_all breaker_inv (breakers (snd (install_upstream prev th c m s)))"
    using 2(2) reuse_inv [of s] upstream_new_inv [of s "ck_uri c" "ck_breaker c"]
    by (auto simp: install_upstream_def Let_def split: option.split prod.split sum.split) (metis snd_conv)+
  then show ?case using 2(1) by (fastforce simp: Let_def split: sum.split prod.split)
qed simp

lemma build_table_inv:
  assumes "list_all breaker_inv (breakers s)"
  shows "list_all breaker_inv (breakers (snd (build_table H cfg prev s)))"
  using install_inv [OF assms]
  by (auto simp: assms build_table_def split: option.split sum.split prod.split) (metis snd_conv)+

lemma rebuild_ok:
  assumes "build_table P cfg (Some t) s = (Inr t', s')" and "table_ok t s" "store_ok s"
  shows "table_ok t' s'" "store_ok s'" "length (breakers s) \<le> length (breakers s')" "st_clock s' = st_clock s"
proof -
  obtain cd hm where inv: "installing (named t) (c_failure_threshold cfg) cd hm s (named t') s'"
    using built_names [OF assms(1)] assms(2) by auto
  then show "length (breakers s) \<le> length (breakers s')" and c: "st_clock s' = st_clock s"
    by (simp_all add: installing_def)
  show "table_ok t' s'" using built_wf [OF assms(1)] assms(2) by auto
  show "store_ok s'" using build_table_inv [of s P cfg "Some t"] assms(1,3) c by (simp add: store_ok_def)
qed

lemma reload_step:
  assumes "gateway_ok g"
  shows "gateway_ok (gw_reload E force fs fs' g)
    \<and> net_step (gateway_label H U ready E g (Touched force fs fs')) (gateway_view g)
      = Some (Quiet, gateway_view (gw_reload E force fs fs' g))"
proof -
  let ?r = "gw_reloader g" and ?s = "gw_store g"
  obtain r1 s1 l1 where rc: "reload_config E force fs ?r ?s = (r1, s1, l1)" by (metis prod_cases3)
  obtain r2 l2 where cert: "reload_cert E force fs fs' r1 = (r2, l2)" by fastforce
  have rl: "reload E force fs fs' ?r ?s = (r2, s1, l1 @ l2)" using rc cert by (simp add: reload_def)
  have t: "rl_table r2 = rl_table r1" and l2: "ConfigReloaded \<notin> set l2"
    using cert by (cases rule: reload_cert_cases; simp)+
  let ?g = "gw_reload E force fs fs' g"
  have g: "?g = g\<lparr>gw_reloader := r2, gw_proxy := (gw_proxy g)\<lparr>px_store := s1\<rparr>\<rparr>" using rl by (simp add: gw_reload_def)
  have same: ?thesis if "rl_table r1 = gw_table g" "s1 = ?s" "ConfigReloaded \<notin> set l1"
    using that assms rl t l2 by (simp add: g gateway_ok_def gateway_view_def)
  from rc show ?thesis
  proof (cases rule: reload_config_cases)
    case (swapped path raw cfg s0)
    have ok: "table_ok (gw_table g) ?s" "store_ok ?s" using assms by (simp_all add: gateway_ok_def)
    note b = rebuild_ok [OF swapped(5) ok] and c = rebuild_circuits [OF swapped(5) ok(1)]
    have s1: "breakers s1 = breakers s0" "st_clock s1 = st_clock ?s" "circuits_of (rl_table r1) s1 = circuits_of (rl_table r1) s0"
      using swapped(6) b(4) by (simp_all add: publish_breakers publish_store publish_same)
    have tun: "tuning (rl_table r1) s1 = tuning (rl_table r1) s0" by (simp add: tuning_def fun_eq_iff s1(3))
    have idx: "\<forall>fl \<in> set (gw_flights g). u_breaker (fw_upstream (fl_forward fl)) < length (breakers ?s)"
      "\<forall>u \<in> set (gw_checks g). u_breaker u < length (breakers ?s)"
      using assms by (simp_all add: gateway_ok_def list_all_iff)
    have "gateway_ok ?g" unfolding gateway_ok_def g
      using b idx swapped(6) by (auto simp: t publish_same publish_breakers list_all_iff)
    moreover have "gateway_view ?g = (gateway_view g)\<lparr>
        circuits := (\<lambda>n. map_option (retuned (circuits (gateway_view g) n)) (tuning (rl_table r1) s1 n)),
        flights := map (map_prod (kept (tuning (rl_table r1) s1)) id) (flights (gateway_view g)),
        checks := map (kept (tuning (rl_table r1) s1)) (checks (gateway_view g))\<rparr>"
      using idx by (simp add: g gateway_view_def t s1 tun c flight_ref_def)
    ultimately show ?thesis using rl t swapped(8) by simp
  qed (use same in simp_all)
qed

section \<open>The refinement\<close>

interpretation gw: simulation
  where cstep = "gateway_step H U ready E"
    and astep = net_step
    and label = "gateway_label H U ready E"
    and see = gateway_see
    and view = gateway_view
    and good = gateway_ok
    and allowed = clock_allowed
  for H :: "'h header_ops" and U ready and E :: "'k reload_env"
proof
  fix g g' :: "('h, 'k) gateway" and e and x :: "('h, 'b) response option"
  assume a: "gateway_ok g" "clock_allowed e" "gateway_step H U ready E e g = Some (x, g')"
  have "gateway_ok g' \<and> net_step (gateway_label H U ready E g e) (gateway_view g) = Some (gateway_see e x, gateway_view g')"
  proof (cases e)
    case (Clock c)
    then show ?thesis using a clock_step [OF a(1), of c] by auto
  next
    case (Request peer proto rnd rq now)
    then have "gw_request H U peer proto rnd rq now g = (x, g')" using a(3) by simp
    from request_step [OF a(1) this] show ?thesis using Request by blast
  next
    case (Outcome i hs reply later)
    then have "gw_outcome H ready i hs reply later g = Some (x, g')" using a(3) by simp
    from outcome_step [OF a(1) this] show ?thesis using Outcome by (simp del: net_step.simps gateway_label.simps)
  next
    case (Gone i)
    then show ?thesis using a(3) gone_step [OF a(1)] by (auto simp del: net_step.simps)
  next
    case Tick
    then show ?thesis using a(3) tick_step [OF a(1)] by (auto simp del: net_step.simps)
  next
    case (Checked i status)
    then show ?thesis using a(3) checked_step [OF a(1)] by (auto simp del: net_step.simps)
  next
    case (Touched force fs fs')
    then show ?thesis using a(3) reload_step [OF a(1), of E force fs fs' H U ready] by (auto simp del: net_step.simps gateway_label.simps)
  qed
  then show "gateway_ok g'" "net_step (gateway_label H U ready E g e) (gateway_view g) = Some (gateway_see e x, gateway_view g')"
    by blast+
qed

end
