(* ===== verification/Server_Main.thy ===== *)
theory Server_Main
  imports Reload
begin

text \<open>
  The command line of \<open>crates/server/src/main.rs\<close> and the admin endpoints of \<open>admin.rs\<close>. Environment variables and
  parsed arguments are data. What \<open>main\<close> does once it serves is in theory \<open>Serve\<close>.
\<close>

section \<open>Admin endpoints\<close>

record admin_response =
  ad_status :: nat
  ad_type :: string
  ad_body :: string

definition respond :: "nat \<Rightarrow> string \<Rightarrow> string \<Rightarrow> admin_response" where
  "respond status ctype body = \<lparr>ad_status = status, ad_type = ctype, ad_body = body\<rparr>"

definition text_type :: string where
  "text_type = ''text/plain; charset=utf-8''"

definition admin_route :: "string \<Rightarrow> string \<Rightarrow> string \<Rightarrow> bool \<Rightarrow> admin_response" where
  "admin_route method path metrics draining =
     (if method \<noteq> ''GET'' \<and> method \<noteq> ''HEAD''
      then respond 405 text_type (''method not allowed'' @ [CHR 0x0A])
      else if path = ''/metrics'' then respond 200 ''text/plain; version=0.0.4'' metrics
      else if path = ''/healthz'' \<or> path = ''/health'' then respond 200 text_type ''ok''
      else if path = ''/readyz'' \<and> draining then respond 503 text_type ''draining''
      else if path = ''/readyz'' then respond 200 text_type ''ok''
      else respond 404 text_type (''not found'' @ [CHR 0x0A]))"

text \<open>
  The accept loop of \<open>serve_admin\<close>. An \<open>accept\<close> becomes ready at a time, with a connection or with an error; after an error
  the loop sleeps. A connection is the requests that come in on it, with their times; hyper closes one that sends no
  request head in time. \<open>metrics\<close> is what the recorder renders at a time, \<open>draining\<close> the flag \<open>main\<close> sets.
\<close>

definition header_read_timeout :: duration where
  "header_read_timeout = from_secs 10"

definition admin_pause :: duration where
  "admin_pause = from_millis 100"

fun admin_accepts :: "duration \<Rightarrow> (duration \<times> 'c option) list \<Rightarrow> (duration \<times> 'c) list" where
  "admin_accepts now [] = []"
| "admin_accepts now ((t, Some c) # evs) = (max now t, c) # admin_accepts (max now t) evs"
| "admin_accepts now ((t, None) # evs) = admin_accepts (max now t + admin_pause) evs"

definition serve_admin ::
    "(duration \<Rightarrow> string) \<Rightarrow> (duration \<Rightarrow> bool) \<Rightarrow> (duration \<times> (duration \<times> string \<times> string) list option) list \<Rightarrow> admin_response list list" where
  "serve_admin metrics draining evs =
     map (\<lambda>(_, reqs). map (\<lambda>(t, method, path). admin_route method path (metrics t) (draining t)) reqs) (admin_accepts 0 evs)"

text \<open>Failing \<open>accept\<close>s lose no connection: each is served, in order, at most the pauses of the failures before it late.\<close>

lemma admin_accepts_all: "map snd (admin_accepts now evs) = List.map_filter snd evs"
  by (induction now evs rule: admin_accepts.induct) (simp_all add: List.map_filter_def)

lemma admin_accepts_late:
  assumes "sorted (map fst evs)" and "\<forall>e \<in> set evs. now \<le> fst e + d" and "(at_time, c) \<in> set (admin_accepts now evs)"
  shows "\<exists>t. (t, Some c) \<in> set evs \<and> at_time \<le> t + d + length (filter (\<lambda>e. snd e = None) evs) * admin_pause"
  using assms
proof (induction now evs arbitrary: d rule: admin_accepts.induct)
  case (2 now t c' evs)
  then show ?case
  proof (cases "(at_time, c) = (max now t, c')")
    case False
    have "\<forall>e \<in> set evs. max now t \<le> fst e + d" using 2(2,3) by fastforce
    with 2 False show ?thesis by fastforce
  qed fastforce
next
  case (3 now t evs)
  have "\<forall>e \<in> set evs. max now t + admin_pause \<le> fst e + (d + admin_pause)" using 3(2,3) by fastforce
  with 3(1) [of "d + admin_pause"] 3(2,4) obtain u where "(u, Some c) \<in> set evs"
    "at_time \<le> u + (d + admin_pause) + length (filter (\<lambda>e. snd e = None) evs) * admin_pause" by auto
  then show ?case by (intro exI [of _ u]) simp
qed simp

text \<open>JSON values, as the example programs build them; \<open>serde_json\<close> writes their text.\<close>

datatype json = JNull | JNum nat | JStr string | JArr "json list" | JObj "(string \<times> json) list"

section \<open>Arguments and environment\<close>

datatype cmd = Check | Healthcheck "string option"

datatype log_format = JsonLog | TextLog

record args =
  a_cmd :: "cmd option"
  a_config :: "string option"
  a_bind :: "socket_addr option"
  a_metrics_bind :: socket_addr
  a_tls_cert :: "string option"
  a_tls_key :: "string option"
  a_log_format :: log_format

text \<open>\<open>std::env::var\<close>\<close>

datatype env_var = Present string | NotPresent | NotUnicode

datatype main_error =
    InvalidPort string
  | InlineToml error
  | InlineNotUtf8
  | ConfigError error
  | TlsPair
  | TlsError tls_error
  | BuildingConfig

definition resolve_bind :: "socket_addr option \<Rightarrow> string option \<Rightarrow> (main_error, socket_addr) result" where
  "resolve_bind bind port =
     (case bind of
        Some b \<Rightarrow> Inr b
      | None \<Rightarrow>
          (case map_option trim port of
             None \<Rightarrow> Inr \<lparr>sa_ip = V4 0, sa_port = 8080\<rparr>
           | Some p \<Rightarrow>
               if p = [] then Inr \<lparr>sa_ip = V4 0, sa_port = 8080\<rparr>
               else (case parse_uint 65535 p of
                       Some n \<Rightarrow> Inr \<lparr>sa_ip = V4 0, sa_port = of_int n\<rparr>
                     | None \<Rightarrow> Inl (InvalidPort p))))"

definition load_cfg ::
    "'k reload_env \<Rightarrow> file_system \<Rightarrow> env_var \<Rightarrow> args \<Rightarrow> (main_error, config_toml \<times> string option) result" where
  "load_cfg E fs inline a =
     (let from_file =
        (let path = (case a_config a of Some p \<Rightarrow> p | None \<Rightarrow> ''config.toml'') in
         case load_config (e_parse_toml E) (\<lambda>p. case fs p of Some b \<Rightarrow> if utf8_valid b then Some b else None | None \<Rightarrow> None) path of
           Inl e \<Rightarrow> Inl (ConfigError e)
         | Inr c \<Rightarrow> Inr (c, Some path)) in
      case inline of
        Present raw \<Rightarrow>
          if trim raw \<noteq> []
          then (case config_from_str (e_parse_toml E) raw of
                  Inl e \<Rightarrow> Inl (InlineToml e)
                | Inr c \<Rightarrow> Inr (c, None))
          else from_file
      | NotUnicode \<Rightarrow> Inl InlineNotUtf8
      | NotPresent \<Rightarrow> from_file)"

section \<open>Start-up and the check command\<close>

text \<open>\<open>load_acceptor\<close>: \<open>with_single_cert\<close> of rustls is an argument.\<close>

definition load_acceptor ::
    "'k reload_env \<Rightarrow> (string list \<Rightarrow> string \<Rightarrow> bool) \<Rightarrow> file_system \<Rightarrow> string \<Rightarrow> string \<Rightarrow> (main_error, unit) result" where
  "load_acceptor E single_cert fs cert_path key_path =
     (case load_certs E fs cert_path of
        Inl e \<Rightarrow> Inl (TlsError e)
      | Inr certs \<Rightarrow>
          (case load_key E fs key_path of
             Inl e \<Rightarrow> Inl (TlsError e)
           | Inr k \<Rightarrow> if single_cert certs k then Inr () else Inl BuildingConfig))"

definition check ::
    "'k reload_env \<Rightarrow> (string list \<Rightarrow> string \<Rightarrow> bool) \<Rightarrow> file_system \<Rightarrow> env_var \<Rightarrow> args \<Rightarrow> store \<Rightarrow> (main_error, nat) result" where
  "check E single_cert fs inline a s =
     (case (case (a_tls_cert a, a_tls_key a) of
              (Some cert, Some k) \<Rightarrow> load_acceptor E single_cert fs cert k
            | (None, None) \<Rightarrow> Inr ()
            | _ \<Rightarrow> Inl TlsPair) of
        Inl e \<Rightarrow> Inl e
      | Inr _ \<Rightarrow>
          (case load_cfg E fs inline a of
             Inl e \<Rightarrow> Inl e
           | Inr (cfg, _) \<Rightarrow>
               (case build_table (e_parsers E) cfg None s of
                  (Inl e, _) \<Rightarrow> Inl (ConfigError e)
                | (Inr _, _) \<Rightarrow> Inr (length (c_routes cfg)))))"

text \<open>\<open>report\<close>: the exit code.\<close>

definition report :: "('e, 'a) result \<Rightarrow> nat" where
  "report r = (case r of Inr _ \<Rightarrow> 0 | Inl _ \<Rightarrow> 1)"

text \<open>What \<open>main\<close> validates and sets up before it starts its tasks: the reloader, with the shared table and the
  certificate, the breakers, and whether the files are to be watched. What follows and can still fail, the
  file watch, the bind address and the two listeners, is \<open>boot\<close> of theory \<open>Boot\<close>.\<close>

definition start ::
    "'k reload_env \<Rightarrow> file_system \<Rightarrow> env_var \<Rightarrow> args \<Rightarrow> store \<Rightarrow> (main_error, 'k reloader \<times> store \<times> bool) result" where
  "start E fs inline a s =
     (case (case (a_tls_cert a, a_tls_key a) of
              (Some cert, Some k) \<Rightarrow>
                (case load_reloadable E fs cert k of Inl e \<Rightarrow> Inl (TlsError e) | Inr tr \<Rightarrow> Inr (Some tr))
            | (None, None) \<Rightarrow> Inr None
            | _ \<Rightarrow> Inl TlsPair) of
        Inl e \<Rightarrow> Inl e
      | Inr tls \<Rightarrow>
          (case load_cfg E fs inline a of
             Inl e \<Rightarrow> Inl e
           | Inr (cfg, path) \<Rightarrow>
               (case build_table (e_parsers E) cfg None s of
                  (Inl e, _) \<Rightarrow> Inl (ConfigError e)
                | (Inr t, s') \<Rightarrow>
                    Inr (reloader_new E fs path t tls, publish_gauges t s', \<not> (path = None \<and> tls = None)))))"

lemma acceptor_reloadable:
  assumes "\<forall>cs k. single_cert cs k \<longleftrightarrow> e_from_der E cs k \<noteq> None"
  shows "(\<exists>x. load_acceptor E single_cert fs cert k = Inr x) \<longleftrightarrow> (\<exists>tr. load_reloadable E fs cert k = Inr tr)"
  using assms
  by (auto simp: load_acceptor_def load_reloadable_def load_certified_def split: sum.splits option.splits)

lemma built_length:
  assumes "build_table H cfg None s = (Inr t, s')"
  shows "length (routes t) = length (c_routes cfg)"
proof -
  from assms show ?thesis by (rule build_table_Inr) (auto dest!: list_all2_lengthD)
qed

text \<open>\<open>check\<close> and the validation of the start accept the same arguments, environment and files, with as
  many routes. That rustls accepts a certificate for a fixed configuration exactly when it accepts it for a
  swappable one is its documented behaviour.\<close>

lemma check_agrees_with_start:
  assumes "\<forall>cs k. single_cert cs k \<longleftrightarrow> e_from_der E cs k \<noteq> None"
  shows "case check E single_cert fs inline a s of
      Inr n \<Rightarrow> report (check E single_cert fs inline a s) = 0
        \<and> (\<exists>r s' w. start E fs inline a s = Inr (r, s', w) \<and> length (routes (rl_table r)) = n)
    | Inl _ \<Rightarrow> report (check E single_cert fs inline a s) = 1 \<and> (\<exists>e. start E fs inline a s = Inl e)"
proof -
  let ?c = "case (a_tls_cert a, a_tls_key a) of
              (Some cert, Some k) \<Rightarrow> load_acceptor E single_cert fs cert k
            | (None, None) \<Rightarrow> Inr ()
            | _ \<Rightarrow> Inl TlsPair"
  let ?t = "case (a_tls_cert a, a_tls_key a) of
              (Some cert, Some k) \<Rightarrow>
                (case load_reloadable E fs cert k of Inl e \<Rightarrow> Inl (TlsError e) | Inr tr \<Rightarrow> Inr (Some tr))
            | (None, None) \<Rightarrow> Inr None
            | _ \<Rightarrow> Inl TlsPair"
  have "(\<exists>x. ?c = Inr x) \<longleftrightarrow> (\<exists>tr. ?t = Inr tr)"
    using acceptor_reloadable [OF assms, of fs] by (auto split: option.splits sum.splits)
  then show ?thesis
    unfolding check_def start_def report_def
    by (cases ?c; cases ?t; cases "load_cfg E fs inline a")
       (auto simp: reloader_new_def built_length split: sum.splits prod.splits)
qed

definition demo_args :: "string option \<Rightarrow> args" where
  "demo_args k =
     \<lparr>a_cmd = Some Check, a_config = Some ''c.toml'', a_bind = None, a_metrics_bind = \<lparr>sa_ip = V4 0, sa_port = 9090\<rparr>,
      a_tls_cert = Some ''crt'', a_tls_key = k, a_log_format = JsonLog\<rparr>"

section \<open>The default health check URL\<close>

text \<open>\<open>Display\<close> of \<open>SocketAddr\<close>, and the loopback address that stands for a wildcard bind.\<close>

definition show_socket_addr :: "socket_addr \<Rightarrow> string" where
  "show_socket_addr a =
     (case sa_ip a of
        V4 w \<Rightarrow> show_ipv4 w
      | V6 w \<Rightarrow> ''['' @ show_ipv6 w @ '']'') @ '':'' @ show_int (uint (sa_port a))"

definition is_unspecified :: "ip_addr \<Rightarrow> bool" where
  "is_unspecified ip = (case ip of V4 w \<Rightarrow> w = 0 | V6 w \<Rightarrow> w = 0)"

definition healthcheck_url :: "string option \<Rightarrow> args \<Rightarrow> string" where
  "healthcheck_url url a =
     (case url of
        Some u \<Rightarrow> u
      | None \<Rightarrow>
          (let m = a_metrics_bind a;
               m1 = (if is_unspecified (sa_ip m)
                     then m\<lparr>sa_ip := (case sa_ip m of V4 _ \<Rightarrow> V4 0x7F000001 | V6 _ \<Rightarrow> V6 1)\<rparr>
                     else m) in
           ''http://'' @ show_socket_addr m1 @ ''/healthz''))"

section \<open>The health check command\<close>

text \<open>The accessors of \<open>http::Uri\<close> that are used, and the exchange with the admin server: how many milliseconds it takes, \<^const>\<open>None\<close>
  for ever, and the status or the error it ends with.\<close>

record check_uri =
  cu_scheme :: "string option"
  cu_host :: "string option"
  cu_port :: "nat option"
  cu_path_and_query :: "string option"
  cu_authority :: string

datatype healthcheck_error = InvalidUrl | NotHttp | NoHost | TimedOut | ExchangeFailed string | Unhealthy nat

definition healthcheck ::
    "(string \<Rightarrow> check_uri option) \<Rightarrow> (string \<Rightarrow> nat \<Rightarrow> string \<Rightarrow> string \<Rightarrow> nat option \<times> (string, nat) result) \<Rightarrow> string \<Rightarrow>
     (healthcheck_error, unit) result" where
  "healthcheck parse exchange url =
     (case parse url of
        None \<Rightarrow> Inl InvalidUrl
      | Some u \<Rightarrow>
          if cu_scheme u \<noteq> Some ''http'' then Inl NotHttp
          else
            (case cu_host u of
               None \<Rightarrow> Inl NoHost
             | Some h \<Rightarrow>
                 (let port = (case cu_port u of Some n \<Rightarrow> n | None \<Rightarrow> 80);
                      path = (case cu_path_and_query u of Some p \<Rightarrow> p | None \<Rightarrow> ''/'');
                      (takes, res) = exchange (trim_matches (\<lambda>c. c = CHR ''['' \<or> c = CHR '']'') h) port path (cu_authority u) in
                  case takes of
                    None \<Rightarrow> Inl TimedOut
                  | Some ms \<Rightarrow>
                      if 3000 < ms then Inl TimedOut
                      else
                        (case res of
                           Inl e \<Rightarrow> Inl (ExchangeFailed e)
                         | Inr status \<Rightarrow> if 200 \<le> status \<and> status < 300 then Inr () else Inl (Unhealthy status)))))"

text \<open>The exit code is 0 exactly for a 2xx within three seconds from an address the URL gives.\<close>

lemma healthcheck_exit:
  "report (healthcheck parse exchange url) = 0 \<longleftrightarrow>
     (\<exists>u h ms status. parse url = Some u \<and> cu_scheme u = Some ''http'' \<and> cu_host u = Some h
        \<and> exchange (trim_matches (\<lambda>c. c = CHR ''['' \<or> c = CHR '']'') h)
            (case cu_port u of Some n \<Rightarrow> n | None \<Rightarrow> 80) (case cu_path_and_query u of Some p \<Rightarrow> p | None \<Rightarrow> ''/'') (cu_authority u)
          = (Some ms, Inr status)
        \<and> ms \<le> 3000 \<and> status div 100 = 2)"
proof -
  have "200 \<le> n \<and> n < 300 \<longleftrightarrow> n div 100 = 2" for n :: nat by arith
  then show ?thesis
    by (auto simp: healthcheck_def report_def Let_def split: option.splits sum.splits prod.splits if_splits)
qed

end
