(* ===== verification/Gateway_Props.thy ===== *)
theory Gateway_Props
  imports Gateway_Refine Server_Main
begin

text \<open>
  What the refinement gives: the properties of the running gateway, proved on the abstract one.
\<close>

section \<open>A sample run\<close>

definition demo_gateway :: "((string \<times> string) list, string) gateway" where
  "demo_gateway =
     \<lparr>gw_reloader = reloader_new demo_env (\<lambda>_. None) (Some ''c.toml'') demo_table None,
      gw_proxy = demo_state default_breaker 5, gw_flights = [], gw_checks = []\<rparr>"

abbreviation demo_step where
  "demo_step \<equiv> gateway_step list_headers split_uris (\<lambda>d n. d \<le> n) demo_env ::
     ((string \<times> string) list, unit) event \<Rightarrow> _"

abbreviation demo_label where
  "demo_label \<equiv> gateway_label list_headers split_uris (\<lambda>d n. d \<le> n) demo_env ::
     _ \<Rightarrow> ((string \<times> string) list, unit) event \<Rightarrow> _"

definition asked :: "((string \<times> string) list, unit) event" where
  "asked = Request (V4 0x05050505) ''https'' (0, 0) (demo_request ''GET'' ''/api/x'' [] True) 0"

definition answered_with :: "nat \<Rightarrow> ((string \<times> string) list, unit) event" where
  "answered_with status =
     Outcome 0 [] (Some (Client_response \<lparr>rs_status = status, rs_headers = [], rs_body = Streamed ()\<rparr>)) 1000000"

definition demo_events :: "((string \<times> string) list, unit) event list" where
  "demo_events = [asked, Tick, Touched False (\<lambda>_. Some ''new'') (\<lambda>_. None), Checked 0 (Some 500), Clock 9, answered_with 503]"

lemma demo_gateway_ok: "gateway_ok demo_gateway"
  by code_simp

section \<open>The gateway refines its circuits\<close>

text \<open>C3. The gateway refines one circuit per upstream name, as long as its events do not overlap: an event is
  the part of a handler before its wait or after it, the end of one health check, or one whole reload, and
  each runs without interruption. Then, whatever the order of requests, outcomes, vanished clients, health
  checks, reloads and clock readings, every run of the program's handlers on the shared table and the
  shared breakers is a run of the abstract gateway: a request is admitted or
  refused as the circuit of its upstream says, an outcome or a check reports to the circuit it was
  admitted by and to no other, a reload carries the circuits over by name with their state, and what
  still holds an upstream that is gone reports to nobody. (On several threads the single atomic actions of
  two events can mix as well. Such runs are not claimed here: the abstract circuit does not have all of
  them, as \<open>normal_admitted_while_half_open\<close> of theory \<open>Breaker_Conc\<close> shows, and what still holds of a breaker
  then is proved there.)\<close>

theorem gateway_refines_circuits:
  assumes "gateway_ok g" and "list_all clock_allowed es"
    and "run_steps (gateway_step H U ready E) es g = Some (xs, g')"
  shows "run_steps net_step (labels (gateway_step H U ready E) (gateway_label H U ready E) es g) (gateway_view g)
       = Some (map2 gateway_see es xs, gateway_view g') \<and> gateway_ok g'"
  using assms by (rule gw.runs_simulate)

theorem gateway_refines_circuits_witness:
  "\<exists>xs g'. run_steps demo_step demo_events demo_gateway = Some (xs, g')
     \<and> run_steps net_step (labels demo_step demo_label demo_events demo_gateway) (gateway_view demo_gateway)
         = Some (map2 gateway_see demo_events xs, gateway_view g')
     \<and> map2 gateway_see demo_events xs = [Admitted, Quiet, Quiet, Quiet, Quiet, Quiet]
     \<and> circuits (gateway_view g') ''a:81'' = Some \<lparr>phase = Shut 2, rearmed = None, threshold = 3, cooldown = 60000\<rparr>"
proof -
  let ?r = "run_steps demo_step demo_events demo_gateway"
  have "(case ?r of None \<Rightarrow> False | Some (xs, g') \<Rightarrow>
      map2 gateway_see demo_events xs = [Admitted, Quiet, Quiet, Quiet, Quiet, Quiet]
      \<and> circuits (gateway_view g') ''a:81'' = Some \<lparr>phase = Shut 2, rearmed = None, threshold = 3, cooldown = 60000\<rparr>)"
    by code_simp
  then obtain xs g' where r: "?r = Some (xs, g')" "map2 gateway_see demo_events xs = [Admitted, Quiet, Quiet, Quiet, Quiet, Quiet]"
    "circuits (gateway_view g') ''a:81'' = Some \<lparr>phase = Shut 2, rearmed = None, threshold = 3, cooldown = 60000\<rparr>"
    by (auto split: option.splits)
  have "list_all clock_allowed demo_events" by code_simp
  note sim = gateway_refines_circuits [OF demo_gateway_ok this r(1)]
  show ?thesis by (intro exI conjI) (fact r(1), fact conjunct1 [OF sim], fact r(2), fact r(3))
qed

section \<open>From the start on\<close>

text \<open>The gateway as \<open>main\<close> hands it over, and the specification it starts from: every circuit shut, nothing underway.\<close>

definition fresh_gateway :: "'k reloader \<Rightarrow> store \<Rightarrow> ('h, 'k) gateway" where
  "fresh_gateway r s =
     \<lparr>gw_reloader = r, gw_proxy = \<lparr>px_store = s, px_records = [], px_warned = False, px_notes = []\<rparr>,
      gw_flights = [], gw_checks = []\<rparr>"

definition fresh_net :: "(string \<rightharpoonup> nat \<times> nat) \<Rightarrow> nat \<Rightarrow> net" where
  "fresh_net T now = \<lparr>circuits = (\<lambda>n. map_option (retuned None) (T n)), flights = [], checks = [], time = now\<rparr>"

lemma started_gateway:
  assumes "start E fs inline a s = Inr (r, s1, w)" and "store_ok s"
  shows "gateway_ok (fresh_gateway r s1)"
    and "gateway_view (fresh_gateway r s1) = fresh_net (tuning (rl_table r) s1) (unat (st_clock s1))"
proof -
  obtain cfg s0 where b: "build_table (e_parsers E) cfg None s = (Inr (rl_table r), s0)" "s1 = publish_gauges (rl_table r) s0"
    using assms(1) by (auto simp: start_def reloader_new_def split: sum.splits option.splits prod.splits)
  obtain cd hm where inv: "installing Map.empty (c_failure_threshold cfg) cd hm s (named (rl_table r)) s0"
    using built_names [OF b(1)] by (auto simp: prev_by_name_def [of None])
  have "st_clock s0 = st_clock s" using inv by (simp add: installing_def)
  then have s0: "table_ok (rl_table r) s0" "store_ok s0"
    using built_wf [OF b(1)] build_table_inv [of s "e_parsers E" cfg None] assms(2) b(1) by (simp_all add: store_ok_def)
  then show "gateway_ok (fresh_gateway r s1)" by (simp add: gateway_ok_def fresh_gateway_def b(2) publish_same)
  have "circuits_of (rl_table r) s1 n = map_option (retuned None) (tuning (rl_table r) s1 n)" for n
    using fresh_entry [OF inv, of n]
    by (cases "named (rl_table r) n")
       (auto simp: b(2) publish_same circuits_of_def tuning_def retuned_def intro: circuit.equality)
  then show "gateway_view (fresh_gateway r s1) = fresh_net (tuning (rl_table r) s1) (unat (st_clock s1))"
    by (simp add: gateway_view_def fresh_gateway_def fresh_net_def fun_eq_iff)
qed

text \<open>C13. A server that starts serves soundly for as long as it runs, its events not overlapping. From the state \<open>main\<close> hands
  over, and through whatever sequence of requests, outcomes, health checks and reloads, each run without interruption, the
  table in use and the breakers stay well-formed, and the run is one of the abstract gateway from its first state, in which the circuit of every configured upstream is shut with no
  failure counted.\<close>

theorem started_gateway_sound:
  assumes "start E fs inline a s = Inr (r, s1, w)" and "store_ok s" and "list_all clock_allowed es"
    and "run_steps (gateway_step H U ready E) es (fresh_gateway r s1) = Some (xs, g')"
  shows "gateway_ok g' \<and> run_steps net_step
      (labels (gateway_step H U ready E) (gateway_label H U ready E) es (fresh_gateway r s1))
      (fresh_net (tuning (rl_table r) s1) (unat (st_clock s1)))
    = Some (map2 gateway_see es xs, gateway_view g')"
  using gw.runs_simulate [OF started_gateway(1) [OF assms(1,2)] assms(3,4)]
  unfolding started_gateway(2) [OF assms(1,2)] by blast

theorem started_gateway_sound_witness:
  "\<exists>r s1 w xs g'. start demo_env (\<lambda>p. Some ''new'') NotPresent (demo_args (Some ''key'')) empty_store = Inr (r, s1, w)
     \<and> run_steps demo_step [Clock 7, Tick] (fresh_gateway r s1) = Some (xs, g') \<and> gateway_ok g' \<and> gw_checks g' = probed (rl_table r)"
proof -
  let ?s = "start demo_env (\<lambda>p. Some ''new'') NotPresent (demo_args (Some ''key'')) empty_store"
  have "\<not> isl ?s" by code_simp
  then obtain r s1 w where st: "?s = Inr (r, s1, w)" by (cases ?s) auto
  have ok: "store_ok empty_store" "list_all clock_allowed [Clock 7, Tick :: ((string \<times> string) list, unit) event]" by code_simp+
  obtain xs g' where g: "run_steps demo_step [Clock 7, Tick] (fresh_gateway r s1) = Some (xs, g')" "gw_checks g' = probed (rl_table r)"
    by (simp add: gw_tick_def gw_clock_def fresh_gateway_def)
  from started_gateway_sound [OF st ok g(1)] show ?thesis using st g by blast
qed

section \<open>An open circuit\<close>

text \<open>What an open circuit needs to stay open: nothing but that its name stays, that its cooldown is not
  over, and that neither a health check nor a probe finds the upstream well.\<close>

lemma cut_off_step:
  assumes "circuits N n = Some c" and "phase c = Tripped t0"
    and "\<And>i. e = Finish i Praised \<Longrightarrow> flights N ! i \<noteq> (Some n, Probe)"
    and "time N - t0 < cooldown c" and "net_step e N = Some (x, N')"
    and "\<And>i. e = Report i True \<Longrightarrow> checks N ! i \<noteq> Some n"
  shows "circuits N' n = Some c' \<Longrightarrow> phase c' = Tripped t0"
    and "e = Arrive (Some (n, bad)) \<Longrightarrow> x = Refused"
proof -
  have settled: "phase (spec_settle v a now c) = Tripped t0" if "a = Normal \<or> v \<noteq> Praised" for v a now
    using that assms(2) by (cases v; cases a) simp_all
  have checked: "phase (spec_check False now c) = Tripped t0" for now using assms(2) by simp
  have refused: "spec_acquire (time N) c = (None, c)" using assms(2,4) by simp
  show "circuits N' n = Some c' \<Longrightarrow> phase c' = Tripped t0"
  proof (cases e)
    case (Arrive target)
    then show "circuits N' n = Some c' \<Longrightarrow> phase c' = Tripped t0"
      using assms(1,2,5) refused
      by (auto simp: net_arrive_def simp del: spec_acquire.simps spec_release.simps split: option.splits prod.splits if_splits)
  next
    case (Finish i v)
    then obtain m a where f: "i < length (flights N)" "flights N ! i = (m, a)"
      using assms(5) by (cases "flights N ! i") (auto split: if_splits)
    have "m = Some n \<Longrightarrow> a = Normal \<or> v \<noteq> Praised" using f assms(3) [of i] Finish by (cases a) auto
    then show "circuits N' n = Some c' \<Longrightarrow> phase c' = Tripped t0" using Finish f assms(1,2,5) settled
      by (auto simp: on_circuit_def simp del: spec_settle.simps split: option.splits if_splits)
  next
    case (Report i healthy)
    then show "circuits N' n = Some c' \<Longrightarrow> phase c' = Tripped t0" using assms(1,2,5,6) checked
      by (cases healthy) (auto simp: on_circuit_def simp del: spec_check.simps split: option.splits if_splits)
  next
    case (Retune T)
    then show "circuits N' n = Some c' \<Longrightarrow> phase c' = Tripped t0" using assms(1,2,5)
      by (auto simp: retuned_def)
  qed (use assms(1,2,5) in \<open>auto split: if_splits\<close>)
  show "e = Arrive (Some (n, bad)) \<Longrightarrow> x = Refused"
    using assms(1,5) refused by (auto simp: net_arrive_def simp del: spec_acquire.simps)
qed

definition outage_goes_on :: "string \<Rightarrow> nat \<Rightarrow> ('h, 'b) event \<Rightarrow> ('h, 'k) gateway \<Rightarrow> bool" where
  "outage_goes_on n t0 e g \<longleftrightarrow>
     (case circuits (gateway_view g) n of None \<Rightarrow> False | Some c \<Rightarrow> time (gateway_view g) - t0 < cooldown c)
     \<and> (case e of
           Checked i status \<Rightarrow> is_healthy status \<longrightarrow> checks (gateway_view g) ! i \<noteq> Some n
         | Outcome i hs (Some (Client_response rs)) later \<Rightarrow>
             \<not> gateway_error (rs_status rs) \<longrightarrow> flights (gateway_view g) ! i \<noteq> (Some n, Probe)
         | _ \<Rightarrow> True)"

lemma label_Report: "gateway_label H U ready E g e = Report i b \<Longrightarrow> \<exists>status. e = Checked i status \<and> b = is_healthy status"
  by (cases e) (auto simp: Let_def split: prod.splits if_splits)

lemma label_Praised:
  assumes "gateway_label H U ready E g e = Finish i Praised" and "gateway_step H U ready E e g = Some y"
  shows "\<exists>hs rs later. e = Outcome i hs (Some (Client_response rs)) later \<and> \<not> gateway_error (rs_status rs)"
  using assms
  by (cases e)
     (auto simp: Let_def gw_outcome_def select_def verdict_of_def
        split: prod.splits if_splits option.splits client_result.splits)

lemma outage_run:
  assumes "gateway_ok g" and "list_all clock_allowed es" and "run_steps (gateway_step H U ready E) es g = Some (xs, g')"
    and "throughout (outage_goes_on n t0) (gateway_step H U ready E) es g"
    and "\<And>c. circuits (gateway_view g) n = Some c \<Longrightarrow> phase c = Tripped t0"
  shows "list_all2 (\<lambda>l x. (\<exists>bad. l = Arrive (Some (n, bad))) \<longrightarrow> x = Refused)
    (labels (gateway_step H U ready E) (gateway_label H U ready E) es g) (map2 gateway_see es xs)"
  using assms
proof (induction es arbitrary: g xs)
  case (Cons e es)
  let ?l = "gateway_label H U ready E g e"
  obtain x g1 ys where st: "gateway_step H U ready E e g = Some (x, g1)" "run_steps (gateway_step H U ready E) es g1 = Some (ys, g')"
    "xs = x # ys" using Cons.prems(3) by (rule run_steps_ConsE)
  have e: "clock_allowed e" "outage_goes_on n t0 e g" using Cons.prems(2,4) by simp_all
  obtain c where c: "circuits (gateway_view g) n = Some c" "time (gateway_view g) - t0 < cooldown c"
    using e(2) by (auto simp: outage_goes_on_def split: option.splits)
  have report: "checks (gateway_view g) ! i \<noteq> Some n" if "?l = Report i True" for i
    using label_Report [OF that] e(2) by (auto simp: outage_goes_on_def)
  have praise: "flights (gateway_view g) ! i \<noteq> (Some n, Probe)" if "?l = Finish i Praised" for i
    using label_Praised [OF that st(1)] e(2) by (auto simp: outage_goes_on_def)
  note step = gw.step_view [OF Cons.prems(1) e(1) st(1)]
  note next_one = cut_off_step [OF c(1) Cons.prems(5) [OF c(1)] praise c(2) step report]
  have "list_all2 (\<lambda>l x. (\<exists>bad. l = Arrive (Some (n, bad))) \<longrightarrow> x = Refused)
    (labels (gateway_step H U ready E) (gateway_label H U ready E) es g1) (map2 gateway_see es ys)"
    using Cons.IH [OF gw.step_good [OF Cons.prems(1) e(1) st(1)] _ st(2) _ next_one(1)] Cons.prems(2,4) st(1) by simp
  then show ?case using st(1,3) next_one(2) by auto
qed simp

text \<open>C12. An open circuit outlasts everything but its cooldown and a good answer. As long as its name
  stays configured, less than the cooldown then in force has passed since it opened, and neither a health
  check nor a request that was admitted as its probe is answered well, every request to it is refused with
  503 by the proxy, although the configuration is reloaded meanwhile, ordinary requests admitted before it
  opened report success, earlier probes fail or are handed back, clients vanish and other upstreams are
  served. (A late good answer to a probe does shut it: the condition excludes that. The events are those of
  theory \<open>Gateway\<close>, each of which runs without interruption.)\<close>

theorem open_circuit_outlasts_reloads:
  assumes "gateway_ok g" and "list_all clock_allowed es" and "run_steps (gateway_step H U ready E) es g = Some (xs, g')"
    and "circuits (gateway_view g) n = Some c" and "phase c = Tripped t0"
    and "throughout (outage_goes_on n t0) (gateway_step H U ready E) es g"
  shows "list_all2 (\<lambda>l x. (\<exists>bad. l = Arrive (Some (n, bad))) \<longrightarrow> x = Refused)
    (labels (gateway_step H U ready E) (gateway_label H U ready E) es g) (map2 gateway_see es xs)"
  by (rule outage_run [OF assms(1-3,6)]) (use assms(4,5) in auto)

text \<open>A gateway whose circuit is open, with an ordinary request and a probe underway that were admitted
  before, and a new configuration that changes the cooldown from half a minute to a minute.\<close>

definition outage_env :: "string reload_env" where
  "outage_env = demo_env\<lparr>e_parse_toml := (\<lambda>_. Some (default_config [sample_toml ''/api'' (Some 60)]))\<rparr>"

abbreviation outage_step where
  "outage_step \<equiv> gateway_step list_headers split_uris (\<lambda>d n. d \<le> n) outage_env ::
     ((string \<times> string) list, unit) event \<Rightarrow> _"

abbreviation outage_label where
  "outage_label \<equiv> gateway_label list_headers split_uris (\<lambda>d n. d \<le> n) outage_env ::
     _ \<Rightarrow> ((string \<times> string) list, unit) event \<Rightarrow> _"

definition opened_gateway :: "((string \<times> string) list, string) gateway" where
  "opened_gateway =
     \<lparr>gw_reloader = reloader_new outage_env (\<lambda>_. None) (Some ''c.toml'') demo_table None,
      gw_proxy = demo_state open_breaker 20,
      gw_flights = map (\<lambda>a. \<lparr>fl_table = demo_table, fl_id = None, fl_log = None,
        fl_forward = \<lparr>fw_request = demo_request ''GET'' ''/x'' [] True, fw_upstream = demo_upstream, fw_admission = a,
          fw_route = ''/api'', fw_counts_timeout = True, fw_body = None\<rparr>\<rparr>) [Normal, Probe],
      gw_checks = []\<rparr>"

definition outage_events :: "((string \<times> string) list, unit) event list" where
  "outage_events = [Touched False (\<lambda>_. Some ''new'') (\<lambda>_. None), answered_with 200, answered_with 503, Clock 40000, asked]"

theorem open_circuit_outlasts_reloads_witness:
  "\<exists>xs g'. run_steps outage_step outage_events opened_gateway = Some (xs, g')
     \<and> labels outage_step outage_label outage_events opened_gateway ! 4 = Arrive (Some (''a:81'', False))
     \<and> map2 gateway_see outage_events xs ! 4 = Refused"
proof -
  let ?r = "run_steps outage_step outage_events opened_gateway"
  let ?c = "\<lparr>phase = Tripped 5, rearmed = None, threshold = 3, cooldown = 30000\<rparr>"
  let ?ls = "labels outage_step outage_label outage_events opened_gateway"
  have "map_option (length \<circ> fst) ?r = Some 5" by code_simp
  then obtain xs g' where r: "?r = Some (xs, g')" by auto
  have ok: "gateway_ok opened_gateway" by code_simp
  have cl: "list_all clock_allowed outage_events" by code_simp
  have c: "circuits (gateway_view opened_gateway) ''a:81'' = Some ?c" by code_simp
  have o: "throughout (outage_goes_on ''a:81'' 5) outage_step outage_events opened_gateway" by code_simp
  have l: "length ?ls = 5 \<and> (case ?ls ! 4 of Arrive t \<Rightarrow> t = Some (''a:81'', False) | _ \<Rightarrow> False)" by code_simp
  then have l2: "?ls ! 4 = Arrive (Some (''a:81'', False))" by (auto split: net_event.splits)
  note t = open_circuit_outlasts_reloads [OF ok cl r c _ o]
  have "(\<exists>bad. ?ls ! 4 = Arrive (Some (''a:81'', bad))) \<longrightarrow> map2 gateway_see outage_events xs ! 4 = Refused"
    by (rule list_all2_nthD [OF t]) (use l in simp_all)
  then show ?thesis using r l2 by auto
qed

section \<open>Recovery\<close>

text \<open>A probe underway: the circuit is probing, and the request at a place in the list reports to it.\<close>

definition probing :: "string \<Rightarrow> nat \<Rightarrow> net \<Rightarrow> bool" where
  "probing n i N \<longleftrightarrow>
     (case circuits N n of Some c \<Rightarrow> (case phase c of Probing t \<Rightarrow> True | _ \<Rightarrow> False) | None \<Rightarrow> False)
     \<and> i < length (flights N) \<and> flights N ! i = (Some n, Probe)"

lemma probing_time: "probing n i (N\<lparr>time := now\<rparr>) \<longleftrightarrow> probing n i N"
  by (simp add: probing_def)

lemma probing_acquire:
  "phase c = Probing t \<Longrightarrow> \<exists>t. phase (snd (spec_acquire now c)) = Probing t"
  "phase c = Probing t \<Longrightarrow> \<exists>t. phase (spec_release a now (snd (spec_acquire now c))) = Probing t"
  by auto

lemma probing_arrive:
  assumes "probing n i N" and "net_arrive target N = Some (x, N')"
  shows "probing n i N'"
proof -
  obtain c t where c: "circuits N n = Some c" "phase c = Probing t" and f: "i < length (flights N)" "flights N ! i = (Some n, Probe)"
    using assms(1) by (auto simp: probing_def split: option.splits phase.splits)
  note p = probing_acquire [OF c(2)]
  show ?thesis
  proof (cases target)
    case (Some nb)
    obtain m bad where m: "nb = (m, bad)" by fastforce
    obtain d a d' where d: "circuits N m = Some d" "spec_acquire (time N) d = (a, d')"
      using assms(2) Some m by (cases "circuits N m"; cases "spec_acquire (time N) (the (circuits N m))")
        (auto simp: net_arrive_def simp del: spec_acquire.simps)
    have "\<exists>t. phase d' = Probing t" "\<exists>t. phase (spec_release b (time N) d') = Probing t" if "m = n" for b
      using p(1) [of "time N"] p(2) [of b "time N"] c(1) d that by (simp_all del: spec_acquire.simps spec_release.simps)
    moreover obtain e fs where "circuits N' = (circuits N)(m \<mapsto> e)" "flights N' = flights N @ fs"
      "e = d' \<or> (\<exists>b. e = spec_release b (time N) d')"
      using assms(2) Some m d
      by (cases a; cases bad) (auto simp: net_arrive_def simp del: spec_acquire.simps spec_release.simps, blast)
    ultimately have "m = n \<Longrightarrow> \<exists>t. phase e = Probing t" "circuits N' = (circuits N)(m \<mapsto> e)" "flights N' = flights N @ fs"
      by blast+
    then show ?thesis using c f by (cases "m = n") (auto simp: probing_def nth_append)
  qed (use assms in \<open>simp add: net_arrive_def\<close>)
qed

text \<open>Other clients ask, and time passes.\<close>

fun others_ask :: "('h, 'b) event \<Rightarrow> bool" where
  "others_ask (Clock c) \<longleftrightarrow> c \<noteq> u64_max"
| "others_ask (Request peer proto rnd rq now) \<longleftrightarrow> True"
| "others_ask e \<longleftrightarrow> False"

lemma others_step:
  assumes "gateway_ok g" and "others_ask e"
  shows "\<exists>x g'. gateway_step H U ready E e g = Some (x, g') \<and> gateway_ok g'
    \<and> (probing n i (gateway_view g) \<longrightarrow> probing n i (gateway_view g'))"
proof -
  have a: "clock_allowed e" using assms(2) by (cases e) simp_all
  obtain x g' where st: "gateway_step H U ready E e g = Some (x, g')" using assms(2) by (cases e) (auto, metis surj_pair)
  have "probing n i (gateway_view g')" if "probing n i (gateway_view g)"
    using gw.step_view [OF assms(1) a st] assms(2) that probing_arrive [OF that]
    by (cases e) (auto dest: arg_cong [of _ _ "probing n i"] simp: probing_time)
  then show ?thesis using st gw.step_good [OF assms(1) a st] by blast
qed

lemma others_run:
  assumes "gateway_ok g" and "list_all others_ask es"
  shows "\<exists>xs g'. run_steps (gateway_step H U ready E) es g = Some (xs, g') \<and> gateway_ok g'
    \<and> (probing n i (gateway_view g) \<longrightarrow> probing n i (gateway_view g'))"
  using assms
proof (induction es arbitrary: g)
  case (Cons e es)
  obtain x g1 where st: "gateway_step H U ready E e g = Some (x, g1)" "gateway_ok g1"
    "probing n i (gateway_view g) \<longrightarrow> probing n i (gateway_view g1)"
    using others_step [OF Cons.prems(1), of e H U ready E n i] Cons.prems(2) by (simp del: gateway_step.simps) blast
  with Cons.IH [of g1] Cons.prems(2) show ?case by (auto simp del: gateway_step.simps)
qed simp

text \<open>The probe of an open circuit whose cooldown is over.\<close>

lemma probe_starts:
  assumes "gateway_ok g" and "circuits (gateway_view g) n = Some c" and "phase c = Tripped t0"
    and "cooldown c \<le> time (gateway_view g) - t0" and "gateway_label H U ready E g q = Arrive (Some (n, False))"
  shows "\<exists>g1. gateway_step H U ready E q g = Some (None, g1) \<and> gateway_ok g1
    \<and> probing n (length (gw_flights g)) (gateway_view g1)"
proof -
  obtain peer proto rnd rq now where q: "q = Request peer proto rnd rq now"
    using assms(5) by (cases q) (auto simp: Let_def split: prod.splits if_splits)
  obtain x g1 where st: "gateway_step H U ready E q g = Some (x, g1)" using q by (simp, metis surj_pair)
  have a: "clock_allowed q" using q by simp
  let ?c = "c\<lparr>phase := Probing (time (gateway_view g))\<rparr>"
  have "net_arrive (Some (n, False)) (gateway_view g) = Some (Admitted, (gateway_view g)\<lparr>
      circuits := (circuits (gateway_view g))(n \<mapsto> ?c), flights := flights (gateway_view g) @ [(Some n, Probe)]\<rparr>)"
    using assms(2-4) by (simp add: net_arrive_def)
  then have "gateway_see q x = Admitted" and v: "gateway_view g1 = (gateway_view g)\<lparr>
      circuits := (circuits (gateway_view g))(n \<mapsto> ?c), flights := flights (gateway_view g) @ [(Some n, Probe)]\<rparr>"
    using gw.step_view [OF assms(1) a st] assms(5) by (simp_all del: gateway_label.simps gateway_see.simps)
  then have "x = None" using q by (simp split: option.splits if_splits)
  moreover have "length (gw_flights g) = length (flights (gateway_view g))" by (simp add: gateway_view_def)
  then have "probing n (length (gw_flights g)) (gateway_view g1)" by (simp add: v probing_def nth_append)
  ultimately show ?thesis using st gw.step_good [OF assms(1) a st] by blast
qed

text \<open>A good answer to it.\<close>

lemma probe_succeeds:
  assumes "gateway_ok g" and "probing n i (gateway_view g)" and "\<not> gateway_error (rs_status rs)"
  shows "\<exists>x g'. gateway_step H U ready E (Outcome i hs (Some (Client_response rs)) later) g = Some (x, g') \<and> gateway_ok g'
    \<and> (\<exists>c. circuits (gateway_view g') n = Some c \<and> phase c = Shut 0)"
proof -
  let ?e = "Outcome i hs (Some (Client_response rs)) later" and ?N = "gateway_view g"
  obtain c t where c: "circuits ?N n = Some c" "phase c = Probing t" "i < length (flights ?N)" "flights ?N ! i = (Some n, Probe)"
    using assms(2) by (auto simp: probing_def split: option.splits phase.splits)
  have i: "i < length (gw_flights g)" using c(3) by (simp add: gateway_view_def)
  obtain tm st where a: "await ready hs (fw_body (fl_forward (gw_flights g ! i))) = (tm, st)" by fastforce
  have sel: "select (Some (Client_response rs)) tm = Some (Some (Client_response rs))" by (simp add: select_def)
  then have "gw_outcome H ready i hs (Some (Client_response rs)) later g \<noteq> None"
    using i a by (auto simp: gw_outcome_def Let_def split: prod.split)
  then obtain x g' where s: "gateway_step H U ready E ?e g = Some (x, g')" by auto
  have l: "gateway_label H U ready E g ?e = Finish i Praised"
    using a sel assms(3) by (simp add: Let_def verdict_of_def)
  have al: "clock_allowed ?e" by simp
  have "circuits (gateway_view g') = on_circuit (Some n) (spec_success Probe) (circuits ?N)"
    using gw.step_view [OF assms(1) al s, unfolded l] c(3,4) by (auto dest: arg_cong [of _ _ circuits] simp: Let_def)
  then have "\<exists>c. circuits (gateway_view g') n = Some c \<and> phase c = Shut 0" using c(1,2) by (simp add: on_circuit_def)
  then show ?thesis using s gw.step_good [OF assms(1) al s] by blast
qed

text \<open>C14. An upstream that is well again is served again. Once the cooldown of an open circuit is over, the next request to it
  is forwarded as a probe, and if it is answered with anything but a gateway error the circuit is shut with no
  failure counted, however many requests arrive meanwhile and however long the answer takes. (Each event runs without interruption.)\<close>

theorem probe_recovers:
  assumes "gateway_ok g" and "circuits (gateway_view g) n = Some c" and "phase c = Tripped t0"
    and "cooldown c \<le> time (gateway_view g) - t0" and "gateway_label H U ready E g q = Arrive (Some (n, False))"
    and "list_all others_ask es" and "\<not> gateway_error (rs_status rs)"
  shows "\<exists>xs g' c'. run_steps (gateway_step H U ready E)
      (q # es @ [Outcome (length (gw_flights g)) hs (Some (Client_response rs)) later]) g = Some (None # xs, g')
    \<and> circuits (gateway_view g') n = Some c' \<and> phase c' = Shut 0"
proof -
  let ?i = "length (gw_flights g)"
  obtain g1 where 1: "gateway_step H U ready E q g = Some (None, g1)" "gateway_ok g1" "probing n ?i (gateway_view g1)"
    using probe_starts [OF assms(1-5)] by blast
  obtain xs g2 where 2: "run_steps (gateway_step H U ready E) es g1 = Some (xs, g2)" "gateway_ok g2" "probing n ?i (gateway_view g2)"
    using others_run [OF 1(2) assms(6), of H U ready E n ?i] 1(3) by blast
  obtain x g' where 3: "gateway_step H U ready E (Outcome ?i hs (Some (Client_response rs)) later) g2 = Some (x, g')"
    "\<exists>c. circuits (gateway_view g') n = Some c \<and> phase c = Shut 0"
    using probe_succeeds [OF 2(2,3) assms(7)] by blast
  show ?thesis using 1(1) 2(1) 3 by (simp add: run_steps_append del: gateway_step.simps)
qed

definition late_gateway :: "((string \<times> string) list, string) gateway" where
  "late_gateway = demo_gateway\<lparr>gw_proxy := demo_state open_breaker 40000\<rparr>"

theorem probe_recovers_witness:
  "\<exists>xs g' c'. run_steps demo_step [asked, Clock 41000, asked, answered_with 204] late_gateway = Some (None # xs, g')
     \<and> circuits (gateway_view g') ''a:81'' = Some c' \<and> phase c' = Shut 0"
proof -
  let ?c = "\<lparr>phase = Tripped 5, rearmed = None, threshold = 3, cooldown = 30000\<rparr>"
  have ok: "gateway_ok late_gateway" by code_simp
  have c: "circuits (gateway_view late_gateway) ''a:81'' = Some ?c" by code_simp
  have t: "time (gateway_view late_gateway) = 40000" by code_simp
  have "(case demo_label late_gateway asked of Arrive t \<Rightarrow> t = Some (''a:81'', False) | _ \<Rightarrow> False)" by code_simp
  then have l: "demo_label late_gateway asked = Arrive (Some (''a:81'', False))" by (auto split: net_event.splits)
  have o: "list_all others_ask [Clock 41000, asked]" by (simp add: asked_def)
  have f: "length (gw_flights late_gateway) = 0" by (simp add: late_gateway_def demo_gateway_def)
  have p: "phase ?c = Tripped 5" "cooldown ?c \<le> time (gateway_view late_gateway) - 5" by (simp_all add: t)
  have "\<not> gateway_error (rs_status \<lparr>rs_status = 204, rs_headers = [], rs_body = Streamed ()\<rparr>)" by (simp add: gateway_error_def)
  from probe_recovers [OF ok c p l o this, where hs = "[]" and later = 1000000] show ?thesis
    unfolding f by (simp add: answered_with_def del: run_steps.simps)
qed

end
