(* ===== verification/Breaker_Conc.thy ===== *)
theory Breaker_Conc
  imports Breaker_Spec
begin

text \<open>
  Threads that call the operations of one shared breaker, interleaved at every atomic action, with
  a clock that moves between them. Two kinds of facts are proved: guarantees, which every atomic
  action of an operation gives whatever memory the other threads leave behind, and the rate of
  probes, for any number of concurrent callers of \<open>try_acquire\<close>.
\<close>

section \<open>The interleaved system\<close>

text \<open>
  \<open>returned\<close> lists the calls that have returned, latest first. \<open>advances\<close> and \<open>held\<close> are history:
  how many actions have moved \<open>opened_at_millis\<close>, and which running calls have done so.
\<close>

record sys =
  shm :: memory
  threads :: "nat \<Rightarrow> (breaker_op \<times> admission option prog) option"
  returned :: "(breaker_op \<times> admission option) list"
  advances :: nat
  held :: "nat set"

definition moved :: "memory \<Rightarrow> memory \<Rightarrow> bool" where
  "moved m m' \<longleftrightarrow> b_opened_at_millis (brk m) \<noteq> b_opened_at_millis (brk m')"

datatype label = Invoke nat breaker_op | Action nat breaker_op | Return nat breaker_op | Tick

text \<open>\<open>A\<close> says which operations the threads may call.\<close>

inductive conc_step :: "(breaker_op \<Rightarrow> bool) \<Rightarrow> sys \<Rightarrow> label \<Rightarrow> sys \<Rightarrow> bool" for A where
  invoke: "threads s i = None \<Longrightarrow> A op \<Longrightarrow>
     conc_step A s (Invoke i op) (s\<lparr>threads := (threads s)(i \<mapsto> (op, op_prog op))\<rparr>)"
| action: "threads s i = Some (op, Act g) \<Longrightarrow> g (shm s) = (m, p) \<Longrightarrow>
     conc_step A s (Action i op)
       (s\<lparr>shm := m, threads := (threads s)(i \<mapsto> (op, p)),
          advances := (if moved (shm s) m then Suc (advances s) else advances s),
          held := (if moved (shm s) m then insert i (held s) else held s)\<rparr>)"
| return: "threads s i = Some (op, Ret r) \<Longrightarrow>
     conc_step A s (Return i op)
       (s\<lparr>threads := (threads s)(i := None), returned := (op, r) # returned s,
          held := held s - {i}\<rparr>)"
| tick: "clock (shm s) < t \<Longrightarrow> conc_step A s Tick (s\<lparr>shm := (shm s)\<lparr>clock := t\<rparr>\<rparr>)"

inductive reach :: "(breaker_op \<Rightarrow> bool) \<Rightarrow> sys \<Rightarrow> sys \<Rightarrow> bool" for A s0 where
  start: "reach A s0 s0"
| step: "reach A s0 s \<Longrightarrow> conc_step A s l s' \<Longrightarrow> reach A s0 s'"

text \<open>A shared breaker that no thread is using.\<close>

definition idle :: "memory \<Rightarrow> sys" where
  "idle m = \<lparr>shm = m, threads = (\<lambda>_. None), returned = [], advances = 0, held = {}\<rparr>"

inductive_cases actionE: "conc_step A s (Action i op) s'"

section \<open>Guarantees\<close>

text \<open>\<open>guar I R p\<close>: every action of \<open>p\<close>, from every memory in \<open>I\<close>, stays in \<open>I\<close> and is in \<open>R\<close>.\<close>

inductive guar :: "(memory \<Rightarrow> bool) \<Rightarrow> (memory \<Rightarrow> memory \<Rightarrow> bool) \<Rightarrow> 'a prog \<Rightarrow> bool" for I R where
  guar_Ret: "guar I R (Ret x)"
| guar_Act: "(\<And>m. I m \<Longrightarrow> R m (fst (g m)) \<and> I (fst (g m)) \<and> guar I R (snd (g m)))
     \<Longrightarrow> guar I R (Act g)"

inductive_simps guar_simps [simp]: "guar I R (Ret x)" "guar I R (Act g)"

lemma guar_bindp:
  assumes "guar I R p" and "\<And>x. guar I R (f x)"
  shows "guar I R (bindp p f)"
  using assms by (induction p) (simp_all add: bindp_Act)

text \<open>What the operations promise one another: an invariant of the memory and, for each operation,
  a relation its actions stay in. Then every action of a reachable system is in its relation.\<close>

locale guarantee =
  fixes A :: "breaker_op \<Rightarrow> bool"
    and I :: "memory \<Rightarrow> bool"
    and R :: "breaker_op \<Rightarrow> memory \<Rightarrow> memory \<Rightarrow> bool"
  assumes op_guar: "A op \<Longrightarrow> guar I (R op) (op_prog op)"
    and inv_tick: "I m \<Longrightarrow> I (m\<lparr>clock := t\<rparr>)"
begin

lemma reach_guar:
  assumes "reach A (idle m0) s" and "I m0"
  shows "I (shm s) \<and> (\<forall>i op p. threads s i = Some (op, p) \<longrightarrow> guar I (R op) p)"
  using assms(1)
proof (induction rule: reach.induct)
  case start
  then show ?case using assms(2) by (simp add: idle_def)
next
  case (step s l s')
  from step(2,3) show ?case
  proof (cases rule: conc_step.cases)
    case (action i op g m p)
    then show ?thesis using step.IH by (auto split: if_splits) (metis fst_conv guar_simps(2) snd_conv)+
  qed (auto simp: op_guar inv_tick split: if_splits)
qed

lemma action_in_relation:
  assumes "reach A (idle m0) s" and "I m0" and "conc_step A s (Action i op) s'"
  shows "R op (shm s) (shm s') \<and> I (shm s')"
  using assms(3) reach_guar [OF assms(1,2)]
  by (auto elim!: actionE) (metis fst_conv guar_simps(2))+

end

section \<open>State transitions\<close>

definition state_ok :: "memory \<Rightarrow> bool" where
  "state_ok m \<longleftrightarrow> b_state (brk m) \<in> {0, 1, 2}"

text \<open>The edges of the circuit's state machine.\<close>

definition edge :: "circuit_state \<Rightarrow> circuit_state \<Rightarrow> bool" where
  "edge s t \<longleftrightarrow> s = t \<or> t = Closed \<or> (s, t) \<in> {(Closed, Open), (Open, HalfOpen), (HalfOpen, Open)}"

fun uses_probe :: "breaker_op \<Rightarrow> bool" where
  "uses_probe (RecordSuccess a) = (a = Probe)"
| "uses_probe (RecordFailure a) = (a = Probe)"
| "uses_probe TryAcquire = True"
| "uses_probe _ = False"

definition state_guar :: "breaker_op \<Rightarrow> memory \<Rightarrow> memory \<Rightarrow> bool" where
  "state_guar op m m' \<longleftrightarrow>
     edge (cstate m) (cstate m')
     \<and> (cstate m \<noteq> Closed \<and> \<not> uses_probe op \<longrightarrow> cstate m' = cstate m)
     \<and> (cstate m \<noteq> Closed \<and> cstate m' = Closed \<longrightarrow> op = RecordSuccess Probe)"

lemmas conc_defs = action_defs bindp_Act state_ok_def state_guar_def edge_def

lemma guar_set_gauges: "guar state_ok (state_guar op) set_gauges"
  by (auto simp: set_gauges_def state_of_def conc_defs split: option.splits bool.splits)

lemma guar_log_transition: "guar state_ok (state_guar op) (log_transition s t)"
  by (simp add: log_transition_def conc_defs)

lemma guar_transition:
  assumes "edge s t" and "s \<noteq> t" and "t \<noteq> Closed" and "s \<noteq> Closed \<Longrightarrow> uses_probe op"
  shows "guar state_ok (state_guar op) (transition s t)"
proof -
  have "guar state_ok (state_guar op)
          (compare_exchange b_state b_state_update (as_u8 s) (as_u8 t))"
    using assms by (cases s; cases t) (auto simp: conc_defs)
  then show ?thesis
    by (auto simp: transition_def intro!: guar_bindp guar_log_transition guar_set_gauges)
qed

lemma guar_state_of: "guar state_ok (state_guar op) state_of"
  by (simp add: state_of_def conc_defs)

lemma guar_claim: "guar state_ok (state_guar op) claim_probe_slot"
  by (simp add: claim_probe_slot_def conc_defs)

lemma guar_plain:
  "guar state_ok (state_guar op) now_millis"
  "guar state_ok (state_guar op) (load f)"
  "guar state_ok (state_guar op) (store b_consecutive_failures_update v)"
  "guar state_ok (state_guar op) (store b_opened_at_millis_update t)"
  "guar state_ok (state_guar op) (store b_cooldown_millis_update t)"
  "guar state_ok (state_guar op) (store b_failure_threshold_update v)"
  "guar state_ok (state_guar op) (fetch_add b_consecutive_failures b_consecutive_failures_update v)"
  "guar state_ok (state_guar op) (compare_exchange b_opened_at_millis b_opened_at_millis_update t u)"
  "guar state_ok (state_guar op) (compare_exchange b_rearmed_at_millis b_rearmed_at_millis_update t u)"
  by (simp_all add: conc_defs)

lemma guar_swap_closed:
  "guar state_ok (state_guar (RecordSuccess Probe)) (swap b_state b_state_update 0)"
  by (simp add: conc_defs)

lemmas guar_intros = guar_bindp guar_state_of guar_claim guar_plain guar_log_transition
  guar_set_gauges guar_swap_closed guar_transition

lemma guar_op: "guar state_ok (state_guar op) (op_prog op)"
proof (cases op)
  case TryAcquire
  then show ?thesis
    by (auto simp: op_prog_def try_acquire_def edge_def intro!: guar_intros split: circuit_state.split)
next
  case (RecordSuccess a)
  then show ?thesis
    by (cases a) (auto simp: op_prog_def record_success_def Let_def intro!: guar_intros)
next
  case (RecordFailure a)
  then show ?thesis
    by (cases a) (auto simp: op_prog_def record_failure_def edge_def
        intro!: guar_intros split: circuit_state.split)
next
  case (Release a)
  then show ?thesis by (auto simp: op_prog_def release_def intro!: guar_intros)
next
  case (Reconfigure d t)
  then show ?thesis by (auto simp: op_prog_def reconfigure_def intro!: guar_intros)
qed

interpretation state: guarantee "\<lambda>_. True" state_ok state_guar
  by unfold_locales (simp_all add: guar_op state_ok_def)

section \<open>The rate of probes\<close>

text \<open>
  \<open>pend C T b p\<close>: run from memories with cooldown \<open>C\<close> whose clock has reached \<open>T\<close>, the program \<open>p\<close>
  moves \<open>opened_at_millis\<close> at most once (never again when \<open>b\<close>), forward by at least \<open>C\<close> and not past
  the clock, and returns a probe only if it has moved it.
\<close>

inductive pend :: "u64 \<Rightarrow> u64 \<Rightarrow> bool \<Rightarrow> admission option prog \<Rightarrow> bool" for C where
  pend_Ret: "(r = Some Probe \<Longrightarrow> b) \<Longrightarrow> pend C T b (Ret r)"
| pend_Act: "(\<And>m. b_cooldown_millis (brk m) = C \<Longrightarrow> T \<le> clock m \<Longrightarrow>
       b_cooldown_millis (brk (fst (g m))) = C \<and> clock (fst (g m)) = clock m
       \<and> (moved m (fst (g m)) \<longrightarrow> \<not> b
            \<and> unat (b_opened_at_millis (brk m)) + unat C \<le> unat (b_opened_at_millis (brk (fst (g m))))
            \<and> b_opened_at_millis (brk (fst (g m))) \<le> clock m)
       \<and> pend C (clock m) (b \<or> moved m (fst (g m))) (snd (g m)))
     \<Longrightarrow> pend C T b (Act g)"

inductive_simps pend_simps: "pend C T b (Ret r)" "pend C T b (Act g)"

lemma cooldown_passed:
  assumes "\<not> saturating_sub now o' < C" and "0 < C"
  shows "unat o' + unat C \<le> unat now" and "o' \<noteq> now"
  using assms by (auto simp: word_less_nat_alt unat_saturating_sub)

definition still :: "memory \<Rightarrow> memory \<Rightarrow> bool" where
  "still m m' \<longleftrightarrow> \<not> moved m m' \<and> clock m' = clock m"

definition cooldown_is :: "u64 \<Rightarrow> memory \<Rightarrow> bool" where
  "cooldown_is C m \<longleftrightarrow> b_cooldown_millis (brk m) = C"

lemmas still_defs = still_def moved_def cooldown_is_def action_defs bindp_Act

lemma still_pend: "guar (cooldown_is C) still p \<Longrightarrow> pend C T True p"
  by (induction p arbitrary: T) (auto simp: pend_simps still_def cooldown_is_def)

lemma still_transition: "guar (cooldown_is C) still (transition s t)"
  by (auto simp: transition_def log_transition_def set_gauges_def state_of_def still_defs
           intro!: guar_bindp split: option.splits bool.splits)

lemma pend_restamp:
  assumes "0 < C" and "\<And>T. pend C T True (f True)" and "\<And>T. pend C T False (f False)"
    and late: "\<not> saturating_sub now opened_at < C" and "now \<le> T"
  shows "pend C T False
     (bindp (compare_exchange b_opened_at_millis b_opened_at_millis_update opened_at now) f)"
proof -
  have "opened_at \<noteq> now" "unat opened_at + unat C \<le> unat now"
    using cooldown_passed [OF late assms(1)] by simp_all
  then show ?thesis
    using assms(2,3,5) by (auto simp: action_defs bindp_Act pend_simps moved_def)
qed

lemma pend_claim:
  assumes "0 < C" and "\<And>T. pend C T True (f True)" and "\<And>T. pend C T False (f False)"
  shows "pend C T False (bindp claim_probe_slot f)"
  using assms
  by (auto simp: claim_probe_slot_def load_def now_millis_def bindp_Act pend_simps moved_def
           intro!: pend_restamp)

lemma pend_try_acquire: "0 < C \<Longrightarrow> pend C T False try_acquire"
  by (auto simp: try_acquire_def state_of_def action_defs bindp_Act pend_simps moved_def
           intro!: pend_claim still_pend guar_bindp still_transition split: circuit_state.split)

definition probes :: "sys \<Rightarrow> nat" where
  "probes s = length (filter (\<lambda>c. c = (TryAcquire, Some Probe)) (returned s))"

text \<open>The invariant of a system in which every thread calls \<open>try_acquire\<close>.\<close>

definition rate_inv :: "memory \<Rightarrow> u64 \<Rightarrow> sys \<Rightarrow> bool" where
  "rate_inv m0 C s \<longleftrightarrow>
     b_cooldown_millis (brk (shm s)) = C
     \<and> unat (b_opened_at_millis (brk m0)) + unat C * advances s
         \<le> unat (b_opened_at_millis (brk (shm s)))
     \<and> b_opened_at_millis (brk (shm s)) \<le> clock (shm s)
     \<and> finite (held s) \<and> probes s + card (held s) \<le> advances s
     \<and> (\<forall>i op p. threads s i = Some (op, p) \<longrightarrow> (\<exists>T \<le> clock (shm s). pend C T (i \<in> held s) p))
     \<and> (\<forall>i \<in> held s. threads s i \<noteq> None)"

lemma rate_inv_action:
  assumes "rate_inv m0 C s" and "threads s i = Some (op, Act g)" and "g (shm s) = (m, p)"
  shows "rate_inv m0 C
       (s\<lparr>shm := m, threads := (threads s)(i \<mapsto> (op, p)),
          advances := (if moved (shm s) m then Suc (advances s) else advances s),
          held := (if moved (shm s) m then insert i (held s) else held s)\<rparr>)"
proof -
  obtain T where "T \<le> clock (shm s)" "pend C T (i \<in> held s) (Act g)"
    using assms(1,2) unfolding rate_inv_def by blast
  then have g: "b_cooldown_millis (brk m) = C" "clock m = clock (shm s)"
    "moved (shm s) m \<Longrightarrow> i \<notin> held s"
    "moved (shm s) m \<Longrightarrow> unat (b_opened_at_millis (brk (shm s))) + unat C
         \<le> unat (b_opened_at_millis (brk m))"
    "moved (shm s) m \<Longrightarrow> b_opened_at_millis (brk m) \<le> clock m"
    "pend C (clock m) (i \<in> held s \<or> moved (shm s) m) p"
    using assms(1,3) by (auto simp: pend_simps rate_inv_def)
  show ?thesis
  proof (cases "moved (shm s) m")
    case True
    then show ?thesis using assms(1) g by (auto simp: rate_inv_def probes_def)
  next
    case False
    then have "b_opened_at_millis (brk m) = b_opened_at_millis (brk (shm s))" by (simp add: moved_def)
    then show ?thesis using assms(1) g False by (auto simp: rate_inv_def probes_def)
  qed
qed

lemma rate_inv_return:
  assumes "rate_inv m0 C s" and "threads s i = Some (op, Ret r)"
  shows "rate_inv m0 C
       (s\<lparr>threads := (threads s)(i := None), returned := (op, r) # returned s, held := held s - {i}\<rparr>)"
proof -
  have "r = Some Probe \<Longrightarrow> i \<in> held s"
    using assms unfolding rate_inv_def by (metis pend_simps(1))
  moreover have fin: "finite (held s)" using assms(1) by (simp add: rate_inv_def)
  moreover have "card (held s - {i}) \<le> card (held s)" using fin by (auto intro: card_mono)
  moreover have "i \<in> held s \<Longrightarrow> Suc (card (held s - {i})) = card (held s)"
    using fin by (rule card_Suc_Diff1)
  ultimately show ?thesis
    using assms by (auto simp: rate_inv_def probes_def)
qed

lemma rate_inv_reach:
  assumes "reach (\<lambda>op. op = TryAcquire) (idle m0) s"
    and "b_cooldown_millis (brk m0) = C" and "0 < C"
    and "b_opened_at_millis (brk m0) \<le> clock m0"
  shows "rate_inv m0 C s"
  using assms(1)
proof (induction rule: reach.induct)
  case start
  then show ?case using assms by (simp add: idle_def rate_inv_def probes_def)
next
  case (step s l s')
  from step(2,3) show ?case
  proof (cases rule: conc_step.cases)
    case (invoke i op)
    moreover have "pend C (clock (shm s)) False try_acquire" using assms(3) by (rule pend_try_acquire)
    moreover have "i \<notin> held s" using step.IH invoke by (auto simp: rate_inv_def)
    ultimately show ?thesis using step.IH by (auto simp: rate_inv_def op_prog_def probes_def)
  next
    case (action i op g m p)
    then show ?thesis using rate_inv_action [OF step.IH] by simp
  next
    case (return i op r)
    then show ?thesis using rate_inv_return [OF step.IH] by simp
  next
    case (tick t)
    then show ?thesis using step.IH
      by (auto simp: rate_inv_def probes_def) (meson order.trans less_imp_le)+
  qed
qed

section \<open>Runs of a given schedule\<close>

text \<open>A schedule says which thread calls what, whose turn it is, and when the clock moves; a turn of
  a thread is its next action, or its return.\<close>

datatype turn = Call nat breaker_op | Turn nat | Wait u64

fun take_turn :: "turn \<Rightarrow> sys \<Rightarrow> sys" where
  "take_turn (Call i op) s =
     (if threads s i = None then s\<lparr>threads := (threads s)(i \<mapsto> (op, op_prog op))\<rparr> else s)"
| "take_turn (Turn i) s =
     (case threads s i of
        None \<Rightarrow> s
      | Some (op, Ret r) \<Rightarrow>
          s\<lparr>threads := (threads s)(i := None), returned := (op, r) # returned s, held := held s - {i}\<rparr>
      | Some (op, Act g) \<Rightarrow>
          (let m = fst (g (shm s)); p = snd (g (shm s)) in
           s\<lparr>shm := m, threads := (threads s)(i \<mapsto> (op, p)),
             advances := (if moved (shm s) m then Suc (advances s) else advances s),
             held := (if moved (shm s) m then insert i (held s) else held s)\<rparr>))"
| "take_turn (Wait t) s = (if clock (shm s) < t then s\<lparr>shm := (shm s)\<lparr>clock := t\<rparr>\<rparr> else s)"

fun calls_in :: "(breaker_op \<Rightarrow> bool) \<Rightarrow> turn \<Rightarrow> bool" where
  "calls_in A (Call i op) = A op"
| "calls_in A _ = True"

lemma turn_step:
  assumes "threads s i = Some (op, p)"
  shows "\<exists>l. conc_step A s l (take_turn (Turn i) s)"
proof (cases p)
  case (Ret r)
  then show ?thesis using assms conc_step.return [of s i op r A] by auto
next
  case (Act g)
  obtain m q where g: "g (shm s) = (m, q)" by force
  with Act assms conc_step.action [of s i op g m q A] show ?thesis
    by (intro exI [of _ "Action i op"]) (simp add: Let_def split del: if_split)
qed

lemma reach_take_turn:
  assumes "reach A s0 s" and "calls_in A t"
  shows "reach A s0 (take_turn t s)"
proof (cases t)
  case (Turn i)
  show ?thesis
  proof (cases "threads s i")
    case None
    then show ?thesis using assms(1) Turn by simp
  next
    case (Some c)
    then obtain l where "conc_step A s l (take_turn (Turn i) s)"
      using turn_step [of s i "fst c" "snd c"] by auto
    then show ?thesis unfolding Turn using assms(1) by (rule reach.step [rotated])
  qed
qed (use assms in \<open>auto intro: reach.step conc_step.invoke conc_step.tick\<close>)

lemma reach_schedule:
  "list_all (calls_in A) ts \<Longrightarrow> reach A s0 s \<Longrightarrow> reach A s0 (fold take_turn ts s)"
  by (induction ts arbitrary: s) (auto simp: reach_take_turn)

definition open_at :: "u64 \<Rightarrow> u64 \<Rightarrow> memory" where
  "open_at c now =
     \<lparr>brk = \<lparr>b_name = None, b_gauges = False, b_state = 1, b_consecutive_failures = 1,
             b_opened_at_millis = 0, b_rearmed_at_millis = u64_max,
             b_failure_threshold = 1, b_cooldown_millis = c\<rparr>,
      clock = now, emitted = []\<rparr>"

lemma open_at_fields:
  "b_opened_at_millis (brk (open_at c now)) = 0" "b_cooldown_millis (brk (open_at c now)) = c"
  "clock (open_at c now) = now"
  by (simp_all add: open_at_def)

text \<open>One caller reads the open state and is held up; another takes the probe and never reports;
  a cooldown later the first one goes on.\<close>

definition lost_probe_schedule :: "turn list" where
  "lost_probe_schedule =
     [Call 0 TryAcquire, Turn 0]
     @ Call 1 TryAcquire # replicate 10 (Turn 1)
     @ Wait 40 # replicate 8 (Turn 0)"

lemma lost_probe_run:
  "returned (fold take_turn lost_probe_schedule (idle (open_at 10 20)))
     = [(TryAcquire, Some Normal), (TryAcquire, Some Probe)]"
  "cstate (shm (fold take_turn lost_probe_schedule (idle (open_at 10 20)))) = HalfOpen"
  by code_simp+

section \<open>Properties\<close>

text \<open>C8. In every interleaving of any calls on a shared breaker, each atomic action follows an edge
  of the circuit's state machine, a call that holds no probe ticket never moves an open or half-open
  circuit, and only a successful probe closes one.\<close>

theorem interleaved_transitions:
  assumes "reach (\<lambda>_. True) (idle m0) s" and "state_ok m0"
    and "conc_step (\<lambda>_. True) s (Action i op) s'"
  shows "edge (cstate (shm s)) (cstate (shm s'))
    \<and> (cstate (shm s) \<noteq> Closed \<and> \<not> uses_probe op \<longrightarrow> cstate (shm s') = cstate (shm s))
    \<and> (cstate (shm s) \<noteq> Closed \<and> cstate (shm s') = Closed \<longrightarrow> op = RecordSuccess Probe)"
  using state.action_in_relation [OF assms] by (simp add: state_guar_def)

definition half_open_two_callers :: sys where
  "half_open_two_callers =
     fold take_turn [Call 0 TryAcquire, Turn 0, Turn 0, Turn 0, Turn 0, Turn 0] (idle (open_at 10 20))"

theorem interleaved_transitions_witness:
  "edge (cstate (shm half_open_two_callers)) (cstate (shm (take_turn (Turn 0) half_open_two_callers)))
    \<and> cstate (shm half_open_two_callers) = Open
    \<and> cstate (shm (take_turn (Turn 0) half_open_two_callers)) = HalfOpen"
proof -
  let ?s = half_open_two_callers
  have r: "reach (\<lambda>_. True) (idle (open_at 10 20)) ?s"
    unfolding half_open_two_callers_def by (rule reach_schedule) (simp_all add: reach.start)
  have ok: "state_ok (open_at 10 20)" by (simp add: state_ok_def open_at_def)
  have "case threads ?s 0 of Some (TryAcquire, Act g) \<Rightarrow> True | _ \<Rightarrow> False" by code_simp
  then have "\<exists>g. threads ?s 0 = Some (TryAcquire, Act g)"
    by (auto split: option.splits prod.splits breaker_op.splits prog.splits)
  then obtain g where g: "threads ?s 0 = Some (TryAcquire, Act g)" ..
  have "conc_step (\<lambda>_. True) ?s (Action 0 TryAcquire) (take_turn (Turn 0) ?s)"
    using conc_step.action [OF g, of "fst (g (shm ?s))" "snd (g (shm ?s))" "\<lambda>_. True"] g
    by (simp add: Let_def split del: if_split)
  from interleaved_transitions [OF r ok this]
  have "edge (cstate (shm ?s)) (cstate (shm (take_turn (Turn 0) ?s)))" ..
  moreover have "cstate (shm ?s) = Open" by code_simp
  moreover have "cstate (shm (take_turn (Turn 0) ?s)) = HalfOpen" by code_simp
  ultimately show ?thesis by (intro conjI)
qed

text \<open>C9. Any number of callers of \<open>try_acquire\<close>, interleaved in any way, are handed at most one probe
  per cooldown: \<open>k\<close> probes need \<open>k\<close> cooldowns of clock time since the circuit was last stamped.\<close>

theorem probe_rate:
  assumes "reach (\<lambda>op. op = TryAcquire) (idle m0) s"
    and "0 < b_cooldown_millis (brk m0)" and "b_opened_at_millis (brk m0) \<le> clock m0"
  shows "unat (b_opened_at_millis (brk m0)) + unat (b_cooldown_millis (brk m0)) * probes s
           \<le> unat (clock (shm s))"
proof -
  have "rate_inv m0 (b_cooldown_millis (brk m0)) s"
    using rate_inv_reach [OF assms(1) refl assms(2,3)] .
  then have adv: "unat (b_opened_at_millis (brk m0)) + unat (b_cooldown_millis (brk m0)) * advances s
      \<le> unat (clock (shm s))" and "probes s \<le> advances s"
    by (auto simp: rate_inv_def word_le_nat_alt)
  then have "unat (b_cooldown_millis (brk m0)) * probes s
      \<le> unat (b_cooldown_millis (brk m0)) * advances s" by simp
  with adv show ?thesis by linarith
qed

theorem probe_rate_witness:
  "probes (fold take_turn lost_probe_schedule (idle (open_at 10 20))) = 1
    \<and> 0 + 10 * probes (fold take_turn lost_probe_schedule (idle (open_at 10 20)))
        \<le> unat (clock (shm (fold take_turn lost_probe_schedule (idle (open_at 10 20)))))"
proof -
  have "reach (\<lambda>op. op = TryAcquire) (idle (open_at 10 20))
      (fold take_turn lost_probe_schedule (idle (open_at 10 20)))"
    by (rule reach_schedule) (simp_all add: reach.start lost_probe_schedule_def list_all_iff)
  from probe_rate [OF this] show ?thesis
    by (simp add: open_at_fields probes_def lost_probe_run)
qed

text \<open>C15. The branch of \<open>try_acquire\<close> taken when its exchange of \<open>Open\<close> for \<open>HalfOpen\<close> fails is reached
  not only when the circuit was closed meanwhile: a caller held up after reading \<open>Open\<close> can take the
  slot of a lost probe and is admitted as an ordinary request while the circuit is half-open.\<close>

theorem normal_admitted_while_half_open:
  "\<exists>s. reach (\<lambda>op. op = TryAcquire) (idle (open_at 10 20)) s
     \<and> cstate (shm (idle (open_at 10 20))) = Open
     \<and> cstate (shm s) = HalfOpen
     \<and> returned s = [(TryAcquire, Some Normal), (TryAcquire, Some Probe)]"
proof (intro exI conjI)
  show "reach (\<lambda>op. op = TryAcquire) (idle (open_at 10 20))
      (fold take_turn lost_probe_schedule (idle (open_at 10 20)))"
    by (rule reach_schedule) (simp_all add: reach.start lost_probe_schedule_def list_all_iff)
  show "cstate (shm (idle (open_at 10 20))) = Open" by (simp add: idle_def open_at_def)
qed (rule lost_probe_run)+

end
