(* ===== verification/Addr_Roundtrip.thy ===== *)
theory Addr_Roundtrip
  imports Std_Net
begin

text \<open>
  The text of an address is read back as that address: the parser of \<open>std::net\<close> inverts its
  \<open>Display\<close>, for IPv4, IPv6 with its longest run of zeros compressed, and IPv4-mapped addresses.
\<close>

section \<open>Numbers\<close>

definition digit_of :: "int \<Rightarrow> int \<Rightarrow> bool" where
  "digit_of b d \<longleftrightarrow> 0 \<le> d \<and> d < b"

lemma to_digit_char: "digit_of b d \<Longrightarrow> b \<le> 16 \<Longrightarrow> to_digit b (digit_char d) = Some d"
  by (auto simp: digit_of_def to_digit_def digit_char_def ascii_defs byte_char_of Let_def)

function digits :: "int \<Rightarrow> int \<Rightarrow> int list" where
  "digits b n = (if b < 2 \<or> n < b then [n] else digits b (n div b) @ [n mod b])"
  by pat_completeness auto
termination
  by (relation "measure (nat \<circ> snd)") (auto simp: int_div_less_self)

declare digits.simps [simp del]

lemma show_digits: "show_radix b n = map digit_char (digits b n)"
  by (induction b n rule: digits.induct) (subst show_radix.simps, subst digits.simps, simp)

abbreviation number :: "int \<Rightarrow> int list \<Rightarrow> int \<Rightarrow> int" where
  "number b ds v \<equiv> fold (\<lambda>d a. a * b + d) ds v"

lemma digits_facts:
  assumes "2 \<le> b" and "0 \<le> n"
  shows "number b (digits b n) 0 = n" and "list_all (digit_of b) (digits b n)" and "digits b n \<noteq> []"
    and "hd (digits b n) = 0 \<Longrightarrow> digits b n = [0]" and "0 < k \<Longrightarrow> n < b ^ k \<Longrightarrow> length (digits b n) \<le> k"
proof -
  have "number b (digits b n) 0 = n \<and> list_all (digit_of b) (digits b n) \<and> digits b n \<noteq> []
    \<and> (hd (digits b n) = 0 \<longrightarrow> digits b n = [0]) \<and> (\<forall>k. 0 < k \<longrightarrow> n < b ^ k \<longrightarrow> length (digits b n) \<le> k)"
    using assms
  proof (induction b n rule: digits.induct)
    case (1 b n)
    show ?case
    proof (cases "n < b")
      case True
      then show ?thesis using 1(2,3) by (subst (1 2 3 4 5 6) digits.simps) (auto simp: digit_of_def)
    next
      case False
      then have "0 \<le> n div b" "n div b \<noteq> 0" using 1(2,3) by (auto simp: pos_imp_zdiv_nonneg_iff zdiv_eq_0_iff)
      note IH = 1(1) [OF _ 1(2) this(1)] and nz = this(2)
      have d: "digits b n = digits b (n div b) @ [n mod b]" using False 1(2) by (subst digits.simps) simp
      have ne: "digits b (n div b) \<noteq> [0]" using IH False 1(2) nz by auto
      have "length (digits b n) \<le> k" if k: "0 < k" "n < b ^ k" for k
      proof -
        obtain j where j: "k = Suc j" using k(1) by (cases k) auto
        have "n div b < b ^ j"
        proof (rule ccontr)
          assume "\<not> n div b < b ^ j"
          then have "b ^ j * b \<le> n div b * b" using 1(2) by (intro mult_right_mono) auto
          also have "\<dots> \<le> n" using div_mult_mod_eq [of n b] pos_mod_sign [of b n] 1(2) by linarith
          finally show False using k(2) by (simp add: j mult.commute)
        qed
        moreover have "0 < j" using False k(2) j by (cases j) auto
        ultimately show ?thesis using IH False 1(2) by (simp add: d j)
      qed
      then show ?thesis using IH False 1(2) ne by (simp add: d digit_of_def)
    qed
  qed
  then show "number b (digits b n) 0 = n" "list_all (digit_of b) (digits b n)" "digits b n \<noteq> []"
    "hd (digits b n) = 0 \<Longrightarrow> digits b n = [0]" "0 < k \<Longrightarrow> n < b ^ k \<Longrightarrow> length (digits b n) \<le> k" by blast+
qed

lemma number_mono: "2 \<le> b \<Longrightarrow> 0 \<le> v \<Longrightarrow> list_all (digit_of b) ds \<Longrightarrow> v \<le> number b ds v"
proof (induction ds arbitrary: v)
  case (Cons d ds)
  have "v * 1 \<le> v * b" using Cons.prems(1,2) by (intro mult_left_mono) auto
  then have "v \<le> v * b + d" "0 \<le> v * b + d" using Cons.prems by (auto simp: digit_of_def)
  then show ?case using Cons.IH [of "v * b + d"] Cons.prems by simp
qed simp

text \<open>Where a number ends.\<close>

definition ends :: "int \<Rightarrow> string \<Rightarrow> bool" where
  "ends b s \<longleftrightarrow> s = [] \<or> to_digit b (hd s) = None"

lemma read_digits_number:
  assumes "2 \<le> b" "b \<le> 16" "ends b rest" "list_all (digit_of b) ds" "0 \<le> v" "number b ds v \<le> m"
    and "case mx of Some k \<Rightarrow> n + length ds \<le> k | None \<Rightarrow> True"
  shows "read_digits b mx m v n (map digit_char ds @ rest) = Some (number b ds v, n + length ds, rest)"
  using assms(3-)
proof (induction ds arbitrary: v n)
  case Nil
  then show ?case by (cases rest) (auto simp: ends_def)
next
  case (Cons d ds)
  have d: "to_digit b (digit_char d) = Some d" using Cons.prems(2) assms(2) by (simp add: to_digit_char)
  have v: "0 \<le> v * b + d" using Cons.prems(2,3) assms(1) by (simp add: digit_of_def)
  have "v * b + d \<le> m"
    using number_mono [OF assms(1) v, of ds] Cons.prems(2,4) by simp
  then show ?case using Cons d v by (auto split: option.splits)
qed

lemma read_number_show:
  assumes "2 \<le> b" "b \<le> 16" "0 \<le> x" "x \<le> m" "ends b rest" and "case mx of Some k \<Rightarrow> 0 < k \<and> x < b ^ k | None \<Rightarrow> True"
  shows "read_number b mx z m (show_radix b x @ rest) = Some (x, rest)"
proof -
  note f = digits_facts [OF assms(1,3)]
  have "case mx of Some k \<Rightarrow> 0 + length (digits b x) \<le> k | None \<Rightarrow> True"
    using f(5) assms(6) by (auto split: option.splits)
  from read_digits_number [OF assms(1,2,5) f(2) _ _ this, of 0 m]
  have r: "read_digits b mx m 0 0 (show_radix b x @ rest) = Some (x, length (digits b x), rest)"
    using f(1) assms(4) by (simp add: show_digits)
  have "hd (show_radix b x @ rest) = digit_char (hd (digits b x))" using f(3) by (simp add: show_digits hd_map hd_append)
  moreover have "digit_char (hd (digits b x)) = CHR ''0'' \<Longrightarrow> length (digits b x) \<le> 1"
  proof -
    have "digit_of b (hd (digits b x))" using f(2,3) by (simp add: list_all_iff)
    then have "digit_char (hd (digits b x)) = CHR ''0'' \<Longrightarrow> hd (digits b x) = 0"
      using to_digit_char [of b "hd (digits b x)"] assms(1,2) by (auto simp: to_digit_def ascii_defs byte_def Let_def)
    then show "digit_char (hd (digits b x)) = CHR ''0'' \<Longrightarrow> length (digits b x) \<le> 1" using f(4) by simp
  qed
  ultimately show ?thesis using r f(3) by (auto simp: read_number_def)
qed

section \<open>Octets and groups\<close>

text \<open>The places of a number in base \<open>2 ^ k\<close>, the most significant first.\<close>

definition places :: "nat \<Rightarrow> nat \<Rightarrow> int \<Rightarrow> int list" where
  "places k n u = map (\<lambda>i. u div 2 ^ (k * (n - 1 - i)) mod 2 ^ k) [0 ..< n]"

lemma places_Suc: "places k (Suc n) u = places k n (u div 2 ^ k) @ [u mod 2 ^ k]"
proof -
  have "u div 2 ^ (k * (n - i)) = u div 2 ^ k div 2 ^ (k * (n - 1 - i))" if "i < n" for i
  proof -
    have "n - i = Suc (n - 1 - i)" using that by simp
    then have "k * (n - i) = k + k * (n - 1 - i)" by (metis mult_Suc_right)
    then show ?thesis by (simp add: power_add zdiv_zmult2_eq)
  qed
  then show ?thesis by (simp add: places_def)
qed

lemma number_places: "number (2 ^ k) (places k n u) 0 = u mod 2 ^ (k * n)"
proof (induction n arbitrary: u)
  case (Suc n)
  have "u mod 2 ^ (k * Suc n) = 2 ^ k * (u div 2 ^ k mod 2 ^ (k * n)) + u mod 2 ^ k"
    by (simp add: power_add zmod_zmult2_eq)
  then show ?case using Suc by (simp add: places_Suc mult.commute)
qed (simp add: places_def)

lemma of_octets_number: "of_octets os = of_int (number 256 os 0)"
  unfolding of_octets_def by (induction os rule: rev_induct) (simp_all add: mult.commute)

lemma of_groups_number: "of_groups gs = of_int (number 65536 gs 0)"
  unfolding of_groups_def by (induction gs rule: rev_induct) (simp_all add: mult.commute)

abbreviation octets :: "32 word \<Rightarrow> int list" where
  "octets w \<equiv> map (octet w) [0, 1, 2, 3]"

abbreviation groups :: "128 word \<Rightarrow> int list" where
  "groups w \<equiv> map (segment w) [0, 1, 2, 3, 4, 5, 6, 7]"

lemma uint_drop: "uint (drop_bit n w) = uint w div 2 ^ n" for w :: "'a :: len word"
  using take_bit_int_eq_self [OF uint_ge_0 uint_lt2p, of w] by (simp add: unsigned_drop_bit_eq flip: drop_bit_eq_div)

lemma octets_back: "of_octets (octets w) = w"
proof -
  have "octets w = places 8 4 (uint w)" by (simp add: places_def octet_def uint_drop upt_rec)
  then have "of_octets (octets w) = of_int (uint w mod 2 ^ 32)"
    using number_places [of 8 4 "uint w"] by (simp add: of_octets_number)
  moreover have "uint w mod 2 ^ 32 = uint w" using uint_lt2p [of w] by (intro mod_pos_pos_trivial) simp_all
  ultimately show ?thesis by (simp only: of_int_uint) simp
qed

lemma groups_back: "of_groups (groups w) = w"
proof -
  have "groups w = places 16 8 (uint w)" by (simp add: places_def segment_def uint_drop upt_rec)
  then have "of_groups (groups w) = of_int (uint w mod 2 ^ 128)"
    using number_places [of 16 8 "uint w"] by (simp add: of_groups_number)
  moreover have "uint w mod 2 ^ 128 = uint w" using uint_lt2p [of w] by (intro mod_pos_pos_trivial) simp_all
  ultimately show ?thesis by (simp only: of_int_uint) simp
qed

lemma octet_range: "0 \<le> octet w i" "octet w i < 256"
  by (simp_all add: octet_def)

lemma segment_range: "0 \<le> segment w i" "segment w i < 65536"
  by (simp_all add: segment_def)

section \<open>IPv4\<close>

lemma ends_dot [simp]: "ends b (dot # s)"
  by (simp add: ends_def to_digit_def ascii_defs byte_def)

lemma ends_colon [simp]: "ends b (CHR '':'' # s)"
  by (simp add: ends_def to_digit_def ascii_defs byte_def)

lemma ends_Nil [simp]: "ends b []"
  by (simp add: ends_def)

lemma read_octet:
  assumes "ends 10 rest" "0 \<le> x" "x < 256"
  shows "read_number 10 (Some 3) z 255 (show_int x @ rest) = Some (x, rest)"
  by (rule read_number_show) (use assms in auto)

lemma read_octets_step:
  assumes "ends 10 rest" "0 \<le> x" "x < 256"
  shows "read_octets 0 (Suc k) (show_int x @ rest) = map_option (\<lambda>(vs, t). (x # vs, t)) (read_octets 1 k rest)"
    and "read_octets (Suc i) (Suc k) (dot # show_int x @ rest) = map_option (\<lambda>(vs, t). (x # vs, t)) (read_octets (Suc (Suc i)) k rest)"
  using read_octet [OF assms] by (simp_all add: read_separator_def read_char_def)

lemma read_ipv4_show:
  assumes "ends 10 rest"
  shows "read_ipv4_addr (show_ipv4 w @ rest) = Some (octets w, rest)"
proof -
  have "show_ipv4 w @ rest = show_int (octet w 0) @ dot # show_int (octet w 1) @ dot # show_int (octet w 2) @ dot #
      show_int (octet w 3) @ rest" by (simp add: show_ipv4_def)
  moreover have "(4 :: nat) = Suc (Suc (Suc (Suc 0)))" by simp
  ultimately show ?thesis unfolding read_ipv4_addr_def
    by (simp only: read_octets_step One_nat_def ends_dot assms octet_range read_octets.simps(1) option.map prod.case list.map)
qed

section \<open>IPv6\<close>

text \<open>Without a dot there is no IPv4 address to read.\<close>

lemma read_digits_rest: "read_digits b mx m v n s = Some (v', n', r) \<Longrightarrow> set r \<subseteq> set s"
  by (induction b mx m v n s rule: read_digits.induct) (auto simp: Let_def split: option.splits if_splits)

lemma read_number_rest: "read_number b mx z m s = Some (v, r) \<Longrightarrow> set r \<subseteq> set s"
  by (auto simp: read_number_def split: option.splits if_splits dest: read_digits_rest [THEN subsetD])

lemma no_dot_no_ipv4:
  assumes "dot \<notin> set s"
  shows "read_ipv4_addr s = None"
proof -
  have "read_char dot r = None" if "read_number 10 (Some 3) False 255 s = Some (v, r)" for v r
    using read_number_rest [OF that] assms by (cases r) (auto simp: read_char_def)
  then have "read_octets 0 (Suc (Suc n)) s = None" for n
    by (cases "read_number 10 (Some 3) False 255 s") (auto simp: read_separator_def)
  from this [of 2] show ?thesis by (simp add: read_ipv4_addr_def)
qed

lemma hex_no_dot: "0 \<le> g \<Longrightarrow> dot \<notin> set (show_radix 16 g)"
proof
  assume g: "0 \<le> g" and "dot \<in> set (show_radix 16 g)"
  then obtain d where d: "d \<in> set (digits 16 g)" "dot = digit_char d" by (auto simp: show_digits)
  then have "to_digit 16 dot = Some d" using digits_facts(2) [of 16 g] g to_digit_char [of 16 d] by (simp add: list_all_iff)
  then show False by (simp add: to_digit_def ascii_defs byte_def)
qed

definition group16 :: "int \<Rightarrow> bool" where
  "group16 g \<longleftrightarrow> 0 \<le> g \<and> g < 65536"

lemma read_group:
  assumes "ends 16 rest" and "group16 g"
  shows "read_number 16 (Some 4) z 65535 (show_radix 16 g @ rest) = Some (g, rest)"
  by (rule read_number_show) (use assms in \<open>auto simp: group16_def\<close>)

text \<open>Groups as they stand after \<open>i\<close> others, and what may follow them.\<close>

definition group_text :: "nat \<Rightarrow> int list \<Rightarrow> string" where
  "group_text i gs = (if gs = [] then [] else (if 0 < i then '':'' else []) @ show_groups gs)"

definition stops :: "string \<Rightarrow> bool" where
  "stops s \<longleftrightarrow> dot \<notin> set s \<and> (s = [] \<or> (\<exists>t. s = ''::'' @ t))"

lemma group_text_Cons: "group_text i (g # gs) = (if 0 < i then '':'' else []) @ show_radix 16 g @ group_text (Suc i) gs"
  by (cases gs) (simp_all add: group_text_def show_groups_def)

lemma group_text_no_dot: "list_all group16 gs \<Longrightarrow> dot \<notin> set (group_text i gs)"
  by (induction gs arbitrary: i) (auto simp: group_text_Cons hex_no_dot group16_def, simp add: group_text_def)

lemma stops_facts:
  assumes "stops rest"
  shows "ends b rest" and "read_separator CHR '':'' i (read_number 16 (Some 4) z 65535) rest = None"
proof -
  have "read_number 16 (Some 4) z 65535 [] = None" by (simp add: read_number_def)
  moreover have "read_number 16 (Some 4) z 65535 (CHR '':'' # s) = None" for s
    by (simp add: read_number_def to_digit_def ascii_defs byte_def)
  ultimately show "ends b rest" "read_separator CHR '':'' i (read_number 16 (Some 4) z 65535) rest = None"
    using assms by (auto simp: stops_def read_separator_def read_char_def)
qed

lemma no_dot_separator:
  assumes "dot \<notin> set s"
  shows "read_separator CHR '':'' i read_ipv4_addr s = None"
  using assms no_dot_no_ipv4 [of s] no_dot_no_ipv4 [of "tl s"]
  by (cases s) (auto simp: read_separator_def read_char_def)

lemma read_groups_show:
  assumes "stops rest" and "list_all group16 gs" and "length gs \<le> k"
  shows "read_groups i k (group_text i gs @ rest) = (gs, False, rest)"
  using assms(2,3)
proof (induction gs arbitrary: i k)
  case Nil
  have d: "dot \<notin> set rest" using assms(1) by (simp add: stops_def)
  show ?case
    using no_dot_separator [OF d] stops_facts(2) [OF assms(1)] by (cases k) (simp_all add: group_text_def)
next
  case (Cons g gs)
  obtain k' where k: "k = Suc k'" "length gs \<le> k'" using Cons.prems(2) by (cases k) auto
  let ?r = "group_text (Suc i) gs @ rest"
  have "ends 16 ?r"
    using stops_facts(1) [OF assms(1)] by (cases gs) (simp_all add: group_text_def)
  then have n: "read_separator CHR '':'' i (read_number 16 (Some 4) True 65535) (group_text i (g # gs) @ rest) = Some (g, ?r)"
    using read_group [of ?r g] Cons.prems(1) by (auto simp: group_text_Cons read_separator_def read_char_def)
  have "dot \<notin> set (group_text i (g # gs) @ rest)"
    using group_text_no_dot [OF Cons.prems(1)] assms(1) by (simp add: stops_def)
  from no_dot_separator [OF this] show ?case
    using n Cons.IH [OF _ k(2), of "Suc i"] Cons.prems(1) k(2) by (cases k') (simp_all add: k(1))
qed

lemma group_text_0: "group_text 0 gs = show_groups gs"
  by (simp add: group_text_def show_groups_def)

text \<open>The run that \<open>Display\<close> compresses is one of zeros.\<close>

definition zeros :: "int list \<Rightarrow> nat \<times> nat \<Rightarrow> bool" where
  "zeros gs r \<longleftrightarrow> fst r + snd r \<le> length gs \<and> (\<forall>j. fst r \<le> j \<and> j < fst r + snd r \<longrightarrow> gs ! j = 0)"

lemma zeros_append: "zeros gs r \<Longrightarrow> zeros (gs @ hs) r"
  by (auto simp: zeros_def nth_append)

lemma zero_run_zeros:
  assumes "zeros pre longest" and "snd current = 0 \<or> zeros pre current \<and> fst current + snd current = length pre"
  shows "zeros (pre @ gs) (zero_run (length pre) gs longest current)"
  using assms
proof (induction gs arbitrary: pre longest current)
  case (Cons g gs)
  show ?case
  proof (cases "g = 0")
    case True
    let ?c = "(if snd current = 0 then length pre else fst current, Suc (snd current))"
    have c: "zeros (pre @ [g]) ?c \<and> fst ?c + snd ?c = length (pre @ [g])"
      using Cons.prems(2) True by (auto simp: zeros_def nth_append)
    then show ?thesis
      using Cons.IH [of "pre @ [g]" "if snd longest < snd ?c then ?c else longest" ?c] zeros_append [OF Cons.prems(1)] True
      by (simp add: Let_def)
  next
    case False
    then show ?thesis
      using Cons.IH [of "pre @ [g]" longest "(0, 0)"] zeros_append [OF Cons.prems(1)] by simp
  qed
qed simp

lemma compressed_back:
  assumes "zeros gs (st, len)" and "length gs = 8"
  shows "take st gs @ replicate (8 - length (take st gs) - length (drop (st + len) gs)) 0 @ drop (st + len) gs = gs"
proof (rule nth_equalityI)
  have l: "st + len \<le> 8" using assms by (simp add: zeros_def)
  then show "length (take st gs @ replicate (8 - length (take st gs) - length (drop (st + len) gs)) 0 @ drop (st + len) gs) = length gs"
    using assms(2) by simp
  fix i
  assume "i < length (take st gs @ replicate (8 - length (take st gs) - length (drop (st + len) gs)) 0 @ drop (st + len) gs)"
  then show "(take st gs @ replicate (8 - length (take st gs) - length (drop (st + len) gs)) 0 @ drop (st + len) gs) ! i = gs ! i"
    using assms l by (auto simp: nth_append zeros_def)
qed

lemma read_ipv6_groups:
  assumes "list_all group16 gs" and "length gs = 8"
  shows "read_ipv6_addr (show_groups gs) = Some (of_groups gs, [])"
    and "zeros gs (st, len) \<Longrightarrow> 1 < len \<Longrightarrow>
      read_ipv6_addr (show_groups (take st gs) @ ''::'' @ show_groups (drop (st + len) gs)) = Some (of_groups gs, [])"
proof -
  have e: "stops []" by (simp add: stops_def)
  show "read_ipv6_addr (show_groups gs) = Some (of_groups gs, [])"
    using read_groups_show [OF e assms(1), of 8 0] assms(2) by (simp add: read_ipv6_addr_def group_text_0)
  assume z: "zeros gs (st, len)" and len: "1 < len"
  let ?hd = "take st gs" and ?tl = "drop (st + len) gs"
  have g: "list_all group16 ?hd" "list_all group16 ?tl" using assms(1) by (auto simp: list_all_iff dest: in_set_takeD in_set_dropD)
  have l: "length ?hd = st" "length ?tl = 8 - (st + len)" "st + len \<le> 8" using z assms(2) by (auto simp: zeros_def)
  have s: "stops (''::'' @ show_groups ?tl)"
    using group_text_no_dot [OF g(2), of 0] by (simp add: stops_def group_text_0)
  have h: "read_groups 0 8 (show_groups ?hd @ ''::'' @ show_groups ?tl) = (?hd, False, ''::'' @ show_groups ?tl)"
    using read_groups_show [OF s g(1), of 8 0] l by (simp add: group_text_0)
  have t: "read_groups 0 (8 - (st + 1)) (show_groups ?tl) = (?tl, False, [])"
    using read_groups_show [OF e g(2), of "8 - (st + 1)" 0] l len by (simp add: group_text_0)
  show "read_ipv6_addr (show_groups ?hd @ ''::'' @ show_groups ?tl) = Some (of_groups gs, [])"
    unfolding read_ipv6_addr_def h using t l len compressed_back [OF z assms(2)] by (simp add: read_char_def)
qed

lemma read_colon_ipv4: "read_ipv4_addr (CHR '':'' # s) = None"
proof -
  have "read_octets 0 (Suc n) (CHR '':'' # s) = None" for n
    by (simp add: read_separator_def read_number_def to_digit_def ascii_defs byte_def)
  from this [of 3] show ?thesis by (simp add: read_ipv4_addr_def)
qed

lemma read_groups_step:
  "read_separator CHR '':'' i read_ipv4_addr s = None \<Longrightarrow> read_separator CHR '':'' i (read_number 16 (Some 4) True 65535) s = None
   \<Longrightarrow> read_groups i k s = ([], False, s)"
  "read_separator CHR '':'' i read_ipv4_addr s = None \<Longrightarrow> read_separator CHR '':'' i (read_number 16 (Some 4) True 65535) s = Some (g, r)
   \<Longrightarrow> read_groups i (Suc k) s = (let (gs, v4, t) = read_groups (Suc i) k r in (g # gs, v4, t))"
  "0 < k \<Longrightarrow> read_separator CHR '':'' i read_ipv4_addr s = Some (os, r)
   \<Longrightarrow> read_groups i (Suc k) s = ([os ! 0 * 256 + os ! 1, os ! 2 * 256 + os ! 3], True, r)"
  by (cases k; simp)+

lemma read_ipv6_mapped:
  "read_ipv6_addr (''::ffff:'' @ show_ipv4 v) =
   Some (of_groups (replicate 5 0 @ [65535, octet v 0 * 256 + octet v 1, octet v 2 * 256 + octet v 3]), [])"
proof -
  let ?s = "''ffff:'' @ show_ipv4 v" and ?t = "CHR '':'' # show_ipv4 v"
  have colon: "read_number 16 (Some 4) True 65535 (CHR '':'' # x) = None" for x
    by (simp add: read_number_def to_digit_def ascii_defs byte_def)
  have head: "read_groups 0 8 (''::'' @ ?s) = ([], False, ''::'' @ ?s)"
    by (rule read_groups_step(1)) (simp_all add: read_separator_def read_colon_ipv4 colon)
  have "show_radix 16 65535 = ''ffff''" by code_simp
  then have f: "read_number 16 (Some 4) True 65535 ?s = Some (65535, ?t)"
    using read_group [of ?t 65535 True] by (simp add: group16_def)
  have "read_octets 0 (Suc n) (CHR ''f'' # x) = None" for n x
    by (simp add: read_separator_def read_number_def to_digit_def ascii_defs byte_def)
  from this [of 3] have n: "read_ipv4_addr ?s = None" by (simp add: read_ipv4_addr_def)
  have q: "read_separator CHR '':'' 1 read_ipv4_addr ?t = Some (octets v, [])"
    using read_ipv4_show [of "[]" v] by (simp add: read_separator_def read_char_def)
  have q6: "read_groups (Suc 0) (Suc 5) ?t = ([octet v 0 * 256 + octet v 1, octet v 2 * 256 + octet v 3], True, [])"
    using read_groups_step(3) [of 5 "Suc 0" ?t "octets v" "[]"] q by simp
  have "read_groups 0 (Suc (Suc 5)) ?s = (let (gs, v4, t) = read_groups (Suc 0) (Suc 5) ?t in (65535 # gs, v4, t))"
    by (rule read_groups_step(2)) (use n f in \<open>simp_all add: read_separator_def\<close>)
  then have "read_groups 0 (Suc (Suc 5)) ?s = ([65535, octet v 0 * 256 + octet v 1, octet v 2 * 256 + octet v 3], True, [])"
    unfolding q6 by simp
  then have tail: "read_groups 0 7 ?s = ([65535, octet v 0 * 256 + octet v 1, octet v 2 * 256 + octet v 3], True, [])" by simp
  have "''::ffff:'' @ show_ipv4 v = ''::'' @ ?s" by simp
  then show ?thesis unfolding read_ipv6_addr_def head using head tail by (simp add: read_char_def)
qed

lemma mapped_back:
  assumes "to_ipv4_mapped w = Some v"
  shows "of_groups (replicate 5 0 @ [65535, octet v 0 * 256 + octet v 1, octet v 2 * 256 + octet v 3]) = w"
proof -
  have v: "drop_bit 32 w = 0xFFFF" "v = ucast w" using assms by (auto simp: to_ipv4_mapped_def split: if_splits)
  have a: "uint w div 2 ^ 32 = 65535" using arg_cong [OF v(1), of uint] by (simp add: uint_drop)
  have b: "uint w mod 2 ^ 32 = uint v" by (simp add: v(2) unsigned_ucast_eq take_bit_eq_mod)
  have u: "65535 * 2 ^ 32 + uint v = uint w" using div_mult_mod_eq [of "uint w" "2 ^ 32"] by (simp only: a b)
  have "octets v = places 8 4 (uint v)" by (simp add: places_def octet_def uint_drop upt_rec)
  moreover have "uint v mod 2 ^ 32 = uint v" using uint_lt2p [of v] by (intro mod_pos_pos_trivial) simp_all
  ultimately have "number 256 (octets v) 0 = uint v" using number_places [of 8 4 "uint v"] by simp
  then have "number 65536 (replicate 5 0 @ [65535, octet v 0 * 256 + octet v 1, octet v 2 * 256 + octet v 3]) 0 = uint w"
    using u by (simp add: eval_nat_numeral algebra_simps)
  then show ?thesis unfolding of_groups_number by (simp only: of_int_uint) simp
qed

section \<open>The round trip\<close>

lemma groups16: "list_all group16 (groups w)" "length (groups w) = 8"
  by (simp_all add: group16_def segment_range)

lemma read_ipv6_show: "read_ipv6_addr (show_ipv6 w) = Some (w, [])"
proof (cases "to_ipv4_mapped w")
  case None
  obtain st len where z: "zero_run 0 (groups w) (0, 0) (0, 0) = (st, len)" by fastforce
  have "zeros [] (0, 0)" by (simp add: zeros_def)
  then have "zeros (groups w) (st, len)" using zero_run_zeros [of "[]" "(0, 0)" "(0, 0)" "groups w"] z by simp
  then show ?thesis using None z read_ipv6_groups(1) [OF groups16, of w] read_ipv6_groups(2) [OF groups16, of w st len] groups_back [of w]
    by (simp add: show_ipv6_def Let_def del: list.map)
next
  case (Some v)
  then show ?thesis using read_ipv6_mapped [of v] mapped_back [OF Some] by (simp add: show_ipv6_def)
qed

lemma ipv6_not_ipv4: "read_ipv4_addr (show_ipv6 w) = None"
proof (cases "to_ipv4_mapped w")
  case None
  obtain st len where z: "zero_run 0 (groups w) (0, 0) (0, 0) = (st, len)" by fastforce
  have "dot \<notin> set (show_groups gs)" if "list_all group16 gs" for gs
    using group_text_no_dot [OF that, of 0] by (simp add: group_text_0)
  moreover have "list_all group16 (take st (groups w))" "list_all group16 (drop (st + len) (groups w))"
    using groups16(1) [of w] by (auto simp: list_all_iff simp del: list.map dest!: in_set_takeD in_set_dropD)
  ultimately show ?thesis using None z groups16(1) [of w]
    by (intro no_dot_no_ipv4) (auto simp: show_ipv6_def Let_def simp del: list.map)
next
  case (Some v)
  then show ?thesis using read_colon_ipv4 by (simp add: show_ipv6_def)
qed

lemma parse_show_ip: "parse_ip (show_ip ip) = Some ip"
proof (cases ip)
  case (V4 w)
  then show ?thesis using read_ipv4_show [of "[]" w] octets_back [of w]
    by (simp add: parse_ip_def read_ip_addr_def show_ip_def)
next
  case (V6 w)
  then show ?thesis using read_ipv6_show [of w] ipv6_not_ipv4 [of w]
    by (simp add: parse_ip_def read_ip_addr_def show_ip_def)
qed

end
