(* ===== verification/Forward_Chain.thy ===== *)
theory Forward_Chain
  imports Proxy_Props Addr_Roundtrip
begin

text \<open>
  Several proxies in a row. Each hop rewrites the headers with \<open>forward_headers\<close>; the address it appends to
  \<open>X-Forwarded-For\<close> is read back by the hops behind it.
\<close>

section \<open>Reading back what a hop appended\<close>

lemma show_ip_all:
  assumes d: "\<And>d. digit_of 16 d \<Longrightarrow> P (digit_char d)" and P: "P dot" "P CHR '':''"
  shows "list_all P (show_ip ip)"
proof -
  have num: "list_all P (show_radix b n)" if "2 \<le> b" "b \<le> 16" "0 \<le> n" for b n
    using digits_facts(2) [OF that(1,3)] that(2) d by (fastforce simp: show_digits list_all_iff digit_of_def)
  have v4: "list_all P (show_ipv4 w)" for w
    unfolding show_ipv4_def by (rule join_all) (simp_all add: P num octet_range)
  have gs: "list_all P (show_groups gs)" if "list_all group16 gs" for gs
    unfolding show_groups_def
    by (rule join_all) (use that in \<open>auto simp: P list_all_iff [of "list_all P"] list_all_iff [of group16] group16_def intro!: num\<close>)
  have "CHR ''f'' = digit_char 15" by code_simp
  then have f: "P CHR ''f''" using d [of 15] by (simp add: digit_of_def)
  have "list_all P (show_ipv6 w)" for w
  proof (cases "to_ipv4_mapped w")
    case None
    obtain st len where z: "zero_run 0 (groups w) (0, 0) (0, 0) = (st, len)" by fastforce
    have "list_all group16 (take st (groups w))" "list_all group16 (drop (st + len) (groups w))"
      using groups16(1) [of w] by (auto simp: list_all_iff simp del: list.map dest!: in_set_takeD in_set_dropD)
    then show ?thesis using None z gs groups16(1) [of w] P by (simp add: show_ipv6_def Let_def del: list.map)
  qed (simp add: show_ipv6_def v4 P f)
  then show ?thesis using v4 by (simp add: show_ip_def split: ip_addr.split)
qed

lemma show_ip_plain: "CHR '','' \<notin> set (show_ip ip)" "list_all (\<lambda>c. \<not> is_white c) (show_ip ip)"
proof -
  have "list_all (\<lambda>c. c \<noteq> CHR '','' \<and> \<not> is_white c) (show_ip ip)"
  proof (rule show_ip_all)
    fix d
    assume "digit_of 16 d"
    then have "to_digit 16 (digit_char d) = Some d" by (simp add: to_digit_char)
    then show "digit_char d \<noteq> CHR '','' \<and> \<not> is_white (digit_char d)"
      by (auto simp: to_digit_def ascii_defs is_white_def byte_def Let_def split: if_splits)
  qed (simp_all add: is_white_def byte_def)
  then show "CHR '','' \<notin> set (show_ip ip)" "list_all (\<lambda>c. \<not> is_white c) (show_ip ip)" by (auto simp: list_all_iff)
qed

lemma trim_plain:
  assumes "list_all (\<lambda>c. \<not> is_white c) s"
  shows "trim s = s" and "trim (CHR '' '' # s) = s"
proof -
  have "dropWhile is_white s = s" "dropWhile is_white (rev s) = rev s"
    using assms by (auto simp: list_all_iff dropWhile_eq_self_iff hd_in_set)
      (metis hd_in_set set_rev rev_is_Nil_conv)
  then show "trim s = s" "trim (CHR '' '' # s) = s"
    by (simp_all add: trim_def trim_matches_def trim_start_matches_def trim_end_matches_def is_white_def byte_def)
qed

text \<open>The entries of one header value.\<close>

definition entries_of :: "string \<Rightarrow> ip_addr option list" where
  "entries_of v = map (\<lambda>e. parse_xff_entry (trim e)) (split_on CHR '','' v)"

lemma parse_entry_show: "parse_xff_entry (show_ip ip) = Some ip"
  by (simp add: parse_xff_entry_def parse_show_ip)

lemma entries_appended:
  "entries_of (appended vs (show_ip ip)) = (if vs = [] then [] else entries_of (join_with '', '' vs)) @ [Some ip]"
  using show_ip_plain [of ip] trim_plain [OF show_ip_plain(2) [of ip]]
  by (simp add: entries_of_def appended_def split_on_append_sep split_on_single parse_entry_show)

section \<open>A chain of hops\<close>

text \<open>A proxy on the way: its table, the route and the request line it sees, and the peer it sees.\<close>

record 'h hop =
  hp_table :: route_table
  hp_route :: route
  hp_peer :: ip_addr
  hp_proto :: string
  hp_request :: "'h request"
  hp_strip :: "(string \<times> string) option"

definition pass :: "'h header_ops \<Rightarrow> 'h hop \<Rightarrow> 'h \<Rightarrow> 'h" where
  "pass H p h =
     forward_headers H (hp_table p) (hp_route p) (hp_peer p) (hp_proto p) ((hp_request p)\<lparr>rq_headers := h\<rparr>) (hp_strip p)"

text \<open>What the hops so far have written: the addresses after \<open>older\<close>.\<close>

definition reported :: "'h header_ops \<Rightarrow> ip_addr list \<Rightarrow> 'h \<Rightarrow> bool" where
  "reported H ips h \<longleftrightarrow> hm_get_all H h ''connection'' = []
     \<and> (\<exists>v older. hm_get_all H h ''x-forwarded-for'' = [v] \<and> hv_to_str H v \<and> entries_of v = older @ map Some ips)"

context header_map
begin

lemma pass_connection: "hm_get_all H (pass H p h) ''connection'' = []"
proof -
  have "''connection'' \<in> set hop_by_hop_headers" "''connection'' \<notin> set trust_governed"
    by (simp_all add: hop_by_hop_headers_def trust_governed_def)
  then show ?thesis unfolding pass_def by (simp add: forwarded_plain get_strip_hop_by_hop)
qed

text \<open>The header after one hop, whether it trusts its peer or not.\<close>

lemma pass_xff:
  assumes "t_xff_mode (hp_table p) = Append"
  shows "hm_get_all H (pass H p h) ''x-forwarded-for''
    = [appended (strs H (hm_get_all H (strip_hop_by_hop H h) ''x-forwarded-for'')) (show_ip (hp_peer p))]"
  unfolding pass_def forward_headers_def Let_def
  by (cases "contains (t_trusted_proxies (hp_table p)) (hp_peer p)")
     (auto simp: assms get_forwarded_prefix trusted_get [OF _ refl] untrusted_get xff_value_def get_set_host get_hop_headers
       split: option.split)

lemma kept_xff:
  assumes "hm_get_all H h ''connection'' = []"
  shows "hm_get_all H (strip_hop_by_hop H h) ''x-forwarded-for'' = hm_get_all H h ''x-forwarded-for''"
  using assms by (simp add: get_strip_hop_by_hop hop_by_hop_headers_def connection_names_def strs_def List.map_filter_def)

lemma appended_to_str: "hv_to_str H (appended (strs H vs) (show_ip ip))"
  using appended_value [OF strs_all show_ip_chars] by (simp add: to_str)

lemma first_hop:
  assumes "t_xff_mode (hp_table p) = Append"
  shows "reported H [hp_peer p] (pass H p h)"
  using pass_xff [OF assms] pass_connection entries_appended appended_to_str unfolding reported_def by fastforce

lemma next_hop:
  assumes "reported H ips h" and "t_xff_mode (hp_table p) = Append"
  shows "reported H (ips @ [hp_peer p]) (pass H p h)"
proof -
  obtain v older where v: "hm_get_all H h ''connection'' = []" "hm_get_all H h ''x-forwarded-for'' = [v]" "hv_to_str H v"
    "entries_of v = older @ map Some ips" using assms(1) by (auto simp: reported_def)
  have "hm_get_all H (pass H p h) ''x-forwarded-for'' = [appended [v] (show_ip (hp_peer p))]"
    using pass_xff [OF assms(2), of h] v by (simp add: kept_xff strs_def)
  moreover have "entries_of (appended [v] (show_ip (hp_peer p))) = older @ map Some (ips @ [hp_peer p])"
    using entries_appended [of "[v]" "hp_peer p"] v(4) by simp
  moreover have "hv_to_str H (appended [v] (show_ip (hp_peer p)))"
    using appended_to_str [of "[v]" "hp_peer p"] v(3) by (simp add: strs_def)
  ultimately show ?thesis using pass_connection unfolding reported_def by blast
qed

lemma hops_report:
  assumes "t_xff_mode (hp_table first) = Append" and "list_all (\<lambda>p. t_xff_mode (hp_table p) = Append) mids"
  shows "reported H (hp_peer first # map hp_peer mids) (fold (pass H) (first # mids) h)"
  using assms(2)
proof (induction mids rule: rev_induct)
  case Nil
  then show ?case using first_hop [OF assms(1)] by simp
next
  case (snoc p mids)
  then show ?case using next_hop [of "hp_peer first # map hp_peer mids" "fold (pass H) (first # mids) h" p] by simp
qed

text \<open>The client as the last hop derives it.\<close>

lemma pass_real_ip:
  assumes "contains (t_trusted_proxies (hp_table p)) (hp_peer p)"
  shows "hm_get_all H (pass H p h) ''x-real-ip'' = [show_ip (to_canonical
      (client_of (t_trusted_proxies (hp_table p)) (xff_entries H (strip_hop_by_hop H h)) (hp_peer p)))]"
proof -
  have "xff_entries H (set_host H u (hop_headers H ((hp_request p)\<lparr>rq_headers := h\<rparr>))) = xff_entries H (strip_hop_by_hop H h)" for u
    by (simp add: xff_entries_def get_set_host get_hop_headers)
  then show ?thesis unfolding pass_def forward_headers_def Let_def
    by (auto simp: assms get_forwarded_prefix trusted_get [OF _ refl] split: option.split)
qed

end

lemma client_of_chain:
  assumes "\<not> contains T c" and "list_all (contains T) ps"
  shows "client_of T (older @ Some c # map Some ps) peer = c"
proof -
  have "find P (rev (map Some ps) @ Some c # rev older) = Some (Some c)"
    if "P (Some c)" "\<forall>p \<in> set ps. \<not> P (Some p)" for P :: "ip_addr option \<Rightarrow> bool"
    using that by (induction ps rule: rev_induct) auto
  then show ?thesis using assms by (simp add: client_of_def list_all_iff)
qed

text \<open>C22. A chain of these proxies reports the true client, whatever headers that client sent, provided that
  every proxy but the last appends to \<open>X-Forwarded-For\<close> (\<open>xff = "append"\<close>, the default) and that the last one
  trusts the proxies before it and not the client. Then, however many proxies a request passes, and whether
  or not the earlier ones trust one another, the last one's \<open>X-Real-IP\<close> is the address the first one saw.
  What a proxy writes, IPv4, IPv6 or IPv4-mapped, the next one reads back as the same address.\<close>

theorem chain_reports_client:
  assumes "header_map H" and "list_all (\<lambda>p. t_xff_mode (hp_table p) = Append) (first # mids)"
    and "T = t_trusted_proxies (hp_table final)" and "\<not> contains T (hp_peer first)"
    and "list_all (\<lambda>p. contains T (hp_peer p)) (mids @ [final])"
  shows "hm_get_all H (fold (pass H) (first # mids @ [final]) h) ''x-real-ip'' = [show_ip (to_canonical (hp_peer first))]"
proof -
  let ?h = "fold (pass H) (first # mids) h"
  obtain v older where v: "hm_get_all H ?h ''connection'' = []" "hm_get_all H ?h ''x-forwarded-for'' = [v]" "hv_to_str H v"
    "entries_of v = older @ Some (hp_peer first) # map Some (map hp_peer mids)"
    using header_map.hops_report [OF assms(1), of first mids h] assms(2) by (auto simp: reported_def)
  have "xff_entries H (strip_hop_by_hop H ?h) = entries_of v"
    using v(2,3) header_map.kept_xff [OF assms(1) v(1)] by (simp add: xff_entries_def entries_of_def)
  moreover have "client_of T (entries_of v) (hp_peer final) = hp_peer first"
    unfolding v(4) using client_of_chain [OF assms(4), of "map hp_peer mids"] assms(5) by (simp add: list_all_iff)
  ultimately show ?thesis
    using header_map.pass_real_ip [OF assms(1), of final ?h] assms(3,5) by simp
qed

definition demo_hop :: "ip_addr \<Rightarrow> trusted_proxies \<Rightarrow> (string \<times> string) list hop" where
  "demo_hop peer trusted =
     \<lparr>hp_table = with_trusted_proxies trusted demo_table, hp_route = route_new ''/api'' demo_upstream, hp_peer = peer,
      hp_proto = ''https'', hp_request = demo_request ''GET'' ''/api/x'' [] True, hp_strip = None\<rparr>"

theorem chain_reports_client_witness:
  "let client = V6 0x20010db8000000000000000000000001; near = \<lparr>nets = [(V4 0x0A000000, 8)]\<rparr> in
   hm_get_all list_headers
     (fold (pass list_headers) [demo_hop client default_trusted_proxies, demo_hop (V4 0x0A000001) near, demo_hop (V4 0x0A000002) near]
       [(''x-forwarded-for'', ''6.6.6.6, 10.0.0.9''), (''x-real-ip'', ''6.6.6.6'')])
     ''x-real-ip'' = [''2001:db8::1'']"
proof -
  let ?c = "V6 0x20010db8000000000000000000000001" and ?near = "\<lparr>nets = [(V4 0x0A000000, 8)]\<rparr>"
  have a: "list_all (\<lambda>p. t_xff_mode (hp_table p) = Append) [demo_hop ?c default_trusted_proxies, demo_hop (V4 0x0A000001) ?near]"
    by (simp add: demo_hop_def with_trusted_proxies_def demo_table_def table_new_def)
  have n: "?near = t_trusted_proxies (hp_table (demo_hop (V4 0x0A000002) ?near))" by (simp add: demo_hop_def with_trusted_proxies_def)
  have c: "\<not> contains ?near (hp_peer (demo_hop ?c default_trusted_proxies))" by (simp add: demo_hop_def contains_eval)
  have t: "list_all (\<lambda>p. contains ?near (hp_peer p)) ([demo_hop (V4 0x0A000001) ?near] @ [demo_hop (V4 0x0A000002) ?near])"
    by (simp add: demo_hop_def contains_eval)
  have "show_ip (to_canonical (hp_peer (demo_hop ?c default_trusted_proxies))) = ''2001:db8::1''" by code_simp
  then show ?thesis using chain_reports_client [OF list_headers_ok a n c t] by simp
qed

end
