(* ===== verification/Guarded.thy ===== *)
theory Guarded
  imports Breaker_Spec Std_Net
begin

text \<open>
  The breaker around an arbitrary fallible call: \<open>guarded\<close>, \<open>guarded_with_deadline\<close> and the demonstration
  run of \<open>crates/core/examples/guarded_client.rs\<close>, and \<open>guarded_get\<close> of \<open>examples/embedded/src/guarded.rs\<close>.
  A guarded call is a program of theory \<open>Atomics\<close> like the operations it calls; awaiting a future is an
  action during which time passes and other tasks call the same breaker. Times are in milliseconds.
\<close>

section \<open>Futures\<close>

text \<open>What a future resolves to and after how long, \<^const>\<open>None\<close> when it never does.\<close>

type_synonym ('e, 't) future = "nat option \<times> ('e, 't) result"

text \<open>The calls the other tasks make on the breaker while this one waits.\<close>

type_synonym others = "(breaker_op \<times> u64) list"

definition elapse :: "others \<Rightarrow> nat \<Rightarrow> unit prog" where
  "elapse ops ms = Act (\<lambda>m. (m\<lparr>brk := snd (run_calls ops (brk m)), clock := clock m + of_nat ms\<rparr>, Ret ()))"

text \<open>\<open>tokio::time::timeout\<close>: the future is polled before the timer.\<close>

definition timeout :: "nat \<Rightarrow> ('e, 't) future \<Rightarrow> nat \<times> (unit, ('e, 't) result) result" where
  "timeout d f =
     (case fst f of
        Some n \<Rightarrow> if n \<le> d then (n, Inr (snd f)) else (d, Inl ())
      | None \<Rightarrow> (d, Inl ()))"

section \<open>Guarded calls\<close>

datatype 'e guarded_err = Guarded_Open | Guarded_Failed 'e

datatype 'e timed_out = TimedOut_Failed 'e | TimedOut_Elapsed

definition guarded :: "('e, 't) result prog \<Rightarrow> ('e guarded_err, 't) result prog" where
  "guarded fut =
     bindp try_acquire (\<lambda>admitted.
     case admitted of
       None \<Rightarrow> Ret (Inl Guarded_Open)
     | Some ticket \<Rightarrow>
         bindp fut (\<lambda>r.
         case r of
           Inr v \<Rightarrow> bindp (record_success ticket) (\<lambda>_. Ret (Inr v))
         | Inl e \<Rightarrow> bindp (record_failure ticket) (\<lambda>_. Ret (Inl (Guarded_Failed e)))))"

definition guarded_with_deadline ::
    "others \<Rightarrow> nat \<Rightarrow> ('e, 't) future \<Rightarrow> ('e timed_out guarded_err, 't) result prog" where
  "guarded_with_deadline ops deadline fut =
     guarded
       (bindp (elapse ops (fst (timeout deadline fut))) (\<lambda>_.
        Ret (case snd (timeout deadline fut) of
               Inr (Inr v) \<Rightarrow> Inr v
             | Inr (Inl e) \<Rightarrow> Inl (TimedOut_Failed e)
             | Inl _ \<Rightarrow> Inl TimedOut_Elapsed)))"

section \<open>The guarded HTTP client of the embedding example\<close>

datatype guarded_get_err = GuardedError_Open | GuardedError_Failed string

definition client_breaker :: "string \<Rightarrow> (error, breaker) result" where
  "client_breaker nm =
     breaker_new (with_name nm (with_cooldown (from_secs 30) (with_failure_threshold 3 default_breaker_config)))"

text \<open>\<open>client\<close> is the exchange: the status and the body of the answer, or the text of the transport error.\<close>

definition guarded_get :: "(string, nat \<times> string) result prog \<Rightarrow> (guarded_get_err, string) result prog" where
  "guarded_get client =
     bindp try_acquire (\<lambda>admitted.
     case admitted of
       None \<Rightarrow> Ret (Inl GuardedError_Open)
     | Some ticket \<Rightarrow>
         bindp client (\<lambda>res.
         case res of
           Inr (status, body) \<Rightarrow>
             if status < 500
             then bindp (record_success ticket) (\<lambda>_. Ret (Inr body))
             else bindp (record_failure ticket)
                    (\<lambda>_. Ret (Inl (GuardedError_Failed (''status '' @ show_int (int status)))))
         | Inl e \<Rightarrow> bindp (record_failure ticket) (\<lambda>_. Ret (Inl (GuardedError_Failed e)))))"

section \<open>The demonstration run\<close>

definition simulated_call :: "nat \<Rightarrow> (string, unit) result" where
  "simulated_call n = (if 3 \<le> n \<and> n \<le> 8 then Inl ''dependency unavailable'' else Inr ())"

definition observed :: "circuit_state \<Rightarrow> (string guarded_err, unit) result \<Rightarrow> string \<times> string" where
  "observed state_before r =
     (case r of
        Inl Guarded_Open \<Rightarrow> (''Open'', ''fail-fast'')
      | Inr _ \<Rightarrow> if state_before = Open then (''HalfOpen'', ''ok'') else (''Closed'', ''ok'')
      | Inl (Guarded_Failed _) \<Rightarrow> if state_before = Open then (''HalfOpen'', ''err'') else (''Closed'', ''err''))"

text \<open>The widths of \<open>{n:2}\<close> and \<open>{state:<8}\<close>.\<close>

definition call_line :: "nat \<Rightarrow> string \<times> string \<Rightarrow> string" where
  "call_line n so =
     (let num = show_int (int n); pad = (\<lambda>w s. replicate (w - length s) (CHR '' '')) in
      ''call '' @ pad 2 num @ num @ ''  state='' @ fst so @ pad 8 (fst so) @ '' -> '' @ snd so)"

text \<open>The loop, given what the clock reads at each call: a sleep lasts at least as long as asked for.\<close>

fun call_loop :: "nat \<Rightarrow> u64 list \<Rightarrow> memory \<Rightarrow> string list \<times> memory" where
  "call_loop n [] m = ([], m)"
| "call_loop n (now # later) m =
     (let m1 = m\<lparr>clock := now\<rparr>;
          state_before = fst (run state_of m1);
          (r, m2) = run (guarded (Ret (simulated_call n))) m1;
          (ls, m3) = call_loop (n + 1) later m2 in
      (call_line n (observed state_before r) # ls, m3))"

text \<open>The second half of \<open>main\<close>: the lines it prints, or the message it panics with.\<close>

definition deadline_report ::
    "(string timed_out guarded_err, unit) result \<Rightarrow> circuit_state \<Rightarrow> (string, string list) result" where
  "deadline_report r state =
     (case r of
        Inl (Guarded_Failed TimedOut_Elapsed) \<Rightarrow>
          if state = Open
          then Inr [''call timed out after 200ms -> recorded as a failure, breaker state=Open'',
                    ''breaker is Open: the hang was counted, not silently dropped'']
          else Inl ''the timeout must have been counted as a failure, opening the breaker''
      | _ \<Rightarrow> Inl (''expected the call to time out and record a failure, got: '' @
               (case r of
                  Inr _ \<Rightarrow> ''Ok''
                | Inl Guarded_Open \<Rightarrow> ''Open''
                | Inl (Guarded_Failed _) \<Rightarrow> ''Failed'')))"

definition demo_config :: "u32 \<Rightarrow> string \<Rightarrow> breaker_config" where
  "demo_config t nm =
     with_name nm (with_cooldown (from_millis 500) (with_failure_threshold t default_breaker_config))"

definition client_main :: "u64 list \<Rightarrow> u64 \<Rightarrow> (string, string list) result" where
  "client_main wakes now =
     (case breaker_new (demo_config 3 ''inventory'') of
        Inl _ \<Rightarrow> Inl ''valid config''
      | Inr up \<Rightarrow>
          let ls = fst (call_loop 1 wakes \<lparr>brk = up, clock = 0, emitted = []\<rparr>) in
          (case breaker_new (demo_config 1 ''slow'') of
             Inl _ \<Rightarrow> Inl ''valid config''
           | Inr slow_up \<Rightarrow>
               let (r, m) = run (guarded_with_deadline [] 200 (Some 3600000, Inr ())) \<lparr>brk = slow_up, clock = now, emitted = []\<rparr> in
               (case deadline_report r (fst (run state_of m)) of
                  Inl e \<Rightarrow> Inl e
                | Inr tail \<Rightarrow>
                    Inr (ls @ [[], ''-- guarded_with_deadline: a hung call still counts as a breaker failure --''] @ tail))))"

section \<open>What one guarded call does to the breaker\<close>

lemma run_elapse [simp]:
  "run (elapse ops ms) m = ((), m\<lparr>brk := snd (run_calls ops (brk m)), clock := clock m + of_nat ms\<rparr>)"
  by (simp add: elapse_def)

text \<open>A refused call is not made: nothing happens and no time passes.\<close>

lemma guarded_refused:
  assumes "run try_acquire m = (None, m')"
  shows "run (guarded fut) m = (Inl Guarded_Open, m')"
  using assms by (simp add: guarded_def)

lemma guarded_admitted:
  assumes "run try_acquire m = (Some ticket, m1)" and "run fut m1 = (r, m2)"
  shows "run (guarded fut) m =
     (case r of
        Inr v \<Rightarrow> (Inr v, snd (run (record_success ticket) m2))
      | Inl e \<Rightarrow> (Inl (Guarded_Failed e), snd (run (record_failure ticket) m2)))"
  using assms by (simp add: guarded_def split: sum.split prod.split)

text \<open>The breaker an operation leaves does not depend on what was emitted before.\<close>

lemma run_try_acquire_call:
  assumes "breaker_inv (brk m)"
  shows "fst (run try_acquire m) = fst (call try_acquire (clock m) (brk m))"
    and "brk (snd (run try_acquire m)) = after try_acquire (clock m) (brk m)"
    and "clock (snd (run try_acquire m)) = clock m"
  using assms by (simp_all add: call_def run_try_acquire Let_def)

lemma run_record_failure_call:
  assumes "breaker_inv (brk m)"
  shows "brk (snd (run (record_failure a) m)) = after (record_failure a) (clock m) (brk m)"
    and "clock (snd (run (record_failure a) m)) = clock m"
  using assms by (simp_all add: call_def run_record_failure tripped_def Let_def split: circuit_state.split)

section \<open>Calls that fail or hang\<close>

text \<open>A future that fails, or does not resolve before the deadline.\<close>

definition fails_within :: "nat \<Rightarrow> ('e, 't) future \<Rightarrow> bool" where
  "fails_within d f = (case snd (timeout d f) of Inr (Inr _) \<Rightarrow> False | _ \<Rightarrow> True)"

fun deadline_calls ::
    "nat \<Rightarrow> ('e, 't) future list \<Rightarrow> memory \<Rightarrow> ('e timed_out guarded_err, 't) result list \<times> memory" where
  "deadline_calls d [] m = ([], m)"
| "deadline_calls d (f # fs) m =
     (let (r, m1) = run (guarded_with_deadline [] d f) m; (rs, m2) = deadline_calls d fs m1 in (r # rs, m2))"

lemma shut_acquire:
  assumes "breaker_inv (brk m)" and "phase (abs_breaker (brk m)) = Shut n"
  shows "run try_acquire m = (Some Normal, m)"
  using assms by (auto simp: run_try_acquire abs_breaker_def split: circuit_state.splits)

lemma guarded_failure:
  assumes "breaker_inv (brk m)" and "phase (abs_breaker (brk m)) = Shut n" and "fails_within d f"
    and "(r, m') = run (guarded_with_deadline [] d f) m"
  shows "\<exists>e. r = Inl (Guarded_Failed e)" and "breaker_inv (brk m')"
    and "abs_breaker (brk m') = spec_failure Normal (unat (clock m')) (abs_breaker (brk m))"
    and "clock m' = clock m + of_nat (fst (timeout d f))"
proof -
  let ?m = "m\<lparr>clock := clock m + of_nat (fst (timeout d f))\<rparr>"
  obtain e where e: "(case snd (timeout d f) of
               Inr (Inr v) \<Rightarrow> Inr v
             | Inr (Inl e) \<Rightarrow> Inl (TimedOut_Failed e)
             | Inl _ \<Rightarrow> Inl TimedOut_Elapsed) = Inl e"
    using assms(3) by (auto simp: fails_within_def split: sum.splits)
  have "run (guarded_with_deadline [] d f) m = (Inl (Guarded_Failed e), snd (run (record_failure Normal) ?m))"
    unfolding guarded_with_deadline_def e
    using guarded_admitted [OF shut_acquire [OF assms(1,2)], of "bindp (elapse [] (fst (timeout d f))) (\<lambda>_. Ret (Inl e))" "Inl e" ?m]
    by simp
  with assms(4) have r: "r = Inl (Guarded_Failed e)" and m': "m' = snd (run (record_failure Normal) ?m)" by simp_all
  from r show "\<exists>e. r = Inl (Guarded_Failed e)" by blast
  show "clock m' = clock m + of_nat (fst (timeout d f))"
    using run_record_failure_call(2) [of ?m] assms(1) by (simp add: m')
  then show "abs_breaker (brk m') = spec_failure Normal (unat (clock m')) (abs_breaker (brk m))"
    using run_record_failure_call(1) [of ?m] refine_failure [OF assms(1)] assms(1) by (simp add: m')
  show "breaker_inv (brk m')" using inv_record_failure [of ?m] assms(1) by (simp add: m')
qed

text \<open>Failures below the threshold are counted, the one that reaches it opens the circuit.\<close>

lemma deadline_calls_count:
  assumes "breaker_inv (brk m)" and "phase (abs_breaker (brk m)) = Shut n" and "list_all (fails_within d) fs"
    and "n + length fs \<le> threshold (abs_breaker (brk m))" and "0 < length fs \<or> n < threshold (abs_breaker (brk m))"
    and "(rs, m') = deadline_calls d fs m"
  shows "list_all (\<lambda>r. \<exists>e. r = Inl (Guarded_Failed e)) rs \<and> breaker_inv (brk m')
    \<and> abs_breaker (brk m') = (abs_breaker (brk m))\<lparr>phase :=
        (if n + length fs < threshold (abs_breaker (brk m)) then Shut (n + length fs) else Tripped (unat (clock m')))\<rparr>"
  using assms
proof (induction fs arbitrary: m n rs)
  case Nil
  have "(abs_breaker (brk m))\<lparr>phase := Shut n\<rparr> = abs_breaker (brk m)"
    using Nil.prems(2) by (metis circuit.surjective circuit.update_convs(1))
  then show ?case using Nil.prems by simp
next
  case (Cons f fs)
  obtain r m1 where one: "(r, m1) = run (guarded_with_deadline [] d f) m" by (metis surj_pair)
  have one': "run (guarded_with_deadline [] d f) m = (r, m1)" using one by (rule sym)
  obtain rs' where more: "(rs', m') = deadline_calls d fs m1" "rs = r # rs'"
    using Cons.prems(6) by (cases "deadline_calls d fs m1") (simp add: one')
  note g = guarded_failure [OF Cons.prems(1,2) _ one]
  have f: "fails_within d f" using Cons.prems(3) by simp
  show ?case
  proof (cases "n + 1 < threshold (abs_breaker (brk m))")
    case True
    then have a: "abs_breaker (brk m1) = (abs_breaker (brk m))\<lparr>phase := Shut (n + 1)\<rparr>"
      using g(3) [OF f] Cons.prems(2) by simp
    show ?thesis
      using Cons.IH [OF g(2) [OF f], of "n + 1" rs'] g(1) [OF f] Cons.prems(3,4) True more by (simp add: a)
  next
    case False
    then have "fs = []" using Cons.prems(4) by (cases fs) auto
    then show ?thesis using g [OF f] Cons.prems(2,4) False more by simp
  qed
qed

text \<open>C36. A call that hangs counts. With the deadline inside the guarded future, a new breaker stays closed
  through fewer failing or hanging calls than its threshold; the call that reaches it opens the circuit, and
  every further call within the cooldown is refused at once without being made.\<close>

theorem hung_calls_open_circuit:
  assumes "breaker_new c = Inr b" and "list_all (fails_within d) fs" and "length fs = unat (cfg_failure_threshold c)"
    and "m = \<lparr>brk = b, clock = now, emitted = []\<rparr>" and "(rs, m') = deadline_calls d fs m"
  shows "(\<forall>j < length fs. cstate (snd (deadline_calls d (take j fs) m)) = Closed)
    \<and> list_all (\<lambda>r. \<exists>e. r = Inl (Guarded_Failed e)) rs \<and> cstate m' = Open
    \<and> (\<forall>t. unat t - unat (clock m') < unat (b_cooldown_millis b) \<longrightarrow>
         run (guarded fut) (m'\<lparr>clock := t\<rparr>) = (Inl Guarded_Open, m'\<lparr>clock := t\<rparr>))"
proof (intro conjI allI impI)
  note inv = breaker_new_inv [OF assms(1)] and view = breaker_new_view [OF assms(1)]
  have inv': "breaker_inv (brk m)" and sh: "phase (abs_breaker (brk m)) = Shut 0"
    and th: "threshold (abs_breaker (brk m)) = length fs" "0 < length fs"
    using inv view assms(3,4) by simp_all
  note all = deadline_calls_count [OF inv' sh assms(2) _ _ assms(5)]
  have open': "abs_breaker (brk m') = (abs_breaker (brk m))\<lparr>phase := Tripped (unat (clock m'))\<rparr>"
    using all th by simp
  then show cs: "cstate m' = Open" by (auto simp: abs_breaker_def split: circuit_state.splits)
  show "list_all (\<lambda>r. \<exists>e. r = Inl (Guarded_Failed e)) rs" using all th by simp
  show "cstate (snd (deadline_calls d (take j fs) m)) = Closed" if "j < length fs" for j
  proof -
    obtain rs1 m1 where r: "(rs1, m1) = deadline_calls d (take j fs) m" by (metis surj_pair)
    have "list_all (fails_within d) (take j fs)" using assms(2) by (auto simp: list_all_iff dest: in_set_takeD)
    from deadline_calls_count [OF inv' sh this _ _ r] that th
    have "phase (abs_breaker (brk m1)) = Shut j" by simp
    then show ?thesis by (auto simp: abs_breaker_def simp flip: r split: circuit_state.splits)
  qed
  fix t :: u64
  assume "unat t - unat (clock m') < unat (b_cooldown_millis b)"
  moreover have "cooldown (abs_breaker (brk m')) = unat (b_cooldown_millis b)"
    "phase (abs_breaker (brk m')) = Tripped (unat (clock m'))"
    unfolding open' assms(4) by (simp_all add: abs_breaker_def)
  moreover have "breaker_inv (brk m')" using all th by simp
  ultimately have "run try_acquire (m'\<lparr>clock := t\<rparr>) = (None, m'\<lparr>clock := t\<rparr>)"
    using cs by (simp add: run_try_acquire elapsed_less_iff) (simp add: abs_breaker_def)
  then show "run (guarded fut) (m'\<lparr>clock := t\<rparr>) = (Inl Guarded_Open, m'\<lparr>clock := t\<rparr>)" by (rule guarded_refused)
qed

theorem hung_calls_open_circuit_witness:
  "let fs = [(None, Inr ()), (Some 5, Inl ''x''), (Some 900, Inr ())] :: (string, unit) future list;
       m' = snd (deadline_calls 200 fs \<lparr>brk = default_breaker, clock = 1000, emitted = []\<rparr>) in
   cstate m' = Open \<and> clock m' = 1405
   \<and> run (guarded (Ret (Inr ''never made'' :: (string, string) result))) (m'\<lparr>clock := 31404\<rparr>)
       = (Inl Guarded_Open, m'\<lparr>clock := 31404\<rparr>)"
proof -
  let ?fs = "[(None, Inr ()), (Some 5, Inl ''x''), (Some 900, Inr ())] :: (string, unit) future list"
  let ?m = "\<lparr>brk = default_breaker, clock = 1000, emitted = []\<rparr>"
  obtain rs m' where r: "(rs, m') = deadline_calls 200 ?fs ?m" by (metis surj_pair)
  have "clock (snd (deadline_calls 200 ?fs ?m)) = 1405" by code_simp
  then have c: "clock m' = 1405" by (simp only: r [symmetric] snd_conv)
  have "list_all (fails_within 200) ?fs" by code_simp
  from hung_calls_open_circuit [OF new_default_breaker this _ refl r, where fut = "Ret (Inr ''never made'' :: (string, string) result)"]
  show ?thesis
    unfolding Let_def r [symmetric] snd_conv c by (simp add: default_breaker_config_def default_breaker_def c)
qed

text \<open>The same calls with the deadline outside: the ticket of an admitted call is dropped, and however many
  calls hang, the circuit stays closed and nothing is counted.\<close>

definition timeout_outside :: "nat \<Rightarrow> unit prog" where
  "timeout_outside d =
     bindp try_acquire (\<lambda>admitted. case admitted of None \<Rightarrow> Ret () | Some _ \<Rightarrow> elapse [] d)"

lemma outside_never_counts:
  assumes "breaker_inv (brk m)" and "phase (abs_breaker (brk m)) = Shut n"
  shows "brk (((\<lambda>m. snd (run (timeout_outside d) m)) ^^ k) m) = brk m"
  using assms by (induction k) (simp_all add: timeout_outside_def shut_acquire)

section \<open>The HTTP client as a guarded call\<close>

text \<open>What counts as a failure of the exchange.\<close>

definition verdict :: "(string, nat \<times> string) result \<Rightarrow> (string, string) result" where
  "verdict res =
     (case res of
        Inr (status, body) \<Rightarrow> if status < 500 then Inr body else Inl (''status '' @ show_int (int status))
      | Inl e \<Rightarrow> Inl e)"

definition get_err :: "string guarded_err \<Rightarrow> guarded_get_err" where
  "get_err e = (case e of Guarded_Open \<Rightarrow> GuardedError_Open | Guarded_Failed x \<Rightarrow> GuardedError_Failed x)"

text \<open>\<open>guarded_get\<close> is \<open>guarded\<close> around the exchange, where a transport error or a status of 500 and above
  is a failure and any other answer, a 4xx included, a success; and its breaker has the defaults of the
  library.\<close>

theorem guarded_get_is_guarded:
  "run (guarded_get client) m
     = map_prod (map_sum get_err id) id (run (guarded (bindp client (\<lambda>res. Ret (verdict res)))) m)
   \<and> client_breaker nm = breaker_new (with_name nm default_breaker_config)"
proof
  show "run (guarded_get client) m
     = map_prod (map_sum get_err id) id (run (guarded (bindp client (\<lambda>res. Ret (verdict res)))) m)"
    by (simp add: guarded_get_def guarded_def verdict_def get_err_def split: prod.split option.split sum.split)
  show "client_breaker nm = breaker_new (with_name nm default_breaker_config)"
    by (simp add: client_breaker_def with_name_def with_cooldown_def with_failure_threshold_def default_breaker_config_def)
qed

section \<open>What the demonstration prints\<close>

definition first_calls :: "string list" where
  "first_calls =
     map (\<lambda>n. call_line n (''Closed'', ''ok'')) [1, 2] @ map (\<lambda>n. call_line n (''Closed'', ''err'')) [3, 4, 5] @
     map (\<lambda>n. call_line n (''Open'', ''fail-fast'')) [6, 7, 8, 9] @ [call_line 10 (''HalfOpen'', ''ok'')]"

definition client_output :: "string list" where
  "client_output =
     [''call  1  state=Closed   -> ok'', ''call  2  state=Closed   -> ok'',
      ''call  3  state=Closed   -> err'', ''call  4  state=Closed   -> err'', ''call  5  state=Closed   -> err'',
      ''call  6  state=Open     -> fail-fast'', ''call  7  state=Open     -> fail-fast'',
      ''call  8  state=Open     -> fail-fast'', ''call  9  state=Open     -> fail-fast'',
      ''call 10  state=HalfOpen -> ok''] @
     map (\<lambda>n. call_line n (''Closed'', ''ok'')) [11..<21] @
     [[], ''-- guarded_with_deadline: a hung call still counts as a breaker failure --'',
      ''call timed out after 200ms -> recorded as a failure, breaker state=Open'',
      ''breaker is Open: the hang was counted, not silently dropped'']"

lemma first_calls_lines:
  "[''call  1  state=Closed   -> ok'', ''call  2  state=Closed   -> ok'',
    ''call  3  state=Closed   -> err'', ''call  4  state=Closed   -> err'', ''call  5  state=Closed   -> err'',
    ''call  6  state=Open     -> fail-fast'', ''call  7  state=Open     -> fail-fast'',
    ''call  8  state=Open     -> fail-fast'', ''call  9  state=Open     -> fail-fast'',
    ''call 10  state=HalfOpen -> ok''] = first_calls"
  by code_simp

abbreviation inventory :: "u8 \<Rightarrow> u32 \<Rightarrow> u64 \<Rightarrow> breaker" where
  "inventory st n opened \<equiv>
     \<lparr>b_name = Some ''inventory'', b_gauges = False, b_state = st, b_consecutive_failures = n,
      b_opened_at_millis = opened, b_rearmed_at_millis = u64_max, b_failure_threshold = 3, b_cooldown_millis = 500\<rparr>"

lemmas guarded_eval = guarded_def try_acquire_def claim_probe_slot_def transition_def record_success_def
  record_failure_def run_log_transition run_set_gauges

text \<open>One call in each of the situations of the run.\<close>

lemma loop_ok:
  "simulated_call n = Inr () \<Longrightarrow>
   fst (call_loop n (t # ts) \<lparr>brk = inventory 0 c o1, clock = t0, emitted = es\<rparr>)
     = call_line n (''Closed'', ''ok'') # fst (call_loop (n + 1) ts \<lparr>brk = inventory 0 0 o1, clock = t, emitted = es\<rparr>)"
  by (simp add: guarded_eval observed_def split: prod.split)

lemma loop_err:
  "simulated_call n = Inl e \<Longrightarrow> c + 1 < 3 \<Longrightarrow>
   fst (call_loop n (t # ts) \<lparr>brk = inventory 0 c o1, clock = t0, emitted = es\<rparr>)
     = call_line n (''Closed'', ''err'') # fst (call_loop (n + 1) ts \<lparr>brk = inventory 0 (c + 1) o1, clock = t, emitted = es\<rparr>)"
  by (simp add: guarded_eval observed_def add.commute split: prod.split)

lemma loop_trip:
  "simulated_call n = Inl e \<Longrightarrow>
   fst (call_loop n (t # ts) \<lparr>brk = inventory 0 2 o1, clock = t0, emitted = es\<rparr>)
     = call_line n (''Closed'', ''err'') # fst (call_loop (n + 1) ts
         \<lparr>brk = inventory 1 3 t, clock = t, emitted = es @ [LogTransition ''inventory'' Closed Open True]\<rparr>)"
  by (simp add: guarded_eval observed_def split: prod.split)

lemma loop_refused:
  assumes "unat t < unat o1 + 500"
  shows "fst (call_loop n (t # ts) \<lparr>brk = inventory 1 c o1, clock = t0, emitted = es\<rparr>)
     = call_line n (''Open'', ''fail-fast'') # fst (call_loop (n + 1) ts \<lparr>brk = inventory 1 c o1, clock = t, emitted = es\<rparr>)"
proof -
  have "saturating_sub t o1 < 500" using assms unfolding elapsed_less_iff by (simp add: less_diff_conv2 split: nat_diff_split)
  then show ?thesis by (simp add: guarded_eval observed_def Let_def split: prod.split)
qed

lemma loop_probe:
  assumes "simulated_call n = Inr ()" and "unat o1 + 500 \<le> unat t"
  shows "fst (call_loop n (t # ts) \<lparr>brk = inventory 1 c o1, clock = t0, emitted = es\<rparr>)
     = call_line n (''HalfOpen'', ''ok'') # fst (call_loop (n + 1) ts
         \<lparr>brk = inventory 0 0 t, clock = t,
          emitted = es @ [LogTransition ''inventory'' Open HalfOpen False, LogTransition ''inventory'' HalfOpen Closed False]\<rparr>)"
proof -
  have "\<not> saturating_sub t o1 < 500" using assms(2) by (simp add: elapsed_less_iff)
  then show ?thesis using assms(1) by (simp add: guarded_eval observed_def split: prod.split)
qed

lemma loop_healthy:
  "8 < n \<Longrightarrow> fst (call_loop n ts \<lparr>brk = inventory 0 c o1, clock = t0, emitted = es\<rparr>)
     = map (\<lambda>i. call_line i (''Closed'', ''ok'')) [n..<n + length ts]"
proof (induction ts arbitrary: n c t0)
  case (Cons t ts)
  then show ?case
    using Cons.IH [of "n + 1" 0 t] by (simp add: loop_ok simulated_call_def upt_conv_Cons del: call_loop.simps upt_Suc)
qed simp

lemma new_demo:
  "breaker_new (demo_config 3 ''inventory'') = Inr (inventory 0 0 0)"
  by (simp add: breaker_new_def demo_config_def validate_def unchecked_breaker_def run_reconfigure fresh_breaker_def
      with_name_def with_cooldown_def with_failure_threshold_def from_millis_def as_millis_def)

text \<open>The sleeps between the calls: each lasts a tenth of a second or more, and the four after the circuit
  opened less than half a second together.\<close>

definition paced :: "u64 list \<Rightarrow> bool" where
  "paced ts \<longleftrightarrow> length ts = 20 \<and> successively (\<lambda>a b. unat a + 100 \<le> unat b) ts \<and> unat (ts ! 8) < unat (ts ! 4) + 500"

lemma slow_demo:
  "\<exists>m. run (guarded_with_deadline [] 200 (Some 3600000, Inr () :: (string, unit) result))
      \<lparr>brk = (inventory 0 0 0)\<lparr>b_name := Some ''slow'', b_failure_threshold := 1\<rparr>, clock = now, emitted = []\<rparr>
    = (Inl (Guarded_Failed TimedOut_Elapsed), m) \<and> cstate m = Open"
  by (simp add: guarded_eval guarded_with_deadline_def timeout_def)

lemma new_slow:
  "breaker_new (demo_config 1 ''slow'') = Inr ((inventory 0 0 0)\<lparr>b_name := Some ''slow'', b_failure_threshold := 1\<rparr>)"
  by (simp add: breaker_new_def demo_config_def validate_def unchecked_breaker_def run_reconfigure fresh_breaker_def
      with_name_def with_cooldown_def with_failure_threshold_def from_millis_def as_millis_def)

text \<open>The demonstration runs as its comments say: calls 3 to 5 fail and open the circuit, calls 6 to 9 fail
  fast although only 6 to 8 would have failed, call 10 is the probe that closes it, and the hung call opens the
  second breaker, so that \<open>main\<close> does not panic. The sleeps may be late, as long as call 9 still comes within the
  cooldown.\<close>

theorem guarded_client_run:
  assumes "paced wakes"
  shows "client_main wakes now = Inr client_output"
proof -
  have "length wakes = 20" using assms by (simp add: paced_def)
  then obtain a b c d e f g h i j rest where l: "wakes = a # b # c # d # e # f # g # h # i # j # rest" "length rest = 10"
    by (auto simp: eval_nat_numeral length_Suc_conv)
  have w: "unat f < unat e + 500" "unat g < unat e + 500" "unat h < unat e + 500" "unat i < unat e + 500"
    "unat e + 500 \<le> unat j"
    using assms by (simp_all add: paced_def l(1))
  have "fst (call_loop 1 wakes \<lparr>brk = inventory 0 0 0, clock = 0, emitted = []\<rparr>)
      = first_calls @ map (\<lambda>n. call_line n (''Closed'', ''ok'')) [11..<11 + length rest]"
    using w unfolding l(1) first_calls_def
    by (simp add: loop_ok loop_err loop_trip loop_refused loop_probe loop_healthy simulated_call_def
        del: call_loop.simps upt_Suc upt_rec_numeral) (simp add: eval_nat_numeral del: upt_Suc)
  moreover obtain m where "run (guarded_with_deadline [] 200 (Some 3600000, Inr () :: (string, unit) result))
      \<lparr>brk = (inventory 0 0 0)\<lparr>b_name := Some ''slow'', b_failure_threshold := 1\<rparr>, clock = now, emitted = []\<rparr>
    = (Inl (Guarded_Failed TimedOut_Elapsed), m)" "cstate m = Open"
    using slow_demo [of now] by blast
  ultimately show ?thesis
    unfolding client_main_def new_demo new_slow client_output_def first_calls_lines
    by (simp add: deadline_report_def l(2) del: upt_Suc upt_rec_numeral)
qed

theorem guarded_client_run_witness:
  "client_main [7, 110, 215, 320, 425, 526, 627, 730, 833, 936, 1040, 1141, 1242, 1343, 1450, 1551, 1652, 1760, 1870, 1980] 3000 = Inr client_output"
proof -
  have "paced [7, 110, 215, 320, 425, 526, 627, 730, 833, 936, 1040, 1141, 1242, 1343, 1450, 1551, 1652, 1760, 1870, 1980]" by (simp add: paced_def)
  then show ?thesis by (rule guarded_client_run)
qed

end
