(* ===== verification/Demo_Upstream.thy ===== *)
theory Demo_Upstream
  imports Health Server_Main "HOL-Library.AList"
begin

text \<open>
  The fake backend of the full-stack example, \<open>examples/full-stack/demo-upstream/src/main.rs\<close>: the dispatch on
  path and query, the fail mode the demonstrations switch on and off, and the responses. A panic of an \<open>expect\<close>
  is a value, so that it can be shown not to happen.
\<close>

section \<open>Dispatch\<close>

datatype action =
    Fail bool
  | Failing
  | Health
  | Slow nat
  | Stream nat nat
  | Status nat
  | Echo
  | BadRequest string

fun find_map :: "('a \<Rightarrow> 'b option) \<Rightarrow> 'a list \<Rightarrow> 'b option" where
  "find_map f [] = None"
| "find_map f (x # xs) = (case f x of Some y \<Rightarrow> Some y | None \<Rightarrow> find_map f xs)"

definition query_param :: "string option \<Rightarrow> string \<Rightarrow> string option" where
  "query_param query k =
     Option.bind query (\<lambda>q.
       find_map (\<lambda>pair. Option.bind (split_once (CHR ''='') pair) (\<lambda>(k', v). if k' = k then Some v else None))
         (split_on (CHR ''&'') q))"

text \<open>\<open>parse::<uN>().ok()\<close>\<close>

definition param_uint :: "nat \<Rightarrow> string option \<Rightarrow> string \<Rightarrow> nat option" where
  "param_uint nbits query k =
     Option.bind (query_param query k) (\<lambda>v. map_option nat (parse_uint (2 ^ nbits - 1) v))"

definition route_action :: "string \<Rightarrow> string option \<Rightarrow> bool \<Rightarrow> action" where
  "route_action path query failing =
     (if suffix ''/admin/fail'' path then Fail (query_param query ''on'' = Some ''1'')
      else if failing then Failing
      else if path = ''/health'' then Health
      else if suffix ''/slow'' path then
        (case param_uint 64 query ''ms'' of
           Some ms \<Rightarrow> Slow (min ms 60000)
         | None \<Rightarrow> BadRequest ''ms must be a non-negative integer'')
      else if suffix ''/stream'' path then
        (let chunks = param_uint 32 query ''chunks'';
             interval_ms = (case param_uint 64 query ''interval_ms'' of Some n \<Rightarrow> n | None \<Rightarrow> 0) in
         case chunks of
           Some c \<Rightarrow> if c \<le> 100 then Stream c interval_ms else BadRequest ''chunks must be 0..=100''
         | None \<Rightarrow> BadRequest ''chunks must be 0..=100'')
      else if suffix ''/status'' path then
        (case param_uint 16 query ''code'' of
           Some code \<Rightarrow> if 100 \<le> code \<and> code \<le> 599 then Status code else BadRequest ''code must be 100..=599''
         | None \<Rightarrow> BadRequest ''code must be 100..=599'')
      else Echo)"

section \<open>Responses\<close>

text \<open>A body is a text, a JSON value, or chunks sent as they are produced, so many milliseconds apart.\<close>

datatype demo_body = Full string | Json json | Chunks nat "string list"

record demo_response =
  dr_status :: nat
  dr_headers :: "(string \<times> string) list"
  dr_body :: demo_body
  dr_after_ms :: nat

definition text_response :: "nat \<Rightarrow> string \<Rightarrow> demo_response" where
  "text_response status body = \<lparr>dr_status = status, dr_headers = [], dr_body = Full body, dr_after_ms = 0\<rparr>"

text \<open>The producing task: \<open>open i\<close> says whether the receiver is still there when chunk \<open>i\<close> is sent.\<close>

definition chunk :: "nat \<Rightarrow> string" where
  "chunk i = ''chunk '' @ show_int (int i) @ [CHR 0x0A]"

fun produce :: "(nat \<Rightarrow> bool) \<Rightarrow> nat \<Rightarrow> nat \<Rightarrow> string list" where
  "produce listening i 0 = []"
| "produce listening i (Suc n) = (if listening i then chunk i # produce listening (Suc i) n else [])"

definition stream_response :: "(nat \<Rightarrow> bool) \<Rightarrow> nat \<Rightarrow> nat \<Rightarrow> demo_response" where
  "stream_response listening chunks interval_ms =
     \<lparr>dr_status = 200, dr_headers = [], dr_body = Chunks interval_ms (produce listening 0 chunks), dr_after_ms = 0\<rparr>"

text \<open>A request: header fields in order, and the frames of its body.\<close>

datatype demo_frame = DataFrame string | TrailersFrame | FrameError

record demo_request =
  dq_method :: string
  dq_path :: string
  dq_query :: "string option"
  dq_headers :: "(string \<times> string) list"
  dq_body :: "demo_frame list"

definition value_to_str :: "string \<Rightarrow> string" where
  "value_to_str v = (if list_all (\<lambda>c. 32 \<le> byte c \<and> byte c < 127 \<or> byte c = 9) v then v else [])"

text \<open>\<open>collect\<close> into a map: a later field of the same name replaces an earlier one.\<close>

definition header_json :: "(string \<times> string) list \<Rightarrow> (string \<times> json) list" where
  "header_json hs = fold (\<lambda>(n, v) m. AList.update n (JStr (value_to_str v)) m) hs []"

definition body_bytes :: "demo_frame list \<Rightarrow> u64" where
  "body_bytes fs = fold (\<lambda>f n. case f of DataFrame d \<Rightarrow> n + of_nat (length d) | _ \<Rightarrow> n) fs 0"

definition echo_response :: "string \<Rightarrow> demo_request \<Rightarrow> demo_response" where
  "echo_response service_name req =
     \<lparr>dr_status = 200, dr_headers = [(''content-type'', ''application/json'')],
      dr_body = Json (JObj
        [(''service'', JStr service_name), (''method'', JStr (dq_method req)), (''path'', JStr (dq_path req)),
         (''query'', case dq_query req of Some q \<Rightarrow> JStr q | None \<Rightarrow> JNull),
         (''headers'', JObj (header_json (dq_headers req))), (''body_bytes'', JNum (unat (body_bytes (dq_body req))))]),
      dr_after_ms = 0\<rparr>"

section \<open>The handler\<close>

datatype demo_panic = StatusPanic | ServiceNamePanic

text \<open>\<open>HeaderValue::from_str\<close> accepts no control characters but the tab; \<open>StatusCode::from_u16\<close> takes three digits.\<close>

definition valid_value :: "string \<Rightarrow> bool" where
  "valid_value s = list_all (\<lambda>c. 32 \<le> byte c \<and> byte c \<noteq> 127 \<or> byte c = 9) s"

definition demo_handle ::
    "string \<Rightarrow> (nat \<Rightarrow> bool) \<Rightarrow> demo_request \<Rightarrow> bool \<Rightarrow> (demo_panic, demo_response) result \<times> bool" where
  "demo_handle service_name listening req failing =
     (let action = route_action (dq_path req) (dq_query req) failing;
          failing' = (case action of Fail on \<Rightarrow> on | _ \<Rightarrow> failing);
          response =
            (case action of
               Fail _ \<Rightarrow> Inr (text_response 200 ''ok'')
             | Failing \<Rightarrow> Inr (text_response 503 ''failing'')
             | Health \<Rightarrow> Inr (text_response 200 ''ok'')
             | Slow ms \<Rightarrow> Inr ((text_response 200 ''slow done'')\<lparr>dr_after_ms := ms\<rparr>)
             | Stream chunks interval_ms \<Rightarrow> Inr (stream_response listening chunks interval_ms)
             | Status code \<Rightarrow>
                 if 100 \<le> code \<and> code \<le> 999 then Inr (text_response code []) else Inl StatusPanic
             | Echo \<Rightarrow> Inr (echo_response service_name req)
             | BadRequest msg \<Rightarrow> Inr (text_response 400 msg)) in
      (case response of
         Inl p \<Rightarrow> Inl p
       | Inr r \<Rightarrow>
           if valid_value service_name
           then Inr (r\<lparr>dr_headers := AList.update ''x-served-by'' service_name (dr_headers r)\<rparr>)
           else Inl ServiceNamePanic,
       failing'))"

text \<open>\<open>main\<close>: the port, the name, and the connections' requests one after the other.\<close>

definition demo_port :: "env_var \<Rightarrow> u16" where
  "demo_port v =
     (case v of
        Present p \<Rightarrow> (case parse_uint 65535 p of Some n \<Rightarrow> of_int n | None \<Rightarrow> 8080)
      | _ \<Rightarrow> 8080)"

definition demo_name :: "env_var \<Rightarrow> string" where
  "demo_name v = (case v of Present n \<Rightarrow> n | _ \<Rightarrow> ''demo'')"

fun demo_serve ::
    "string \<Rightarrow> (demo_request \<times> (nat \<Rightarrow> bool)) list \<Rightarrow> bool \<Rightarrow> (demo_panic, demo_response) result list \<times> bool" where
  "demo_serve service_name [] failing = ([], failing)"
| "demo_serve service_name ((req, listening) # reqs) failing =
     (let (r, failing') = demo_handle service_name listening req failing;
          (rs, failing'') = demo_serve service_name reqs failing' in
      (r # rs, failing''))"

section \<open>What the dispatch can return\<close>

text \<open>The bounds on every action, whatever the query says.\<close>

fun action_ok :: "action \<Rightarrow> bool" where
  "action_ok (Slow ms) = (ms \<le> 60000)"
| "action_ok (Stream chunks interval_ms) = (chunks \<le> 100)"
| "action_ok (Status code) = (100 \<le> code \<and> code \<le> 599)"
| "action_ok _ = True"

lemma route_action_ok: "action_ok (route_action path query failing)"
  by (simp add: route_action_def Let_def split: option.split)

lemma produce_length: "length (produce listening i n) \<le> n"
  by (induction n arbitrary: i) (simp_all)

definition served_by :: "string \<Rightarrow> demo_response \<Rightarrow> bool" where
  "served_by nm r \<longleftrightarrow> filter (\<lambda>h. fst h = ''x-served-by'') (dr_headers r) = [(''x-served-by'', nm)]"

text \<open>C37. No request makes the demo upstream panic, if its name is a valid header value: every response has a status
  between 100 and 599 and names the service once, is delayed by at most a minute and streams at most a
  hundred chunks.\<close>

theorem demo_responses_wellformed:
  assumes "valid_value nm"
  shows "case fst (demo_handle nm listening req failing) of
      Inl _ \<Rightarrow> False
    | Inr r \<Rightarrow> 100 \<le> dr_status r \<and> dr_status r \<le> 599 \<and> served_by nm r \<and> dr_after_ms r \<le> 60000
        \<and> (case dr_body r of Chunks _ cs \<Rightarrow> length cs \<le> 100 | _ \<Rightarrow> True)"
proof -
  show ?thesis
    using assms route_action_ok [of "dq_path req" "dq_query req" failing] le_trans [OF produce_length]
    by (cases "route_action (dq_path req) (dq_query req) failing")
       (auto simp: demo_handle_def Let_def text_response_def stream_response_def echo_response_def served_by_def)
qed

definition demo_get_request :: "string \<Rightarrow> string option \<Rightarrow> demo_request" where
  "demo_get_request path query = \<lparr>dq_method = ''GET'', dq_path = path, dq_query = query, dq_headers = [], dq_body = []\<rparr>"

theorem demo_responses_wellformed_witness:
  "case fst (demo_handle ''orders'' (\<lambda>_. True) (demo_get_request ''/api/stream'' (Some ''interval_ms=5&chunks=2'')) False) of
     Inl _ \<Rightarrow> False
   | Inr r \<Rightarrow> served_by ''orders'' r \<and> dr_body r = Chunks 5 [chunk 0, chunk 1]"
proof -
  let ?h = "fst (demo_handle ''orders'' (\<lambda>_. True) (demo_get_request ''/api/stream'' (Some ''interval_ms=5&chunks=2'')) False)"
  have v: "valid_value ''orders''" by code_simp
  have "case ?h of Inl _ \<Rightarrow> False | Inr r \<Rightarrow> dr_body r = Chunks 5 [chunk 0, chunk 1]" by code_simp
  with demo_responses_wellformed [OF v, of "\<lambda>_. True" "demo_get_request ''/api/stream'' (Some ''interval_ms=5&chunks=2'')" False]
  show ?thesis by (cases ?h) simp_all
qed

section \<open>The fail mode\<close>

text \<open>A request to switch the mode, and the mode a sequence of requests leaves.\<close>

definition is_switch :: "demo_request \<Rightarrow> bool" where
  "is_switch req \<longleftrightarrow> suffix ''/admin/fail'' (dq_path req)"

definition switched :: "demo_request list \<Rightarrow> bool \<Rightarrow> bool" where
  "switched reqs failing =
     (let switches = filter is_switch reqs in
      if switches = [] then failing else query_param (dq_query (last switches)) ''on'' = Some ''1'')"

lemma demo_handle_mode: "snd (demo_handle nm listening req failing) = switched [req] failing"
  by (simp add: demo_handle_def Let_def switched_def is_switch_def route_action_def split: option.split)

lemma switched_append: "switched (xs @ ys) f = switched ys (switched xs f)"
  by (simp add: switched_def Let_def)

lemma demo_serve_nth:
  "snd (demo_serve nm reqs failing) = switched (map fst reqs) failing
   \<and> length (fst (demo_serve nm reqs failing)) = length reqs
   \<and> (\<forall>i < length reqs. fst (demo_serve nm reqs failing) ! i
         = fst (demo_handle nm (snd (reqs ! i)) (fst (reqs ! i)) (switched (map fst (take i reqs)) failing)))"
proof (induction reqs arbitrary: failing)
  case Nil
  show ?case by (simp add: switched_def)
next
  case (Cons x reqs)
  obtain req l where x: "x = (req, l)" by fastforce
  have m: "switched (req # rs) failing = switched rs (snd (demo_handle nm l req failing))" for rs
    using switched_append [of "[req]" rs failing] by (simp add: demo_handle_mode)
  show ?case
    using Cons.IH [of "snd (demo_handle nm l req failing)"]
    by (auto simp: x m less_Suc_eq_0_disj switched_def [of "[]"] split: prod.splits)
qed

text \<open>While the fail mode is on, and only then, every request but those that switch it is answered 503
  \<open>failing\<close>; the switch itself is always answered 200, so the mode can be left. The mode is the one asked for
  last.\<close>

theorem fail_mode_exact:
  assumes "valid_value nm" and "i < length reqs" and "reqs ! i = (req, l)"
    and "mode = switched (map fst (take i reqs)) False"
  shows "\<exists>r. fst (demo_serve nm reqs False) ! i = Inr r
    \<and> (is_switch req \<longrightarrow> dr_status r = 200 \<and> dr_body r = Full ''ok'')
    \<and> (\<not> is_switch req \<longrightarrow> (mode \<longleftrightarrow> dr_status r = 503 \<and> dr_body r = Full ''failing''))"
proof -
  have h: "fst (demo_serve nm reqs False) ! i = fst (demo_handle nm l req mode)"
    using demo_serve_nth [of nm reqs False] assms(2-4) by simp
  show ?thesis
    using assms(1) route_action_ok [of "dq_path req" "dq_query req" mode] unfolding h
    by (cases "route_action (dq_path req) (dq_query req) mode")
       (auto simp: demo_handle_def Let_def text_response_def stream_response_def echo_response_def is_switch_def
          route_action_def split: if_splits option.splits)
qed

theorem fail_mode_exact_witness:
  "let reqs = [(demo_get_request ''/x/admin/fail'' (Some ''a=b&on=1''), \<lambda>_. True), (demo_get_request ''/health'' None, \<lambda>_. True)] in
   \<exists>r. fst (demo_serve ''demo'' reqs False) ! 1 = Inr r \<and> dr_status r = 503 \<and> dr_body r = Full ''failing''"
proof -
  let ?reqs = "[(demo_get_request ''/x/admin/fail'' (Some ''a=b&on=1''), \<lambda>_. True), (demo_get_request ''/health'' None, \<lambda>_. True)]"
  have "valid_value ''demo''" "\<not> is_switch (demo_get_request ''/health'' None)"
    "switched (map fst (take 1 ?reqs)) False" by code_simp+
  with fail_mode_exact [of "''demo''" 1 ?reqs "demo_get_request ''/health'' None" "\<lambda>_. True" True] show ?thesis
    unfolding Let_def by simp
qed

section \<open>Under the health checker\<close>

text \<open>The answers of a demo upstream at an authority to the health checker's requests.\<close>

definition demo_get :: "string \<Rightarrow> string \<Rightarrow> bool \<Rightarrow> string \<Rightarrow> nat option" where
  "demo_get nm authority failing url =
     (case strip_prefix (''http://'' @ authority) url of
        None \<Rightarrow> None
      | Some path \<Rightarrow>
          (case fst (demo_handle nm (\<lambda>_. True) (demo_get_request path None) failing) of
             Inr r \<Rightarrow> Some (dr_status r)
           | Inl _ \<Rightarrow> None))"

lemma demo_get_health:
  assumes "valid_value nm" and "uri_scheme u = Some ''http''" and "uri_authority u = Some a"
  shows "is_healthy (demo_get nm a failing (health_url u ''/health'')) \<longleftrightarrow> \<not> failing"
proof -
  have "\<not> suffix ''/admin/fail'' ''/health''" by code_simp
  moreover have "strip_prefix (''http://'' @ a) (health_url u ''/health'') = Some ''/health''"
    unfolding strip_prefix_Some health_url_def assms by simp
  ultimately show ?thesis
    using assms(1)
    by (simp add: demo_get_def demo_handle_def route_action_def demo_get_request_def text_response_def is_healthy_def)
qed

text \<open>The outage of the demonstration, from switch to switch. After \<open>/admin/fail?on=1\<close> the checked upstream fails
  its health checks: after as many ticks as are left to its threshold its circuit is open, and requests are
  refused for the cooldown. After \<open>/admin/fail?on=0\<close> one tick closes the circuit and requests are admitted.\<close>

theorem outage_and_recovery:
  assumes "valid_value nm" and "uri_scheme (u_uri u) = Some ''http''" and "uri_authority (u_uri u) = Some a"
    and "health_path u = ''/health''"
    and "suffix ''/admin/fail'' p"
    and "on = snd (demo_handle nm l (demo_get_request p (Some ''on=1'')) f0)"
    and "off = snd (demo_handle nm l (demo_get_request p (Some ''on=0'')) on)"
    and "table_ok t s" and "\<forall>b \<in> set (breakers s). breaker_inv b" and "u \<in> set (probed t)"
    and "phase (abs_breaker (breakers s ! u_breaker u)) = Shut n"
    and "outage \<noteq> []" and "\<forall>order \<in> set outage. tick_of t order" and "tick_of t recovery"
    and "threshold (abs_breaker (breakers s ! u_breaker u)) \<le> n + length outage"
    and "s1 = ticks (demo_get nm a on) t outage s" and "s2 = health_tick (demo_get nm a off) t recovery s1"
  shows "\<exists>t0. phase (abs_breaker (breakers s1 ! u_breaker u)) = Tripped t0
    \<and> (\<forall>now. unat now - t0 < cooldown (abs_breaker (breakers s ! u_breaker u)) \<longrightarrow>
         fst (upstream_try_acquire u (s1\<lparr>st_clock := now\<rparr>)) = None)
    \<and> (\<forall>now. fst (upstream_try_acquire u (s2\<lparr>st_clock := now\<rparr>)) = Some Normal)"
proof -
  have mode: "on" "\<not> off"
    using assms(5-7) by (simp_all add: demo_handle_def route_action_def demo_get_request_def query_param_def split_once_def Let_def)
  note h = demo_get_health [OF assms(1-3), folded assms(4)]
  obtain t0 where t0: "abs_breaker (breakers s1 ! u_breaker u) = (abs_breaker (breakers s ! u_breaker u))\<lparr>phase := Tripped t0\<rparr>"
    using failing_ticks [OF assms(8-10) _ assms(11,13), of "demo_get nm a on"] mode(1) h [of on] assms(12,15)
    unfolding assms(16) by (auto simp: not_less)
  have k: "table_ok t s1" "\<forall>b \<in> set (breakers s1). breaker_inv b"
    using ticks_keep [OF assms(8,13,9)] unfolding assms(16) by auto
  have k2: "table_ok t s2" "\<forall>b \<in> set (breakers s2). breaker_inv b"
    using tick_keeps [OF k(1) assms(14) k(2)] unfolding assms(17) by auto
  have i: "u_breaker u < length (breakers s')" if "table_ok t s'" for s'
    using assms(10) that unseen_sub [of "[]" "routes t"] unfolding probed_def upstreams_def table_ok_def by fastforce
  have "phase (abs_breaker (breakers s2 ! u_breaker u)) = Shut 0"
    using tick_view [OF k(1) assms(14) k(2) assms(10), of "demo_get nm a off"] mode(2) h [of off] t0
    unfolding assms(17) by auto
  then have "fst (upstream_try_acquire u (s2\<lparr>st_clock := now\<rparr>)) = Some Normal" for now
    using try_acquire_store(1) [of u "s2\<lparr>st_clock := now\<rparr>"] shut_admits i [OF k2(1)] k2(2) by fastforce
  moreover have "fst (upstream_try_acquire u (s1\<lparr>st_clock := now\<rparr>)) = None"
    if "unat now - t0 < cooldown (abs_breaker (breakers s ! u_breaker u))" for now
    using try_acquire_store(1) [of u "s1\<lparr>st_clock := now\<rparr>"] tripped_refuses [of "breakers s1 ! u_breaker u" t0 now]
      i [OF k(1)] k(2) t0 that by simp
  ultimately show ?thesis using t0 by auto
qed

theorem outage_and_recovery_witness:
  "let t = table_new [sample_route ''/api''] 0; u = r_upstream (sample_route ''/api'');
       s = \<lparr>breakers = [default_breaker\<lparr>b_consecutive_failures := 1\<rparr>], st_clock = 0, st_log = []\<rparr>;
       s1 = ticks (demo_get ''users'' ''a:81'' True) t [[(u, 7)], [(u, 8)]] s;
       s2 = health_tick (demo_get ''users'' ''a:81'' False) t [(u, 9)] s1 in
   (\<exists>t0. phase (abs_breaker (breakers s1 ! 0)) = Tripped t0) \<and> fst (upstream_try_acquire u (s2\<lparr>st_clock := 10\<rparr>)) = Some Normal"
proof -
  let ?t = "table_new [sample_route ''/api''] 0" and ?u = "r_upstream (sample_route ''/api'')"
  let ?s = "\<lparr>breakers = [default_breaker\<lparr>b_consecutive_failures := 1\<rparr>], st_clock = 0, st_log = []\<rparr>"
  have v: "valid_value ''users''" "uri_scheme (u_uri ?u) = Some ''http''" "uri_authority (u_uri ?u) = Some ''a:81''"
    "health_path ?u = ''/health''" "suffix ''/admin/fail'' ''/admin/fail''"
    "True = snd (demo_handle ''users'' (\<lambda>_. True) (demo_get_request ''/admin/fail'' (Some ''on=1'')) False)"
    "False = snd (demo_handle ''users'' (\<lambda>_. True) (demo_get_request ''/admin/fail'' (Some ''on=0'')) True)"
    by code_simp+
  have "(1 :: u32) < - 1" by code_simp
  then have i: "\<forall>b \<in> set (breakers ?s). breaker_inv b" by (simp add: breaker_inv_def default_breaker_def)
  have t: "table_ok ?t ?s" "?u \<in> set (probed ?t)" "\<forall>order \<in> set [[(?u, 7)], [(?u, 8)]]. tick_of ?t order" "tick_of ?t [(?u, 9)]"
    "u_breaker ?u = 0" by code_simp+
  have p: "phase (abs_breaker (breakers ?s ! u_breaker ?u)) = Shut 1"
    "threshold (abs_breaker (breakers ?s ! u_breaker ?u)) \<le> 1 + length [[(?u, 7)], [(?u, 8)]]"
    unfolding t(5) by (simp_all add: abs_breaker_def default_breaker_def)
  have "\<exists>t0. phase (abs_breaker (breakers (ticks (demo_get ''users'' ''a:81'' True) ?t [[(?u, 7)], [(?u, 8)]] ?s) ! u_breaker ?u)) = Tripped t0"
    "fst (upstream_try_acquire ?u ((health_tick (demo_get ''users'' ''a:81'' False) ?t [(?u, 9)]
       (ticks (demo_get ''users'' ''a:81'' True) ?t [[(?u, 7)], [(?u, 8)]] ?s))\<lparr>st_clock := 10\<rparr>)) = Some Normal"
    using outage_and_recovery [OF v t(1) i t(2) p(1) _ t(3,4) p(2) refl refl] by auto
  then show ?thesis unfolding Let_def t(5) by (rule conjI)
qed

end
