(* ===== verification/Serve.thy ===== *)
theory Serve
  imports Server_Main
begin

text \<open>
  The running server: the accept loop, the connection tasks and the drain of \<open>serve\<close> in
  \<open>crates/server/src/lib.rs\<close>, together with the \<open>shutdown\<close> future and the second signal of \<open>main\<close>, as a timed state
  machine. A step is an event of the environment (a client, a signal, a reload, a failing \<open>accept\<close>) or a turn of
  one of the tasks. Timers fire on time: time does not pass beyond the end of one that a task is waiting on.

  What hyper does on a connection, and when it ends it, is the environment's; so is what \<open>accept\<close> returns.
\<close>

section \<open>Connections\<close>

definition handshake_timeout :: duration where
  "handshake_timeout = from_secs 10"

definition accept_pause :: duration where
  "accept_pause = from_millis 100"

definition proto_of :: "bool \<Rightarrow> string" where
  "proto_of tls = (if tls then ''https'' else ''http'')"

text \<open>A connection task is in its TLS handshake, serving without having seen a request, serving, or over; the
  first two with the end of their timer.\<close>

datatype conn_phase = Handshaking duration | Expecting duration | Served | Over

record conn =
  cn_accepted :: duration
  cn_keepalive :: duration
  cn_phase :: conn_phase

definition conn_new :: "bool \<Rightarrow> route_table \<Rightarrow> duration \<Rightarrow> conn" where
  "conn_new tls t now =
     \<lparr>cn_accepted = now, cn_keepalive = keepalive_timeout t,
      cn_phase = (if tls then Handshaking (now + handshake_timeout) else Expecting (now + handshake_timeout))\<rparr>"

text \<open>What happens to a connection: the handshake succeeds or fails, a request comes in, hyper ends the connection,
  or the timer fires.\<close>

datatype conn_event = HandshakeDone | HandshakeFailed | Request | Finished | Timer

fun conn_step :: "duration \<Rightarrow> conn_event \<Rightarrow> conn_phase \<Rightarrow> conn_phase option" where
  "conn_step now HandshakeDone (Handshaking u) = Some (Expecting (now + handshake_timeout))"
| "conn_step now HandshakeFailed (Handshaking u) = Some Over"
| "conn_step now Timer (Handshaking u) = (if u \<le> now then Some Over else None)"
| "conn_step now Request (Expecting u) = Some Served"
| "conn_step now Finished (Expecting u) = Some Over"
| "conn_step now Timer (Expecting u) = (if u \<le> now then Some Over else None)"
| "conn_step now Request Served = Some Served"
| "conn_step now Finished Served = Some Over"
| "conn_step now _ _ = None"

fun conn_due :: "conn_phase \<Rightarrow> duration \<Rightarrow> bool" where
  "conn_due (Handshaking u) t = (t \<le> u)"
| "conn_due (Expecting u) t = (t \<le> u)"
| "conn_due _ t = True"

section \<open>The server\<close>

text \<open>
  The task of \<open>main\<close>: in the \<open>select!\<close> of the accept loop, pausing after a failed \<open>accept\<close>, draining, or gone with an exit
  code. It polls the \<open>shutdown\<close> future only in the first of these. That future waits for a signal, then sleeps.
  \<open>sv_pauses\<close> is not state of the program: it counts the pauses that a shutdown has had to wait for.
\<close>

datatype loop_phase = Accepting | Pausing duration | Draining duration | Exited nat

datatype shutdown_phase = AwaitSignal | Delay duration

record server =
  sv_now :: duration
  sv_table :: route_table
  sv_loop :: loop_phase
  sv_shutdown :: shutdown_phase
  sv_signal :: "duration option"
  sv_draining :: bool
  sv_listening :: bool
  sv_conns :: "conn list"
  sv_pauses :: nat

definition server_new :: "route_table \<Rightarrow> duration \<Rightarrow> server" where
  "server_new t now =
     \<lparr>sv_now = now, sv_table = t, sv_loop = Accepting, sv_shutdown = AwaitSignal, sv_signal = None,
      sv_draining = False, sv_listening = True, sv_conns = [], sv_pauses = 0\<rparr>"

fun loop_due :: "loop_phase \<Rightarrow> shutdown_phase \<Rightarrow> duration option \<Rightarrow> duration \<Rightarrow> bool" where
  "loop_due Accepting (Delay u) sig t = (t \<le> u)"
| "loop_due Accepting AwaitSignal sig t = (sig = None)"
| "loop_due (Pausing u) sh sig t = (t \<le> u)"
| "loop_due (Draining u) sh sig t = (t \<le> u)"
| "loop_due (Exited c) sh sig t = False"

definition may_pass :: "server \<Rightarrow> duration \<Rightarrow> bool" where
  "may_pass s t \<longleftrightarrow> loop_due (sv_loop s) (sv_shutdown s) (sv_signal s) t \<and> list_all (\<lambda>c. conn_due (cn_phase c) t) (sv_conns s)"

fun exited :: "loop_phase \<Rightarrow> bool" where
  "exited (Exited c) = True"
| "exited _ = False"

text \<open>\<open>installable\<close> are the tables a reload may put in place; \<open>second\<close> says whether a second signal is listened for, as
  \<open>main\<close> does.\<close>

inductive serve_step :: "bool \<Rightarrow> bool \<Rightarrow> (route_table \<Rightarrow> bool) \<Rightarrow> server \<Rightarrow> server \<Rightarrow> bool" for tls second installable where
  time: "sv_now s < t \<Longrightarrow> may_pass s t \<Longrightarrow> serve_step tls second installable s (s\<lparr>sv_now := t\<rparr>)"
| reload: "installable t \<Longrightarrow> \<not> exited (sv_loop s) \<Longrightarrow> serve_step tls second installable s (s\<lparr>sv_table := t\<rparr>)"
| accepted: "sv_loop s = Accepting \<Longrightarrow> serve_step tls second installable s
    (s\<lparr>sv_conns := sv_conns s @ [conn_new tls (sv_table s) (sv_now s)]\<rparr>)"
| accept_failed: "sv_loop s = Accepting \<Longrightarrow> serve_step tls second installable s
    (s\<lparr>sv_loop := Pausing (sv_now s + accept_pause), sv_pauses := sv_pauses s + 1\<rparr>)"
| resumed: "sv_loop s = Pausing u \<Longrightarrow> u \<le> sv_now s \<Longrightarrow> serve_step tls second installable s (s\<lparr>sv_loop := Accepting\<rparr>)"
| connection: "i < length (sv_conns s) \<Longrightarrow> conn_step (sv_now s) e (cn_phase (sv_conns s ! i)) = Some p \<Longrightarrow> \<not> exited (sv_loop s) \<Longrightarrow>
    serve_step tls second installable s (s\<lparr>sv_conns := (sv_conns s)[i := (sv_conns s ! i)\<lparr>cn_phase := p\<rparr>]\<rparr>)"
| signalled: "sv_signal s = None \<Longrightarrow> \<not> exited (sv_loop s) \<Longrightarrow> serve_step tls second installable s
    (s\<lparr>sv_signal := Some (sv_now s), sv_pauses := (case sv_loop s of Pausing _ \<Rightarrow> 1 | _ \<Rightarrow> 0)\<rparr>)"
| taken: "sv_loop s = Accepting \<Longrightarrow> sv_shutdown s = AwaitSignal \<Longrightarrow> sv_signal s \<noteq> None \<Longrightarrow> serve_step tls second installable s
    (s\<lparr>sv_draining := True, sv_shutdown := Delay (sv_now s + shutdown_delay (sv_table s))\<rparr>)"
| closed: "sv_loop s = Accepting \<Longrightarrow> sv_shutdown s = Delay u \<Longrightarrow> u \<le> sv_now s \<Longrightarrow> serve_step tls second installable s
    (s\<lparr>sv_loop := Draining (sv_now s + drain_timeout (sv_table s)), sv_listening := False\<rparr>)"
| drained: "sv_loop s = Draining u \<Longrightarrow> list_all (\<lambda>c. cn_phase c = Over) (sv_conns s) \<Longrightarrow> serve_step tls second installable s
    (s\<lparr>sv_loop := Exited 0\<rparr>)"
| gave_up: "sv_loop s = Draining u \<Longrightarrow> u \<le> sv_now s \<Longrightarrow> serve_step tls second installable s (s\<lparr>sv_loop := Exited 0\<rparr>)"
| second_signal: "second \<Longrightarrow> sv_shutdown s = Delay u \<Longrightarrow> \<not> exited (sv_loop s) \<Longrightarrow> serve_step tls second installable s
    (s\<lparr>sv_loop := Exited 130\<rparr>)"

inductive_cases serve_stepE: "serve_step tls second installable s s'"

definition serve_reaches :: "bool \<Rightarrow> bool \<Rightarrow> (route_table \<Rightarrow> bool) \<Rightarrow> server \<Rightarrow> bool" where
  "serve_reaches tls second installable s \<longleftrightarrow>
     (\<exists>t now. installable t \<and> (serve_step tls second installable)\<^sup>*\<^sup>* (server_new t now) s)"

lemma serve_reaches_induct [consumes 1, case_names start step]:
  assumes "serve_reaches tls second installable s"
    and "\<And>t now. installable t \<Longrightarrow> P (server_new t now)"
    and "\<And>s s'. serve_reaches tls second installable s \<Longrightarrow> P s \<Longrightarrow> serve_step tls second installable s s' \<Longrightarrow> P s'"
  shows "P s"
proof -
  obtain t now where "installable t" "(serve_step tls second installable)\<^sup>*\<^sup>* (server_new t now) s"
    using assms(1) by (auto simp: serve_reaches_def)
  then have "serve_reaches tls second installable s \<and> P s"
  proof (induction rule: rtranclp_induct [consumes 1, OF \<open>(serve_step tls second installable)\<^sup>*\<^sup>* (server_new t now) s\<close>, case_names base step])
    case base
    then show ?case using assms(2) unfolding serve_reaches_def by blast
  next
    case (step s s')
    then show ?case using assms(3) unfolding serve_reaches_def by (meson rtranclp.rtrancl_into_rtrancl)
  qed
  then show ?thesis by simp
qed

section \<open>Connections do not linger\<close>

text \<open>How long a client has until its first request: the time of a handshake, twice if there is one.\<close>

definition grace :: "bool \<Rightarrow> duration" where
  "grace tls = (if tls then 2 * handshake_timeout else handshake_timeout)"

definition conn_inv :: "bool \<Rightarrow> duration \<Rightarrow> conn \<Rightarrow> bool" where
  "conn_inv tls now c \<longleftrightarrow> cn_accepted c \<le> now \<and>
     (case cn_phase c of
        Handshaking u \<Rightarrow> tls \<and> now \<le> u \<and> u = cn_accepted c + handshake_timeout
      | Expecting u \<Rightarrow> now \<le> u \<and> u \<le> cn_accepted c + grace tls
      | _ \<Rightarrow> True)"

lemma conn_inv_new: "conn_inv tls now (conn_new tls t now)"
  by (simp add: conn_inv_def conn_new_def grace_def)

lemma conn_inv_step:
  assumes "conn_inv tls now c" and "conn_step now e (cn_phase c) = Some p"
  shows "conn_inv tls now (c\<lparr>cn_phase := p\<rparr>)"
  using assms by (cases "(now, e, cn_phase c)" rule: conn_step.cases) (auto simp: conn_inv_def grace_def split: if_splits)

lemma conn_inv_time: "conn_inv tls now c \<Longrightarrow> now < t \<Longrightarrow> conn_due (cn_phase c) t \<Longrightarrow> conn_inv tls t c"
  by (cases "cn_phase c") (auto simp: conn_inv_def)

lemma conns_inv_step:
  assumes "serve_step tls second installable s s'" and "list_all (conn_inv tls (sv_now s)) (sv_conns s)"
  shows "list_all (conn_inv tls (sv_now s')) (sv_conns s')"
  using assms(1)
proof (cases rule: serve_step.cases)
  case (time t)
  then show ?thesis using assms(2) by (auto simp: list_all_iff may_pass_def intro: conn_inv_time)
next
  case (connection i e p)
  then show ?thesis using assms(2) conn_inv_step by (auto simp: list_all_length nth_list_update)
qed (use assms(2) conn_inv_new in auto)

lemma conns_inv:
  assumes "serve_reaches tls second installable s"
  shows "list_all (conn_inv tls (sv_now s)) (sv_conns s)"
  using assms
proof (induction rule: serve_reaches_induct)
  case (start t now)
  show ?case by (simp add: server_new_def)
next
  case (step s s')
  from conns_inv_step [OF step.hyps(2) step.IH] show ?case .
qed

text \<open>C35. No client can hold a connection open without sending a request. Ten seconds after it was accepted, twenty
  with TLS, a connection has had its first request or is over, whatever the client sends or does not send. The
  timer never ends a connection that has had one.\<close>

theorem idle_connections_closed:
  assumes "serve_reaches tls second installable s" and "c \<in> set (sv_conns s)"
    and "cn_accepted c + from_secs (if tls then 20 else 10) < sv_now s"
  shows "cn_phase c = Over \<or> cn_phase c = Served \<and> conn_step now Timer (cn_phase c) = None"
proof -
  have "conn_inv tls (sv_now s) c" using conns_inv [OF assms(1)] assms(2) by (simp add: list_all_iff)
  then show ?thesis
    using assms(3) by (auto simp: conn_inv_def grace_def handshake_timeout_def from_secs_def split: conn_phase.splits if_splits)
qed

section \<open>Shutting down\<close>

text \<open>The tables that may be in place: the bounds of their delays and of their drain times.\<close>

definition within :: "duration \<Rightarrow> duration \<Rightarrow> duration \<Rightarrow> duration \<Rightarrow> route_table \<Rightarrow> bool" where
  "within dmin dmax rmin rmax t \<longleftrightarrow>
     dmin \<le> shutdown_delay t \<and> shutdown_delay t \<le> dmax \<and> rmin \<le> drain_timeout t \<and> drain_timeout t \<le> rmax"

text \<open>The time by which the delay is over, and the invariant of the machine.\<close>

definition delay_over :: "duration \<Rightarrow> duration \<Rightarrow> server \<Rightarrow> duration" where
  "delay_over dmax t0 s = t0 + sv_pauses s * accept_pause + dmax"

fun loop_inv :: "bool \<Rightarrow> duration \<Rightarrow> duration \<Rightarrow> duration \<Rightarrow> duration \<Rightarrow> server \<Rightarrow> duration option \<Rightarrow> shutdown_phase \<Rightarrow> loop_phase \<Rightarrow> bool" where
  "loop_inv second dmin dmax rmin rmax s None AwaitSignal Accepting = True"
| "loop_inv second dmin dmax rmin rmax s None AwaitSignal (Pausing u) = (sv_now s \<le> u \<and> u \<le> sv_now s + accept_pause)"
| "loop_inv second dmin dmax rmin rmax s (Some t0) AwaitSignal Accepting = (sv_now s \<le> delay_over 0 t0 s)"
| "loop_inv second dmin dmax rmin rmax s (Some t0) AwaitSignal (Pausing u) = (sv_now s \<le> u \<and> u \<le> delay_over 0 t0 s)"
| "loop_inv second dmin dmax rmin rmax s (Some t0) (Delay d) Accepting = (sv_now s \<le> delay_over dmax t0 s)"
| "loop_inv second dmin dmax rmin rmax s (Some t0) (Delay d) (Pausing u) = (sv_now s \<le> u \<and> u \<le> delay_over dmax t0 s)"
| "loop_inv second dmin dmax rmin rmax s (Some t0) (Delay d) (Draining u) =
     (d \<le> sv_now s \<and> sv_now s \<le> u \<and> t0 + dmin + rmin \<le> u \<and> u \<le> delay_over dmax t0 s + rmax)"
| "loop_inv second dmin dmax rmin rmax s (Some t0) (Delay d) (Exited c) =
     (sv_now s \<le> delay_over dmax t0 s + rmax
      \<and> (second \<and> c = 130
          \<or> c = 0 \<and> d \<le> sv_now s \<and> (list_all (\<lambda>c. cn_phase c = Over) (sv_conns s) \<or> t0 + dmin + rmin \<le> sv_now s)))"
| "loop_inv second dmin dmax rmin rmax s sig sh l = False"

definition server_inv :: "bool \<Rightarrow> duration \<Rightarrow> duration \<Rightarrow> duration \<Rightarrow> duration \<Rightarrow> server \<Rightarrow> bool" where
  "server_inv second dmin dmax rmin rmax s \<longleftrightarrow>
     within dmin dmax rmin rmax (sv_table s)
     \<and> loop_inv second dmin dmax rmin rmax s (sv_signal s) (sv_shutdown s) (sv_loop s)
     \<and> (case sv_signal s of None \<Rightarrow> True | Some t0 \<Rightarrow> t0 \<le> sv_now s)
     \<and> (case sv_shutdown s of
          AwaitSignal \<Rightarrow> \<not> sv_draining s \<and> sv_listening s
        | Delay d \<Rightarrow> sv_draining s \<and> (\<exists>t0. sv_signal s = Some t0 \<and> t0 + dmin \<le> d \<and> d \<le> delay_over dmax t0 s)
            \<and> (\<not> sv_listening s \<longrightarrow> d \<le> sv_now s))"

lemma server_inv_step:
  assumes "serve_step tls second installable s s'" and "\<forall>t. installable t \<longrightarrow> within dmin dmax rmin rmax t"
    and "server_inv second dmin dmax rmin rmax s"
  shows "server_inv second dmin dmax rmin rmax s'"
  using assms(1)
proof (cases rule: serve_step.cases)
  case (time t)
  then show ?thesis using assms(3)
    by (cases "(second, dmin, dmax, rmin, rmax, s, sv_signal s, sv_shutdown s, sv_loop s)" rule: loop_inv.cases)
       (auto simp: server_inv_def may_pass_def delay_over_def)
next
  case (reload t)
  then show ?thesis using assms(2,3)
    by (cases "(second, dmin, dmax, rmin, rmax, s, sv_signal s, sv_shutdown s, sv_loop s)" rule: loop_inv.cases)
       (auto simp: server_inv_def delay_over_def)
qed (use assms(3) in \<open>cases "(second, dmin, dmax, rmin, rmax, s, sv_signal s, sv_shutdown s, sv_loop s)" rule: loop_inv.cases;
       force simp: server_inv_def delay_over_def within_def split: option.splits\<close>)+

lemma server_inv_reach:
  assumes "serve_reaches tls second installable s" and "\<forall>t. installable t \<longrightarrow> within dmin dmax rmin rmax t"
  shows "server_inv second dmin dmax rmin rmax s"
  using assms(1)
proof (induction rule: serve_reaches_induct)
  case (start t now)
  then show ?case using assms(2) by (simp add: server_inv_def server_new_def)
next
  case (step s s')
  from server_inv_step [OF step.hyps(2) assms(2) step.IH] show ?case .
qed

text \<open>What is left of a shutdown: the phases to come, the time to the end of this one, the connections not over.\<close>

fun phases_left :: "shutdown_phase \<Rightarrow> loop_phase \<Rightarrow> nat" where
  "phases_left AwaitSignal (Pausing u) = 5"
| "phases_left AwaitSignal l = 4"
| "phases_left (Delay d) (Pausing u) = 3"
| "phases_left (Delay d) Accepting = 2"
| "phases_left (Delay d) (Draining u) = 1"
| "phases_left (Delay d) (Exited c) = 0"

fun phase_end :: "shutdown_phase \<Rightarrow> loop_phase \<Rightarrow> duration" where
  "phase_end sh (Pausing u) = u"
| "phase_end sh (Draining u) = u"
| "phase_end (Delay d) Accepting = d"
| "phase_end sh l = 0"

definition remaining :: "(server \<times> server) set" where
  "remaining = measures [\<lambda>s. phases_left (sv_shutdown s) (sv_loop s),
     \<lambda>s. phase_end (sv_shutdown s) (sv_loop s) - sv_now s,
     \<lambda>s. length (filter (\<lambda>c. cn_phase c \<noteq> Over) (sv_conns s))]"

text \<open>A step without the help of clients, and without other signals, reloads or failures: connections change only when their
  timer fires.\<close>

definition unaided :: "bool \<Rightarrow> bool \<Rightarrow> (route_table \<Rightarrow> bool) \<Rightarrow> server \<Rightarrow> server \<Rightarrow> bool" where
  "unaided tls second installable s s' \<longleftrightarrow> serve_step tls second installable s s'
     \<and> sv_table s' = sv_table s \<and> sv_signal s' = sv_signal s \<and> sv_pauses s' = sv_pauses s
     \<and> length (sv_conns s') = length (sv_conns s)
     \<and> (\<forall>i < length (sv_conns s). sv_conns s' ! i \<noteq> sv_conns s ! i \<longrightarrow> \<not> conn_due (cn_phase (sv_conns s ! i)) (sv_now s + 1))"

text \<open>A connection whose time is up is ended by its timer, and when there is none time may pass.\<close>

lemma timer_or_time:
  assumes "list_all (conn_inv tls (sv_now s)) (sv_conns s)" and "\<not> exited (sv_loop s)"
    and "loop_due (sv_loop s) (sv_shutdown s) (sv_signal s) (sv_now s + 1)"
    and "sv_now s < phase_end (sv_shutdown s) (sv_loop s)"
  shows "\<exists>s'. unaided tls second installable s s' \<and> (s', s) \<in> remaining \<and> sv_loop s' = sv_loop s"
proof (cases "list_all (\<lambda>c. conn_due (cn_phase c) (sv_now s + 1)) (sv_conns s)")
  case True
  with assms(3) have "serve_step tls second installable s (s\<lparr>sv_now := sv_now s + 1\<rparr>)"
    by (auto intro: serve_step.time simp: may_pass_def)
  then show ?thesis using assms(4) by (intro exI [of _ "s\<lparr>sv_now := sv_now s + 1\<rparr>"]) (auto simp: remaining_def unaided_def)
next
  case False
  then obtain i where i: "i < length (sv_conns s)" "\<not> conn_due (cn_phase (sv_conns s ! i)) (sv_now s + 1)"
    by (auto simp: list_all_length)
  let ?s = "s\<lparr>sv_conns := (sv_conns s)[i := (sv_conns s ! i)\<lparr>cn_phase := Over\<rparr>]\<rparr>"
  have t: "conn_step (sv_now s) Timer (cn_phase (sv_conns s ! i)) = Some Over" and ne: "cn_phase (sv_conns s ! i) \<noteq> Over"
    using i by (cases "cn_phase (sv_conns s ! i)"; auto)+
  have "serve_step tls second installable s ?s" by (rule serve_step.connection [OF i(1) t assms(2)])
  moreover have "length (filter (\<lambda>c. cn_phase c \<noteq> Over) (sv_conns ?s)) < length (filter (\<lambda>c. cn_phase c \<noteq> Over) (sv_conns s))"
    using i(1) ne by (subst id_take_nth_drop [OF i(1)]) (simp add: upd_conv_take_nth_drop)
  ultimately show ?thesis
    using i by (intro exI [of _ ?s]) (auto simp: remaining_def unaided_def nth_list_update)
qed

lemma shutdown_moves:
  assumes "list_all (conn_inv tls (sv_now s)) (sv_conns s)" and "server_inv second dmin dmax rmin rmax s"
    and "sv_signal s \<noteq> None" and "\<not> exited (sv_loop s)"
  shows "\<exists>s'. unaided tls second installable s s' \<and> (s', s) \<in> remaining
    \<and> (exited (sv_loop s') \<longrightarrow> sv_loop s' = Exited 0)"
proof -
  consider (pausing) u where "sv_loop s = Pausing u" | (signal) "sv_loop s = Accepting" "sv_shutdown s = AwaitSignal"
    | (delay) d where "sv_loop s = Accepting" "sv_shutdown s = Delay d"
    | (draining) u d where "sv_loop s = Draining u" "sv_shutdown s = Delay d"
    using assms(2-4) by (cases "sv_loop s"; cases "sv_shutdown s") (auto simp: server_inv_def)
  note cs = this
  have wait: ?thesis
    if "loop_due (sv_loop s) (sv_shutdown s) (sv_signal s) (sv_now s + 1)" "sv_now s < phase_end (sv_shutdown s) (sv_loop s)"
    using timer_or_time [OF assms(1,4) that] assms(4) by metis
  have move: ?thesis
    if "serve_step tls second installable s s'" "(s', s) \<in> remaining" "exited (sv_loop s') \<longrightarrow> sv_loop s' = Exited 0"
      "sv_table s' = sv_table s" "sv_signal s' = sv_signal s" "sv_pauses s' = sv_pauses s" "sv_conns s' = sv_conns s" for s'
    using that by (intro exI [of _ s']) (simp add: unaided_def)
  show ?thesis
    using cs
  proof cases
    case pausing
    show ?thesis
    proof (cases "sv_now s < u")
      case True
      then show ?thesis using pausing by (intro wait) simp_all
    next
      case False
      with pausing show ?thesis
        by (cases "sv_shutdown s") (rule move [OF serve_step.resumed [of s u]]; simp add: remaining_def)+
    qed
  next
    case signal
    then show ?thesis using assms(3) by (intro move [OF serve_step.taken]) (simp_all add: remaining_def)
  next
    case delay
    show ?thesis
    proof (cases "sv_now s < d")
      case True
      with delay show ?thesis by (intro wait) simp_all
    next
      case False
      with delay show ?thesis by (intro move [OF serve_step.closed [of s d]]) (simp_all add: remaining_def)
    qed
  next
    case draining
    show ?thesis
    proof (cases "sv_now s < u")
      case True
      with draining show ?thesis by (intro wait) simp_all
    next
      case False
      with draining show ?thesis by (intro move [OF serve_step.gave_up [of s u]]) (simp_all add: remaining_def)
    qed
  qed
qed

lemma exits_unaided:
  assumes "list_all (conn_inv tls (sv_now s)) (sv_conns s)" and "server_inv second dmin dmax rmin rmax s"
    and "\<forall>t. installable t \<longrightarrow> within dmin dmax rmin rmax t" and "sv_signal s \<noteq> None" and "\<not> exited (sv_loop s)"
  shows "\<exists>s'. (unaided tls second installable)\<^sup>*\<^sup>* s s' \<and> sv_loop s' = Exited 0
    \<and> server_inv second dmin dmax rmin rmax s' \<and> sv_signal s' = sv_signal s \<and> sv_pauses s' = sv_pauses s"
proof -
  have "wf remaining" by (simp add: remaining_def)
  then show ?thesis using assms
  proof (induction s rule: wf_induct_rule)
    case (less s)
    obtain s' where s': "unaided tls second installable s s'" "(s', s) \<in> remaining"
      "exited (sv_loop s') \<longrightarrow> sv_loop s' = Exited 0"
      using shutdown_moves [OF less.prems(1,2,4,5)] by blast
    then have step: "serve_step tls second installable s s'" and same: "sv_signal s' = sv_signal s" "sv_pauses s' = sv_pauses s"
      by (simp_all add: unaided_def)
    note inv = conns_inv_step [OF step less.prems(1)] server_inv_step [OF step less.prems(3,2)]
    show ?case
    proof (cases "exited (sv_loop s')")
      case True
      then show ?thesis using s'(1,3) inv(2) same by blast
    next
      case False
      have "sv_signal s' \<noteq> None" using same(1) less.prems(4) by simp
      from less.IH [OF s'(2) inv less.prems(3) this False] obtain s'' where
        "(unaided tls second installable)\<^sup>*\<^sup>* s' s''" "sv_loop s'' = Exited 0" "server_inv second dmin dmax rmin rmax s''"
        "sv_signal s'' = sv_signal s" "sv_pauses s'' = sv_pauses s" unfolding same by blast
      then show ?thesis using converse_rtranclp_into_rtranclp [of "unaided tls second installable", OF s'(1)] by blast
    qed
  qed
qed

lemma shutdown_ends:
  assumes "serve_reaches tls second installable s" and "\<forall>t. installable t \<longrightarrow> within dmin dmax rmin rmax t"
    and "sv_signal s \<noteq> None" and "\<not> exited (sv_loop s)"
  shows "\<exists>s'. (unaided tls second installable)\<^sup>*\<^sup>* s s' \<and> sv_loop s' = Exited 0"
  using exits_unaided [OF conns_inv [OF assms(1)] server_inv_reach [OF assms(1,2)] assms(2-4)] by blast

text \<open>Before the signal the tables that have been in place do not matter.\<close>

lemma unsignalled_inv:
  assumes "serve_reaches tls second installable s" and "sv_signal s = None" and "within dmin dmax rmin rmax (sv_table s)"
  shows "server_inv second dmin dmax rmin rmax s"
proof -
  have "sv_signal s = None \<longrightarrow> sv_shutdown s = AwaitSignal \<and> \<not> sv_draining s \<and> sv_listening s
    \<and> (sv_loop s = Accepting \<or> (\<exists>u. sv_loop s = Pausing u \<and> sv_now s \<le> u \<and> u \<le> sv_now s + accept_pause))"
    using assms(1)
  proof (induction rule: serve_reaches_induct)
    case (start t now)
    show ?case by (simp add: server_new_def)
  next
    case (step s s')
    from step.hyps(2) step.IH show ?case by (cases rule: serve_step.cases) (auto simp: may_pass_def)
  qed
  then show ?thesis using assms(2,3) by (auto simp: server_inv_def)
qed

lemma server_inv_steps:
  assumes "(serve_step tls second installable)\<^sup>*\<^sup>* s s'" and "\<forall>t. installable t \<longrightarrow> within dmin dmax rmin rmax t"
    and "server_inv second dmin dmax rmin rmax s" and "list_all (conn_inv tls (sv_now s)) (sv_conns s)"
  shows "server_inv second dmin dmax rmin rmax s' \<and> list_all (conn_inv tls (sv_now s')) (sv_conns s')"
  using assms(1)
proof (induction rule: rtranclp_induct)
  case (step s1 s2)
  then show ?case using server_inv_step [OF step.hyps(2) assms(2)] conns_inv_step [OF step.hyps(2)] by blast
qed (use assms(3,4) in blast)

text \<open>C34. The server shuts down in order and in time, whatever reloads do to its settings meanwhile. It is ready and
  accepts until a signal. From the moment it takes the signal \<open>/readyz\<close> answers 503, but it goes on accepting for the
  whole of \<open>shutdown_delay\<close>. It is gone at the latest a delay and a drain time after the signal, and the tenth of a second
  for each failed \<open>accept\<close> it pauses for. It exits 0 with connections open only when the drain time is
  over, and 130 only on a second signal; and without any help from its clients it does exit.\<close>

theorem shutdown_orderly:
  assumes "serve_reaches tls second installable s" and "\<forall>t. installable t \<longrightarrow> within dmin dmax rmin rmax t"
  shows "ad_status (admin_route ''GET'' ''/readyz'' metrics (sv_draining s)) = (if sv_shutdown s = AwaitSignal then 200 else 503)
    \<and> (sv_shutdown s = AwaitSignal \<longrightarrow> sv_listening s)
    \<and> (case sv_signal s of
         None \<Rightarrow> sv_shutdown s = AwaitSignal \<and> \<not> exited (sv_loop s)
       | Some t0 \<Rightarrow>
           (\<not> sv_listening s \<longrightarrow> t0 + dmin \<le> sv_now s)
           \<and> sv_now s \<le> t0 + sv_pauses s * from_millis 100 + dmax + rmax
           \<and> (\<forall>c. sv_loop s = Exited c \<longrightarrow> c = 130 \<and> second
                \<or> c = 0 \<and> (list_all (\<lambda>c. cn_phase c = Over) (sv_conns s) \<or> t0 + dmin + rmin \<le> sv_now s))
           \<and> (\<not> exited (sv_loop s) \<longrightarrow> (\<exists>s'. (unaided tls second installable)\<^sup>*\<^sup>* s s' \<and> sv_loop s' = Exited 0)))"
proof -
  note inv = server_inv_reach [OF assms]
  have r: "ad_status (admin_route ''GET'' ''/readyz'' metrics d) = (if d then 503 else 200)" for d
    by (simp add: admin_route_def respond_def)
  have p: "accept_pause = from_millis 100" by (simp add: accept_pause_def)
  show ?thesis
    using inv shutdown_ends [OF assms] unfolding r
    by (cases "(second, dmin, dmax, rmin, rmax, s, sv_signal s, sv_shutdown s, sv_loop s)" rule: loop_inv.cases)
       (auto simp: server_inv_def delay_over_def p)
qed

theorem shutdown_orderly_witness:
  "let t = with_shutdown_delay (from_secs 5) (table_new [] 0);
       s = (server_new t 0)\<lparr>sv_now := from_millis 100, sv_signal := Some 0, sv_pauses := 1, sv_draining := True,
             sv_shutdown := Delay (from_millis 100 + from_secs 5)\<rparr> in
   ad_status (admin_route ''GET'' ''/readyz'' ''m'' (sv_draining s)) = 503
   \<and> sv_now s \<le> from_millis 100 + from_secs 5 + from_secs 25
   \<and> (\<exists>s'. (unaided False True (\<lambda>x. x = t))\<^sup>*\<^sup>* s s' \<and> sv_loop s' = Exited 0)"
proof -
  let ?t = "with_shutdown_delay (from_secs 5) (table_new [] 0)"
  let ?R = "serve_step False True (\<lambda>x. x = ?t)"
  define s0 where "s0 = server_new ?t 0"
  define s1 where "s1 = s0\<lparr>sv_signal := Some 0\<rparr>"
  define s2 where "s2 = s1\<lparr>sv_loop := Pausing (from_millis 100), sv_pauses := 1\<rparr>"
  define s3 where "s3 = s2\<lparr>sv_now := from_millis 100\<rparr>"
  define s4 where "s4 = s3\<lparr>sv_loop := Accepting\<rparr>"
  define s5 where "s5 = s4\<lparr>sv_draining := True, sv_shutdown := Delay (from_millis 100 + from_secs 5)\<rparr>"
  note d = s0_def s1_def s2_def s3_def s4_def s5_def server_new_def
  have "?R s0 s1" using serve_step.signalled [of s0 False True] by (simp add: d)
  moreover have "?R s1 s2" using serve_step.accept_failed [of s1 False True] by (simp add: d accept_pause_def)
  moreover have "?R s2 s3" unfolding s3_def by (rule serve_step.time) (simp_all add: d may_pass_def from_millis_def)
  moreover have "?R s3 s4" using serve_step.resumed [of s3 "from_millis 100" False True] by (simp add: d)
  moreover have "?R s4 s5" using serve_step.taken [of s4 False True] by (simp add: d with_shutdown_delay_def)
  ultimately have "?R\<^sup>*\<^sup>* s0 s5" by (meson converse_rtranclp_into_rtranclp rtranclp.rtrancl_refl)
  then have r: "serve_reaches False True (\<lambda>x. x = ?t) s5" unfolding serve_reaches_def s0_def by blast
  have w: "\<forall>x. x = ?t \<longrightarrow> within (from_secs 5) (from_secs 5) (from_secs 25) (from_secs 25) x"
    by (simp add: within_def with_shutdown_delay_def table_new_def)
  have s5: "s5 = (server_new ?t 0)\<lparr>sv_now := from_millis 100, sv_signal := Some 0, sv_pauses := 1, sv_draining := True,
             sv_shutdown := Delay (from_millis 100 + from_secs 5)\<rparr>" by (simp add: d)
  show ?thesis using shutdown_orderly [OF r w, of "''m''"] unfolding Let_def s5 [symmetric] by (simp add: d)
qed

theorem idle_connections_closed_witness:
  "\<exists>s c. serve_reaches True False (\<lambda>x. x = table_new [] 0) s \<and> sv_conns s = [c] \<and> cn_accepted c = 0 \<and> sv_now s = from_secs 21
     \<and> cn_phase c = Over"
proof -
  let ?t = "table_new [] 0" and ?R = "serve_step True False (\<lambda>x. x = table_new [] 0)"
  define s0 where "s0 = server_new ?t 0"
  define s1 where "s1 = s0\<lparr>sv_conns := [conn_new True ?t 0]\<rparr>"
  define s2 where "s2 = s1\<lparr>sv_now := from_secs 10\<rparr>"
  define s3 where "s3 = s2\<lparr>sv_conns := [(conn_new True ?t 0)\<lparr>cn_phase := Over\<rparr>]\<rparr>"
  define s4 where "s4 = s3\<lparr>sv_now := from_secs 21\<rparr>"
  note d = s0_def s1_def s2_def s3_def s4_def server_new_def conn_new_def handshake_timeout_def
  have "?R s0 s1" using serve_step.accepted [of s0 True False] by (simp add: d)
  moreover have "?R s1 s2" unfolding s2_def by (rule serve_step.time) (simp_all add: d may_pass_def from_secs_def)
  moreover have "?R s2 s3" using serve_step.connection [of 0 s2 Timer Over True False] by (simp add: d)
  moreover have "?R s3 s4" unfolding s4_def by (rule serve_step.time) (simp_all add: d may_pass_def from_secs_def)
  ultimately have "?R\<^sup>*\<^sup>* s0 s4" by (meson converse_rtranclp_into_rtranclp rtranclp.rtrancl_refl)
  then have r: "serve_reaches True False (\<lambda>x. x = ?t) s4" unfolding serve_reaches_def s0_def by blast
  have "cn_phase (hd (sv_conns s4)) = Over \<or> cn_phase (hd (sv_conns s4)) = Served \<and> conn_step 0 Timer (cn_phase (hd (sv_conns s4))) = None"
    by (rule idle_connections_closed [OF r]) (simp_all add: d from_secs_def)
  then show ?thesis using r by (intro exI [of _ s4] exI [of _ "hd (sv_conns s4)"]) (auto simp: d)
qed

end
