(* ===== verification/Triggers.thy ===== *)
theory Triggers
  imports Reload
begin

text \<open>
  What makes the server reload, and whom it tells: the directories of \<open>Reloader::watch\<close> in
  \<open>crates/server/src/reload.rs\<close>, the \<open>SIGHUP\<close> task of \<open>main.rs\<close>, and the messages of \<open>sd_notify.rs\<close> to the service
  manager. Sending a datagram is the operating system's; the model says what is sent where.
\<close>

section \<open>Paths\<close>

text \<open>A Unix path as \<open>Path::components\<close> sees it: whether it starts at the root, and its components. Repeated slashes
  and dots inside are dropped, a dot in front is not.\<close>

record path =
  p_root :: bool
  p_parts :: "string list"

definition path_of :: "string \<Rightarrow> path" where
  "path_of s =
     (let ps = filter (\<lambda>p. p \<noteq> []) (split_on slash s); root = prefix [slash] s in
      \<lparr>p_root = root,
       p_parts = (case ps of
                    [] \<Rightarrow> []
                  | p # rest \<Rightarrow> (if p = [dot] \<and> root then [] else [p]) @ filter (\<lambda>p. p \<noteq> [dot]) rest)\<rparr>)"

definition path_parent :: "path \<Rightarrow> path option" where
  "path_parent p = (if p_parts p = [] then None else Some (p\<lparr>p_parts := butlast (p_parts p)\<rparr>))"

definition empty_path :: "path \<Rightarrow> bool" where
  "empty_path p \<longleftrightarrow> \<not> p_root p \<and> p_parts p = []"

definition watch_dir :: "path \<Rightarrow> path" where
  "watch_dir file =
     (case path_parent file of
        Some p \<Rightarrow> if \<not> empty_path p then p else \<lparr>p_root = False, p_parts = [[dot]]\<rparr>
      | None \<Rightarrow> \<lparr>p_root = False, p_parts = [[dot]]\<rparr>)"

text \<open>The watched files and directories of a reloader; \<open>collect\<close> into a set drops duplicates.\<close>

definition watched_files :: "'k reloader \<Rightarrow> string list" where
  "watched_files r =
     (case rl_config r of Some p \<Rightarrow> [p] | None \<Rightarrow> []) @ (case rl_tls r of Some tr \<Rightarrow> tls_files tr | None \<Rightarrow> [])"

definition watch_dirs :: "'k reloader \<Rightarrow> path list" where
  "watch_dirs r = remdups (map (\<lambda>f. watch_dir (path_of f)) (watched_files r))"

definition watch_config :: "'k reload_env \<Rightarrow> file_system \<Rightarrow> string \<Rightarrow> route_table \<Rightarrow> 'k reloader \<times> path list" where
  "watch_config E fs file t =
     (let r = reloader_new E fs (Some file) t None in (r, watch_dirs r))"

text \<open>The file \<open>name\<close> in a directory, and paths up to dots, which stand for the directory they are in.\<close>

definition join_path :: "path \<Rightarrow> string \<Rightarrow> path" where
  "join_path d name = d\<lparr>p_parts := p_parts d @ [name]\<rparr>"

definition undotted :: "path \<Rightarrow> path" where
  "undotted p = p\<lparr>p_parts := filter (\<lambda>x. x \<noteq> [dot]) (p_parts p)\<rparr>"

section \<open>Messages to the service manager\<close>

datatype notify_addr = AbstractName string | SocketPath string

text \<open>\<open>Notifier::new\<close>: \<open>unbound\<close> says whether a socket could be made.\<close>

definition notifier_new :: "bool \<Rightarrow> string option \<Rightarrow> string option" where
  "notifier_new unbound p = (case p of Some s \<Rightarrow> if s \<noteq> [] \<and> unbound then Some s else None | None \<Rightarrow> None)"

definition notify_send :: "string option \<Rightarrow> string \<Rightarrow> (notify_addr \<times> string) list" where
  "notify_send n msg =
     (case n of
        None \<Rightarrow> []
      | Some p \<Rightarrow> [(case strip_prefix ''@'' p of Some name \<Rightarrow> AbstractName name | None \<Rightarrow> SocketPath p, msg)])"

abbreviation newline :: char where "newline \<equiv> CHR 0x0A"

definition ready_msg :: "string \<Rightarrow> string" where
  "ready_msg status = ''READY=1'' @ [newline] @ ''STATUS='' @ status"

text \<open>\<open>clock_gettime\<close> gives seconds and nanoseconds as signed 64-bit numbers.\<close>

definition monotonic_usec :: "64 word \<times> 64 word \<Rightarrow> u64" where
  "monotonic_usec ts = fst ts * 1000000 + snd ts div 1000"

definition reloading_msg :: "64 word \<times> 64 word \<Rightarrow> string" where
  "reloading_msg ts = ''RELOADING=1'' @ [newline] @ ''MONOTONIC_USEC='' @ show_int (uint (monotonic_usec ts))"

definition stopping_msg :: string where
  "stopping_msg = ''STOPPING=1'' @ [newline] @ ''STATUS=shutting down''"

section \<open>The SIGHUP task\<close>

text \<open>Each \<open>SIGHUP\<close> comes with the clock and with the file system as the reload finds it.\<close>

record hangup =
  hu_time :: "64 word \<times> 64 word"
  hu_files :: file_system
  hu_files_later :: file_system

definition on_sighup ::
    "'k reload_env \<Rightarrow> string option \<Rightarrow> hangup \<Rightarrow> 'k reloader \<Rightarrow> store \<Rightarrow> (notify_addr \<times> string) list \<times> 'k reloader \<times> store" where
  "on_sighup E n h r s =
     (let m1 = notify_send n (reloading_msg (hu_time h));
          (r', s', l) = reload E True (hu_files h) (hu_files_later h) r s;
          m2 = notify_send n (ready_msg ''serving'') in
      (m1 @ m2, r', s'))"

fun sighup_task ::
    "'k reload_env \<Rightarrow> string option \<Rightarrow> hangup list \<Rightarrow> 'k reloader \<Rightarrow> store \<Rightarrow> (notify_addr \<times> string) list \<times> 'k reloader \<times> store" where
  "sighup_task E n [] r s = ([], r, s)"
| "sighup_task E n (h # hs) r s =
     (let (ms, r', s') = on_sighup E n h r s; (ms', r'', s'') = sighup_task E n hs r' s' in (ms @ ms', r'', s''))"

section \<open>Properties\<close>

lemma watch_dir_parent:
  assumes "p_parts p \<noteq> []"
  shows "undotted (join_path (watch_dir p) (last (p_parts p))) = undotted p"
  using assms
  by (cases p; cases "p_parts p" rule: rev_cases)
     (auto simp: watch_dir_def path_parent_def empty_path_def join_path_def undotted_def)

text \<open>Every file that is re-read lies directly in a watched directory, so that replacing it is an event there, and no
  directory is watched twice.\<close>

lemma files_watched:
  assumes "f \<in> set (watched_files r)" and "p_parts (path_of f) \<noteq> []"
  shows "\<exists>d \<in> set (watch_dirs r). undotted (join_path d (last (p_parts (path_of f)))) = undotted (path_of f)"
    and "distinct (watch_dirs r)"
  using assms watch_dir_parent [OF assms(2)] by (auto simp: watch_dirs_def)

text \<open>The stamp does not wrap for half a million years of uptime.\<close>

lemma monotonic_usec_exact:
  assumes "unat sec < 10 ^ 13" and "unat nsec < 10 ^ 9"
  shows "unat (monotonic_usec (sec, nsec)) = unat sec * 10 ^ 6 + unat nsec div 1000"
proof -
  have "unat sec * 1000000 < 2 ^ 64" using assms(1) by simp
  then have m: "unat (sec * 1000000) = unat sec * 10 ^ 6" by (subst unat_mult_lem [THEN iffD1]) simp_all
  have d: "unat (nsec div 1000) = unat nsec div 1000" by (simp add: unat_div)
  have "unat (sec * 1000000) + unat (nsec div 1000) < 2 ^ 64" using assms by (simp add: m d)
  then have "unat (sec * 1000000 + nsec div 1000) = unat (sec * 1000000) + unat (nsec div 1000)"
    by (subst unat_add_lem [THEN iffD1]) simp_all
  then show ?thesis by (simp add: monotonic_usec_def m d)
qed

fun hangups_reload :: "'k reload_env \<Rightarrow> hangup list \<Rightarrow> 'k reloader \<Rightarrow> store \<Rightarrow> 'k reloader \<times> store" where
  "hangups_reload E [] r s = (r, s)"
| "hangups_reload E (h # hs) r s =
     (let (r', s', l) = reload E True (hu_files h) (hu_files_later h) r s in hangups_reload E hs r' s')"

lemma sighup_task_eq:
  "sighup_task E n hs r s =
     (concat (map (\<lambda>h. notify_send n (reloading_msg (hu_time h)) @ notify_send n (ready_msg ''serving'')) hs),
      hangups_reload E hs r s)"
  by (induction hs arbitrary: r s) (simp_all add: on_sighup_def Let_def split: prod.split)

text \<open>Every \<open>SIGHUP\<close> is a forced reload, and the service manager, if there is one, is told of each: \<open>RELOADING\<close> with the
  exact time of the clock in microseconds, then \<open>READY\<close>, whether the reload succeeded or kept the old table. Without a
  notification socket nothing is sent.\<close>

theorem sighup_acknowledged:
  assumes "\<forall>h \<in> set hs. unat (fst (hu_time h)) < 10 ^ 13 \<and> unat (snd (hu_time h)) < 10 ^ 9"
    and "sighup_task E (notifier_new unbound sock) hs r s = (ms, r', s')"
  shows "(r', s') = hangups_reload E hs r s
    \<and> ((sock = None \<or> sock = Some [] \<or> \<not> unbound) \<longrightarrow> ms = [])
    \<and> (\<forall>p. sock = Some p \<longrightarrow> p \<noteq> [] \<longrightarrow> unbound \<longrightarrow>
         map snd ms = concat (map (\<lambda>h.
           [''RELOADING=1'' @ [newline] @ ''MONOTONIC_USEC='' @
              show_int (int (unat (fst (hu_time h)) * 10 ^ 6 + unat (snd (hu_time h)) div 1000)),
            ''READY=1'' @ [newline] @ ''STATUS=serving'']) hs))"
proof -
  have e: "(r', s') = hangups_reload E hs r s"
    "ms = concat (map (\<lambda>h. notify_send (notifier_new unbound sock) (reloading_msg (hu_time h))
        @ notify_send (notifier_new unbound sock) (ready_msg ''serving'')) hs)"
    using assms(2) by (simp_all add: sighup_task_eq)
  have t: "reloading_msg (hu_time h) = ''RELOADING=1'' @ [newline] @ ''MONOTONIC_USEC='' @
      show_int (int (unat (fst (hu_time h)) * 10 ^ 6 + unat (snd (hu_time h)) div 1000))" if "h \<in> set hs" for h
  proof -
    have "unat (fst (hu_time h)) < 10 ^ 13" "unat (snd (hu_time h)) < 10 ^ 9" using assms(1) that by blast+
    from monotonic_usec_exact [OF this, unfolded prod.collapse] show ?thesis unfolding reloading_msg_def uint_nat by (rule arg_cong)
  qed
  then have l: "map (\<lambda>h. [reloading_msg (hu_time h), ready_msg ''serving'']) hs
      = map (\<lambda>h. [''RELOADING=1'' @ [newline] @ ''MONOTONIC_USEC='' @
          show_int (int (unat (fst (hu_time h)) * 10 ^ 6 + unat (snd (hu_time h)) div 1000)),
          ''READY=1'' @ [newline] @ ''STATUS=serving'']) hs"
    unfolding ready_msg_def by (intro map_cong refl) (simp only: append_assoc append_Cons append_Nil)
  have sent: "map snd ms = concat (map (\<lambda>h. [reloading_msg (hu_time h), ready_msg ''serving'']) hs)"
    if "notifier_new unbound sock = Some p" for p
    unfolding e(2) that notify_send_def by (simp add: map_concat comp_def)
  show ?thesis
  proof (intro conjI allI impI)
    show "(r', s') = hangups_reload E hs r s" by (rule e(1))
    show "ms = []" if "sock = None \<or> sock = Some [] \<or> \<not> unbound"
      using that unfolding e(2) by (auto simp: notifier_new_def notify_send_def split: option.splits)
    fix p assume "sock = Some p" "p \<noteq> []" unbound
    then have "notifier_new unbound sock = Some p" by (simp add: notifier_new_def)
    from sent [OF this, unfolded l] show "map snd ms = concat (map (\<lambda>h.
           [''RELOADING=1'' @ [newline] @ ''MONOTONIC_USEC='' @
              show_int (int (unat (fst (hu_time h)) * 10 ^ 6 + unat (snd (hu_time h)) div 1000)),
            ''READY=1'' @ [newline] @ ''STATUS=serving'']) hs)" .
  qed
qed

theorem sighup_acknowledged_witness:
  "let r = reloader_new demo_env (\<lambda>_. Some ''new'') (Some ''c.toml'') (table_new [] 0) None;
       h = \<lparr>hu_time = (12, 345678), hu_files = \<lambda>_. None, hu_files_later = \<lambda>_. None\<rparr> in
   map snd (fst (sighup_task demo_env (notifier_new True (Some ''@svc'')) [h] r empty_store))
     = [''RELOADING=1'' @ [newline] @ ''MONOTONIC_USEC='' @ show_int 12000345, ''READY=1'' @ [newline] @ ''STATUS=serving'']"
proof -
  let ?r = "reloader_new demo_env (\<lambda>_. Some ''new'') (Some ''c.toml'') (table_new [] 0) None"
  let ?h = "\<lparr>hu_time = (12, 345678), hu_files = \<lambda>_. None, hu_files_later = \<lambda>_. None\<rparr>"
  obtain ms r' s' where t: "sighup_task demo_env (notifier_new True (Some ''@svc'')) [?h] ?r empty_store = (ms, r', s')"
    by (metis surj_pair)
  from sighup_acknowledged [OF _ t] show ?thesis unfolding Let_def t by simp
qed

end
