(* ===== verification/Embedded.thy ===== *)
theory Embedded
  imports Serve Triggers
begin

text \<open>
  The example that embeds the server in another program, \<open>examples/embedded/src\<close>: \<open>start\<close> and \<open>Running::shutdown\<close> of
  \<open>lib.rs\<close>, the admin routes of \<open>admin.rs\<close>, and \<open>main.rs\<close>. The operating system's sockets and file watches and the tasks
  of the runtime are explicit state, so that what a failed start leaves behind can be seen. Binding a socket is an
  argument: the address it gets, or \<^const>\<open>None\<close>.
\<close>

section \<open>Starting\<close>

record settings =
  se_config :: string
  se_proxy_bind :: socket_addr
  se_admin_bind :: socket_addr
  se_tls :: "(string \<times> string) option"

datatype task = HealthTask | ProxyTask | AdminTask | UpkeepTask

record os =
  os_bound :: "socket_addr list"
  os_tasks :: "task list"
  os_watches :: "path list"

type_synonym bind_op = "os \<Rightarrow> socket_addr \<Rightarrow> socket_addr option"

record running =
  ru_proxy_addr :: socket_addr
  ru_admin_addr :: socket_addr
  ru_table :: route_table

datatype embed_error =
    LoadFailed error
  | BuildFailed error
  | AcceptorFailed main_error
  | ProxyBindFailed
  | AdminBindFailed
  | WatchFailed
  | TlsPairMissing

text \<open>A listener is closed when it is dropped.\<close>

definition open_listener :: "socket_addr \<Rightarrow> os \<Rightarrow> os" where
  "open_listener a w = w\<lparr>os_bound := a # os_bound w\<rparr>"

definition drop_listener :: "socket_addr \<Rightarrow> os \<Rightarrow> os" where
  "drop_listener a w = w\<lparr>os_bound := remove1 a (os_bound w)\<rparr>"

definition spawn :: "task \<Rightarrow> os \<Rightarrow> os" where
  "spawn k w = w\<lparr>os_tasks := os_tasks w @ [k]\<rparr>"

definition embed_start ::
    "'k reload_env \<Rightarrow> (string list \<Rightarrow> string \<Rightarrow> bool) \<Rightarrow> file_system \<Rightarrow> bind_op \<Rightarrow> (os \<Rightarrow> path list \<Rightarrow> bool) \<Rightarrow>
     settings \<Rightarrow> os \<Rightarrow> store \<Rightarrow> (embed_error, running) result \<times> os \<times> store" where
  "embed_start E single_cert fs bind watch se w s =
     (case load_config (e_parse_toml E) (\<lambda>p. case fs p of Some b \<Rightarrow> if utf8_valid b then Some b else None | None \<Rightarrow> None) (se_config se) of
        Inl e \<Rightarrow> (Inl (LoadFailed e), w, s)
      | Inr cfg \<Rightarrow>
          (case build_table (e_parsers E) cfg None s of
             (Inl e, s1) \<Rightarrow> (Inl (BuildFailed e), w, s1)
           | (Inr t, s1) \<Rightarrow>
               (case (case se_tls se of Some (cert, k) \<Rightarrow> load_acceptor E single_cert fs cert k | None \<Rightarrow> Inr ()) of
                  Inl e \<Rightarrow> (Inl (AcceptorFailed e), w, s1)
                | Inr _ \<Rightarrow>
                    (case bind w (se_proxy_bind se) of
                       None \<Rightarrow> (Inl ProxyBindFailed, w, s1)
                     | Some proxy_addr \<Rightarrow>
                         (let w1 = open_listener proxy_addr w in
                          case bind w1 (se_admin_bind se) of
                            None \<Rightarrow> (Inl AdminBindFailed, drop_listener proxy_addr w1, s1)
                          | Some admin_addr \<Rightarrow>
                              (let w2 = open_listener admin_addr w1;
                                   dirs = snd (watch_config E fs (se_config se) t) in
                               if \<not> watch w2 dirs
                               then (Inl WatchFailed, drop_listener proxy_addr (drop_listener admin_addr w2), s1)
                               else
                                 (let w3 = w2\<lparr>os_watches := os_watches w2 @ dirs\<rparr>;
                                      w4 = spawn UpkeepTask (spawn AdminTask (spawn ProxyTask (spawn HealthTask w3))) in
                                  (Inr \<lparr>ru_proxy_addr = proxy_addr, ru_admin_addr = admin_addr, ru_table = t\<rparr>,
                                   w4, publish_gauges t s1))))))))"

section \<open>Stopping\<close>

definition shutdown_margin :: duration where
  "shutdown_margin = from_secs 5"

definition shutdown_bound :: "route_table \<Rightarrow> duration" where
  "shutdown_bound t = shutdown_delay t + drain_timeout t + shutdown_margin"

text \<open>A task as its \<open>JoinHandle\<close> sees it: when it ends, \<^const>\<open>None\<close> if it does not, and how.\<close>

datatype 'e ending = Returned "('e, unit) result" | TaskPanicked

type_synonym 'e handle = "duration option \<times> 'e ending"

datatype 'e stop_error = Panicked string | Late string | Inner 'e

text \<open>\<open>await_or_abort\<close> and its fallible variant: the result, the time afterwards, and whether the task was aborted.
  \<open>timeout_at\<close> polls the handle before the timer.\<close>

definition await_or_abort_fallible ::
    "duration \<Rightarrow> 'e handle \<Rightarrow> duration \<Rightarrow> string \<Rightarrow> ('e stop_error, unit) result \<times> duration \<times> bool" where
  "await_or_abort_fallible now h deadline nm =
     (case fst h of
        Some f \<Rightarrow>
          if f \<le> max now deadline
          then (case snd h of
                  Returned (Inr _) \<Rightarrow> Inr ()
                | Returned (Inl e) \<Rightarrow> Inl (Inner e)
                | TaskPanicked \<Rightarrow> Inl (Panicked nm), max now f, False)
          else (Inl (Late nm), max now deadline, True)
      | None \<Rightarrow> (Inl (Late nm), max now deadline, True))"

definition await_or_abort ::
    "duration \<Rightarrow> duration option \<times> bool \<Rightarrow> duration \<Rightarrow> string \<Rightarrow> ('e stop_error, unit) result \<times> duration \<times> bool" where
  "await_or_abort now h deadline nm =
     (case fst h of
        Some f \<Rightarrow>
          if f \<le> max now deadline
          then (if snd h then Inr () else Inl (Panicked nm), max now f, False)
          else (Inl (Late nm), max now deadline, True)
      | None \<Rightarrow> (Inl (Late nm), max now deadline, True))"

record 'e running_tasks =
  rt_proxy :: "'e handle"
  rt_admin :: "duration option \<times> bool"
  rt_upkeep :: "duration option \<times> bool"

text \<open>\<open>Running::shutdown\<close>: its result, when it returns, and the tasks it has aborted. The health task always is.\<close>

definition embed_shutdown ::
    "route_table \<Rightarrow> duration \<Rightarrow> 'e running_tasks \<Rightarrow> ('e stop_error, unit) result \<times> duration \<times> task list" where
  "embed_shutdown t now k =
     (let deadline = now + shutdown_bound t;
          (proxy_result, now1, a1) = await_or_abort_fallible now (rt_proxy k) deadline ''proxy'';
          (admin_result, now2, a2) = await_or_abort now1 (rt_admin k) deadline ''admin'';
          (upkeep_result, now3, a3) = await_or_abort now2 (rt_upkeep k) deadline ''upkeep'' in
      (case proxy_result of
         Inl e \<Rightarrow> Inl e
       | Inr _ \<Rightarrow> (case admin_result of Inl e \<Rightarrow> Inl e | Inr _ \<Rightarrow> upkeep_result),
       now3,
       HealthTask # (if a1 then [ProxyTask] else []) @ (if a2 then [AdminTask] else []) @ (if a3 then [UpkeepTask] else [])))"

section \<open>The admin routes\<close>

datatype embed_body = Text string | JsonText json

record embed_response =
  er_status :: nat
  er_type :: "string option"
  er_body :: embed_body

definition state_str :: "circuit_state \<Rightarrow> string" where
  "state_str st = (case st of Closed \<Rightarrow> ''closed'' | Open \<Rightarrow> ''open'' | HalfOpen \<Rightarrow> ''half_open'')"

definition embed_text :: "nat \<Rightarrow> string \<Rightarrow> embed_response" where
  "embed_text status body = \<lparr>er_status = status, er_type = None, er_body = Text body\<rparr>"

text \<open>\<open>show_uri\<close> is \<open>Display\<close> of \<open>http::Uri\<close>.\<close>

definition status_json :: "(uri \<Rightarrow> string) \<Rightarrow> route_table \<Rightarrow> store \<Rightarrow> embed_response" where
  "status_json show_uri t s =
     \<lparr>er_status = 200, er_type = Some ''application/json'',
      er_body = JsonText (JObj [(''upstreams'', JArr (map (\<lambda>u.
        JObj [(''name'', JStr (u_name u)), (''uri'', JStr (show_uri (u_uri u))),
              (''state'', JStr (state_str (fst (on_breaker (u_breaker u) state_of s))))]) (upstreams t)))])\<rparr>"

definition metrics_response :: "string \<Rightarrow> embed_response" where
  "metrics_response rendered =
     \<lparr>er_status = 200, er_type = Some ''text/plain; version=0.0.4'', er_body = Text rendered\<rparr>"

definition embed_admin :: "(uri \<Rightarrow> string) \<Rightarrow> route_table \<Rightarrow> store \<Rightarrow> string \<Rightarrow> string \<Rightarrow> string \<Rightarrow> embed_response" where
  "embed_admin show_uri t s rendered method path =
     (if method = ''GET'' \<and> path = ''/healthz'' then embed_text 200 ''ok''
      else if method = ''GET'' \<and> path = ''/status'' then status_json show_uri t s
      else if method = ''GET'' \<and> path = ''/metrics'' then metrics_response rendered
      else embed_text 404 ''not found'')"

section \<open>The command line\<close>

text \<open>\<open>Duration * 3\<close> panics when the product has more seconds than fit 64 bits; \<open>prometheus_builder\<close> computes the idle
  time-out of the gauges so.\<close>

definition times3 :: "duration \<Rightarrow> duration option" where
  "times3 d = (if d * 3 < 2 ^ 64 * from_secs 1 then Some (d * 3) else None)"

definition prometheus_builder :: "duration \<Rightarrow> duration option" where
  "prometheus_builder health_interval = times3 health_interval"

datatype 'a outcome = Panic | Return "(embed_error, 'a) result"

definition embed_main ::
    "'k reload_env \<Rightarrow> (string list \<Rightarrow> string \<Rightarrow> bool) \<Rightarrow> file_system \<Rightarrow> bind_op \<Rightarrow> (os \<Rightarrow> path list \<Rightarrow> bool) \<Rightarrow>
     string \<Rightarrow> socket_addr \<Rightarrow> socket_addr \<Rightarrow> string option \<Rightarrow> string option \<Rightarrow> os \<Rightarrow> store \<Rightarrow> running outcome" where
  "embed_main E single_cert fs bind watch config proxy_bind admin_bind cert k w s =
     (case (case (cert, k) of
              (Some c, Some y) \<Rightarrow> Inr (Some (c, y))
            | (None, None) \<Rightarrow> Inr None
            | _ \<Rightarrow> Inl TlsPairMissing) of
        Inl e \<Rightarrow> Return (Inl e)
      | Inr tls \<Rightarrow>
          (case load_config (e_parse_toml E) (\<lambda>p. case fs p of Some b \<Rightarrow> if utf8_valid b then Some b else None | None \<Rightarrow> None) config of
             Inl e \<Rightarrow> Return (Inl (LoadFailed e))
           | Inr cfg \<Rightarrow>
               (case prometheus_builder (from_secs (unat (c_health_interval_secs cfg))) of
                  None \<Rightarrow> Panic
                | Some _ \<Rightarrow>
                    Return (fst (embed_start E single_cert fs bind watch
                      \<lparr>se_config = config, se_proxy_bind = proxy_bind, se_admin_bind = admin_bind, se_tls = tls\<rparr> w s)))))"

section \<open>Starting leaves nothing behind\<close>

text \<open>A start that fails leaves nothing behind: no task, no socket, no file watch, so an embedding program may retry. One
  that succeeds has its two listeners on addresses of their own, watches the directory of its configuration and runs
  each of its four tasks once. That a bound address is not given out again is the operating system's promise.\<close>

theorem start_retry_safe:
  assumes "\<forall>w a b. bind w a = Some b \<longrightarrow> b \<notin> set (os_bound w)"
    and "embed_start E single_cert fs bind watch se w s = (r, w', s')"
  shows "case r of
      Inl _ \<Rightarrow> w' = w
    | Inr ru \<Rightarrow> os_bound w' = [ru_admin_addr ru, ru_proxy_addr ru] @ os_bound w
        \<and> ru_admin_addr ru \<noteq> ru_proxy_addr ru \<and> ru_proxy_addr ru \<notin> set (os_bound w) \<and> ru_admin_addr ru \<notin> set (os_bound w)
        \<and> os_tasks w' = os_tasks w @ [HealthTask, ProxyTask, AdminTask, UpkeepTask]
        \<and> os_watches w' = os_watches w @ [watch_dir (path_of (se_config se))]"
proof -
  have "b \<notin> set (os_bound w)" if "bind w a = Some b" for a b w using assms(1) that by blast
  note this [of w "se_proxy_bind se"] this [of "open_listener b w" "se_admin_bind se" for b]
  then show ?thesis
    using assms(2)
    by (auto simp: embed_start_def open_listener_def drop_listener_def spawn_def watch_config_def watch_dirs_def
        watched_files_def reloader_new_def Let_def split: sum.splits prod.splits option.splits if_splits)
qed

definition demo_settings :: settings where
  "demo_settings =
     \<lparr>se_config = ''/etc/ferryman/c.toml'', se_proxy_bind = \<lparr>sa_ip = V4 0, sa_port = 8080\<rparr>,
      se_admin_bind = \<lparr>sa_ip = V4 0, sa_port = 9191\<rparr>, se_tls = None\<rparr>"

definition demo_bind :: bind_op where
  "demo_bind w a = (if a \<in> set (os_bound w) then None else Some a)"

theorem start_retry_safe_witness:
  "let w = \<lparr>os_bound = [\<lparr>sa_ip = V4 0, sa_port = 9191\<rparr>], os_tasks = [], os_watches = []\<rparr> in
   fst (snd (embed_start demo_env (\<lambda>_ _. True) (\<lambda>_. Some ''new'') demo_bind (\<lambda>_ _. True) demo_settings w empty_store)) = w
   \<and> fst (embed_start demo_env (\<lambda>_ _. True) (\<lambda>_. Some ''new'') demo_bind (\<lambda>_ _. True) demo_settings w empty_store) = Inl AdminBindFailed"
proof -
  let ?w = "\<lparr>os_bound = [\<lparr>sa_ip = V4 0, sa_port = 9191\<rparr>], os_tasks = [], os_watches = []\<rparr>"
  let ?x = "embed_start demo_env (\<lambda>_ _. True) (\<lambda>_. Some ''new'') demo_bind (\<lambda>_ _. True) demo_settings ?w empty_store"
  have e: "case fst ?x of Inl AdminBindFailed \<Rightarrow> True | _ \<Rightarrow> False" by code_simp
  then have f: "fst ?x = Inl AdminBindFailed" by (auto split: sum.splits embed_error.splits)
  have b: "\<forall>w a b. demo_bind w a = Some b \<longrightarrow> b \<notin> set (os_bound w)" by (simp add: demo_bind_def)
  obtain r w' s' where x: "?x = (r, w', s')" by (metis surj_pair)
  from start_retry_safe [OF b x] f show ?thesis unfolding Let_def x by simp
qed

section \<open>Stopping is bounded\<close>

text \<open>When a task has ended by a time.\<close>

definition ended_by :: "duration \<Rightarrow> duration option \<Rightarrow> bool" where
  "ended_by d f = (case f of Some t \<Rightarrow> t \<le> d | None \<Rightarrow> False)"

lemma await_fallible_cases:
  assumes "await_or_abort_fallible now h deadline nm = (r, now', a)" and "now \<le> deadline"
  shows "now \<le> now'" "now' \<le> deadline" "a \<longleftrightarrow> \<not> ended_by deadline (fst h)" "ended_by deadline (fst h) \<Longrightarrow> ended_by now' (fst h)"
    "r = (if ended_by deadline (fst h)
          then case snd h of Returned (Inr _) \<Rightarrow> Inr () | Returned (Inl e) \<Rightarrow> Inl (Inner e) | TaskPanicked \<Rightarrow> Inl (Panicked nm)
          else Inl (Late nm))"
  using assms by (auto simp: await_or_abort_fallible_def ended_by_def max_def split: option.splits if_splits)

lemma await_cases:
  assumes "await_or_abort now h deadline nm = (r, now', a)" and "now \<le> deadline"
  shows "now \<le> now'" "now' \<le> deadline" "a \<longleftrightarrow> \<not> ended_by deadline (fst h)" "ended_by deadline (fst h) \<Longrightarrow> ended_by now' (fst h)"
    "r = (if ended_by deadline (fst h) then if snd h then Inr () else Inl (Panicked nm) else Inl (Late nm))"
  using assms by (auto simp: await_or_abort_def ended_by_def max_def split: option.splits if_splits)

lemma ended_by_mono: "ended_by a f \<Longrightarrow> a \<le> b \<Longrightarrow> ended_by b f"
  by (auto simp: ended_by_def split: option.splits)

text \<open>What a task that is asked to stop reports, in the order in which the errors are returned.\<close>

fun first_failure :: "('e, unit) result list \<Rightarrow> ('e, unit) result" where
  "first_failure [] = Inr ()"
| "first_failure (Inl e # rs) = Inl e"
| "first_failure (Inr _ # rs) = first_failure rs"

definition proxy_report :: "duration \<Rightarrow> 'e handle \<Rightarrow> ('e stop_error, unit) result" where
  "proxy_report deadline h =
     (if \<not> ended_by deadline (fst h) then Inl (Late ''proxy'')
      else case snd h of Returned (Inr _) \<Rightarrow> Inr () | Returned (Inl e) \<Rightarrow> Inl (Inner e) | TaskPanicked \<Rightarrow> Inl (Panicked ''proxy''))"

definition task_report :: "duration \<Rightarrow> string \<Rightarrow> duration option \<times> bool \<Rightarrow> ('e stop_error, unit) result" where
  "task_report deadline nm h =
     (if \<not> ended_by deadline (fst h) then Inl (Late nm) else if snd h then Inr () else Inl (Panicked nm))"

text \<open>C38. \<open>Running::shutdown\<close> returns within one deadline for all the tasks together, the delay and the drain time and five
  seconds, and on every path out of it each task has ended or has been aborted, the health task always; the tasks
  that end by the deadline are not aborted. It returns the first error of proxy, admin and upkeep, in this order.\<close>

theorem embedded_shutdown_bounded:
  assumes "embed_shutdown t now k = (r, fin, aborted)" and "deadline = now + shutdown_delay t + drain_timeout t + from_secs 5"
  shows "now \<le> fin \<and> fin \<le> deadline \<and> HealthTask \<in> set aborted
    \<and> (if ended_by deadline (fst (rt_proxy k)) then ProxyTask \<notin> set aborted \<and> ended_by fin (fst (rt_proxy k)) else ProxyTask \<in> set aborted)
    \<and> (if ended_by deadline (fst (rt_admin k)) then AdminTask \<notin> set aborted \<and> ended_by fin (fst (rt_admin k)) else AdminTask \<in> set aborted)
    \<and> (if ended_by deadline (fst (rt_upkeep k)) then UpkeepTask \<notin> set aborted \<and> ended_by fin (fst (rt_upkeep k)) else UpkeepTask \<in> set aborted)
    \<and> r = first_failure [proxy_report deadline (rt_proxy k), task_report deadline ''admin'' (rt_admin k), task_report deadline ''upkeep'' (rt_upkeep k)]"
proof -
  have d: "now + shutdown_bound t = deadline" by (simp add: shutdown_bound_def shutdown_margin_def assms(2))
  obtain r1 now1 a1 where p: "await_or_abort_fallible now (rt_proxy k) deadline ''proxy'' = (r1, now1, a1)" by (metis surj_pair)
  obtain r2 now2 a2 where a: "await_or_abort now1 (rt_admin k) deadline ''admin'' = ((r2 :: ('a stop_error, unit) result), now2, a2)"
    by (metis surj_pair)
  obtain r3 now3 a3 where u: "await_or_abort now2 (rt_upkeep k) deadline ''upkeep'' = ((r3 :: ('a stop_error, unit) result), now3, a3)"
    by (metis surj_pair)
  have n: "now \<le> deadline" by (simp add: assms(2))
  note p' = await_fallible_cases [OF p n]
  note a' = await_cases [OF a p'(2)]
  note u' = await_cases [OF u a'(2)]
  have e: "fin = now3" "aborted = HealthTask # (if a1 then [ProxyTask] else []) @ (if a2 then [AdminTask] else []) @ (if a3 then [UpkeepTask] else [])"
    "r = (case r1 of Inl e \<Rightarrow> Inl e | Inr _ \<Rightarrow> (case r2 of Inl e \<Rightarrow> Inl e | Inr _ \<Rightarrow> r3))"
    using assms(1) unfolding embed_shutdown_def Let_def d p by (auto simp: a u)
  have "r = first_failure [proxy_report deadline (rt_proxy k), task_report deadline ''admin'' (rt_admin k), task_report deadline ''upkeep'' (rt_upkeep k)]"
    unfolding e(3) p'(5) a'(5) u'(5) proxy_report_def task_report_def by (auto split: sum.split ending.split)
  then show ?thesis
    using p'(1-4) a'(1-4) u'(1-4) unfolding e(1,2) by (auto intro: ended_by_mono)
qed

theorem embedded_shutdown_bounded_witness:
  "let k = \<lparr>rt_proxy = (Some (from_secs 40), Returned (Inr ())), rt_admin = (None, True), rt_upkeep = (Some 0, True)\<rparr> :: unit running_tasks in
   fst (embed_shutdown (table_new [] 0) (from_secs 20) k) = Inl (Late ''admin'')
   \<and> fst (snd (embed_shutdown (table_new [] 0) (from_secs 20) k)) \<le> from_secs 50
   \<and> AdminTask \<in> set (snd (snd (embed_shutdown (table_new [] 0) (from_secs 20) k)))
   \<and> ProxyTask \<notin> set (snd (snd (embed_shutdown (table_new [] 0) (from_secs 20) k)))"
proof -
  let ?k = "\<lparr>rt_proxy = (Some (from_secs 40), Returned (Inr ())), rt_admin = (None, True), rt_upkeep = (Some 0, True)\<rparr> :: unit running_tasks"
  obtain r fin ab where x: "embed_shutdown (table_new [] 0) (from_secs 20) ?k = (r, fin, ab)" by (metis surj_pair)
  have e: "ended_by (from_secs 50) (Some (from_secs 40))" "\<not> ended_by (from_secs 50) None" by (simp_all add: ended_by_def from_secs_def)
  have d: "from_secs 50 = from_secs 20 + shutdown_delay (table_new [] 0) + drain_timeout (table_new [] 0) + from_secs 5"
    by (simp add: table_new_def from_secs_def)
  from embedded_shutdown_bounded [OF x d] e show ?thesis
    unfolding Let_def x by (simp add: proxy_report_def task_report_def)
qed

lemma exited_in_time:
  assumes "server_inv False 0 dmax 0 rmax sv" and "sv_signal sv = Some now" and "sv_pauses sv < 50"
  shows "sv_now sv \<le> now + dmax + rmax + from_secs 5" and "sv_loop sv = Exited c \<Longrightarrow> c = 0"
proof -
  have "sv_now sv \<le> now + sv_pauses sv * accept_pause + dmax + rmax"
    using assms(1,2)
    by (cases "(False, 0 :: duration, dmax, 0 :: duration, rmax, sv, sv_signal sv, sv_shutdown sv, sv_loop sv)" rule: loop_inv.cases)
       (auto simp: server_inv_def delay_over_def)
  moreover have "sv_pauses sv * accept_pause \<le> from_secs 5"
    using assms(3) by (simp add: accept_pause_def from_millis_def from_secs_def)
  ultimately show "sv_now sv \<le> now + dmax + rmax + from_secs 5" by simp
  show "sv_loop sv = Exited c \<Longrightarrow> c = 0"
    using assms(1,2) by (cases "sv_shutdown sv") (simp_all add: server_inv_def)
qed

text \<open>C39. The five seconds are enough for the server itself. Let \<open>t\<close> be the table in place when \<open>shutdown\<close> raises the signal
  and takes its deadline, whatever tables there were before. As long as no table with a longer delay or a longer drain
  time is loaded between the signal and the exit, and fewer than fifty \<open>accept\<close>s have failed since the signal, the accept
  loop of \<open>serve\<close> with its delay and drain has not passed the deadline, and unless it has exited already it does so by
  itself before the deadline, with no help from its clients. When it has exited, it has done so with status 0, and \<open>shutdown\<close>
  finds the proxy task ended and does not abort it. (A reload that raises the delay or the drain time after the deadline
  was taken can get it aborted.)\<close>

theorem proxy_task_not_aborted:
  assumes "serve_reaches tls False earlier s0" and "sv_signal s0 = None" and "sv_table s0 = t"
    and "(serve_step tls False installable)\<^sup>*\<^sup>* s0 sv"
    and "\<forall>x. installable x \<longrightarrow> shutdown_delay x \<le> shutdown_delay t \<and> drain_timeout x \<le> drain_timeout t"
    and "sv_signal sv = Some now" and "sv_pauses sv < 50"
  shows "sv_now sv \<le> now + shutdown_delay t + drain_timeout t + from_secs 5
    \<and> (\<not> exited (sv_loop sv) \<longrightarrow>
        (\<exists>s'. (unaided tls False installable)\<^sup>*\<^sup>* sv s' \<and> sv_loop s' = Exited 0
           \<and> sv_now s' \<le> now + shutdown_delay t + drain_timeout t + from_secs 5))
    \<and> (\<forall>c. sv_loop sv = Exited c \<longrightarrow> c = 0
        \<and> (\<forall>k r fin aborted. fst (rt_proxy k) = Some (sv_now sv) \<and> embed_shutdown t now k = (r, fin, aborted) \<longrightarrow>
             ProxyTask \<notin> set aborted \<and> sv_now sv \<le> fin))"
proof -
  let ?d = "shutdown_delay t" and ?r = "drain_timeout t"
  have tables: "\<forall>x. installable x \<longrightarrow> within 0 ?d 0 ?r x" using assms(5) by (simp add: within_def)
  have "server_inv False 0 ?d 0 ?r s0" using unsignalled_inv [OF assms(1,2)] assms(3) by (simp add: within_def)
  from server_inv_steps [OF assms(4) tables this conns_inv [OF assms(1)]]
  have inv: "server_inv False 0 ?d 0 ?r sv" "list_all (conn_inv tls (sv_now sv)) (sv_conns sv)" by simp_all
  note in_time = exited_in_time [OF inv(1) assms(6,7)]
  have ends: "\<exists>s'. (unaided tls False installable)\<^sup>*\<^sup>* sv s' \<and> sv_loop s' = Exited 0 \<and> sv_now s' \<le> now + ?d + ?r + from_secs 5"
    if "\<not> exited (sv_loop sv)"
    using exits_unaided [OF inv(2,1) tables _ that] exited_in_time(1) assms(6,7) by fastforce
  have "ProxyTask \<notin> set aborted \<and> sv_now sv \<le> fin"
    if "fst (rt_proxy k) = Some (sv_now sv)" "embed_shutdown t now k = (r, fin, aborted)" for k r fin aborted
    using that in_time(1)
    by (auto simp: embed_shutdown_def await_or_abort_fallible_def await_or_abort_def Let_def shutdown_bound_def
        shutdown_margin_def split: prod.splits option.splits if_splits)
  then show ?thesis using in_time ends by blast
qed

theorem proxy_task_not_aborted_witness:
  "let k = \<lparr>rt_proxy = (Some 0, Returned (Inr ())), rt_admin = (Some 1, True), rt_upkeep = (Some 0, True)\<rparr> :: unit running_tasks in
   ProxyTask \<notin> set (snd (snd (embed_shutdown (table_new [] 0) 0 k)))"
proof -
  let ?t = "table_new [] 0" and ?R = "serve_step False False (\<lambda>x. x = table_new [] 0)"
  let ?k = "\<lparr>rt_proxy = (Some 0, Returned (Inr ())), rt_admin = (Some 1, True), rt_upkeep = (Some 0, True)\<rparr> :: unit running_tasks"
  define s0 where "s0 = server_new ?t 0"
  define s1 where "s1 = s0\<lparr>sv_signal := Some 0\<rparr>"
  define s2 where "s2 = s1\<lparr>sv_draining := True, sv_shutdown := Delay 0\<rparr>"
  define s3 where "s3 = s2\<lparr>sv_loop := Draining (from_secs 25), sv_listening := False\<rparr>"
  define s4 where "s4 = s3\<lparr>sv_loop := Exited 0\<rparr>"
  note d = s0_def s1_def s2_def s3_def s4_def server_new_def
  have "?R s0 s1" using serve_step.signalled [of s0 False False] by (simp add: d)
  moreover have "?R s1 s2" using serve_step.taken [of s1 False False] by (simp add: d table_new_def)
  moreover have "?R s2 s3" using serve_step.closed [of s2 0 False False] by (simp add: d table_new_def)
  moreover have "?R s3 s4" using serve_step.drained [of s3 "from_secs 25" False False] by (simp add: d)
  ultimately have run: "?R\<^sup>*\<^sup>* s0 s4" by (meson converse_rtranclp_into_rtranclp rtranclp.rtrancl_refl)
  have r: "serve_reaches False False (\<lambda>x. x = ?t) s0" unfolding serve_reaches_def s0_def by blast
  obtain r' fin ab where x: "embed_shutdown ?t 0 ?k = (r', fin, ab)" by (metis surj_pair)
  have s: "sv_signal s0 = None" "sv_table s0 = ?t" "sv_signal s4 = Some 0" "sv_pauses s4 < 50" "sv_loop s4 = Exited 0"
    "fst (rt_proxy ?k) = Some (sv_now s4)" by (simp_all add: d)
  have "ProxyTask \<notin> set ab" using proxy_task_not_aborted [OF r s(1,2) run _ s(3,4)] s(5,6) x by blast
  then show ?thesis unfolding Let_def x by simp
qed

section \<open>The status page\<close>

text \<open>\<open>/status\<close> lists every upstream of the table once, with the state its breaker is in, and changes nothing.\<close>

lemma status_truthful:
  "er_body (embed_admin show_uri t s rendered ''GET'' ''/status'')
     = JsonText (JObj [(''upstreams'', JArr (map (\<lambda>u.
         JObj [(''name'', JStr (u_name u)), (''uri'', JStr (show_uri (u_uri u))),
               (''state'', JStr (state_str (from_u8 (b_state (breakers s ! u_breaker u)))))]) (upstreams t)))])"
  "distinct (map u_name (upstreams t))"
  using upstreams_names(1) [of t] by (simp_all add: embed_admin_def status_json_def on_breaker_def)

section \<open>The interval is used before it is checked\<close>

text \<open>C40. \<open>main\<close> of the example sizes the metrics recorder from \<open>health_interval_secs\<close> before the configuration has been
  validated. An interval whose triple does not fit 64 bits of seconds makes it panic, where \<open>start\<close> would have returned
  the error that the interval is out of range; any smaller interval does not.\<close>

theorem main_panics_before_validation:
  assumes "load_config (e_parse_toml E) (\<lambda>p. case fs p of Some b \<Rightarrow> if utf8_valid b then Some b else None | None \<Rightarrow> None) config = Inr cfg"
    and "cert = None \<longleftrightarrow> k = None"
  shows "(embed_main E single_cert fs bind watch config pb ab cert k w s = Panic \<longleftrightarrow> 2 ^ 64 \<le> unat (c_health_interval_secs cfg) * 3)
    \<and> (2 ^ 64 \<le> unat (c_health_interval_secs cfg) * 3 \<longrightarrow>
         (\<exists>e. embed_start E single_cert fs bind watch
           \<lparr>se_config = config, se_proxy_bind = pb, se_admin_bind = ab, se_tls = tls\<rparr> w s = (Inl (BuildFailed e), w, s)))"
proof -
  let ?n = "unat (c_health_interval_secs cfg)"
  have p: "prometheus_builder (from_secs ?n) = None \<longleftrightarrow> 2 ^ 64 \<le> ?n * 3"
    by (auto simp: prometheus_builder_def times3_def from_secs_def)
  have "\<exists>e. build_table (e_parsers E) cfg None s = (Inl e, s)" if "2 ^ 64 \<le> ?n * 3"
  proof -
    have "check_secs (''health_interval_secs'', c_health_interval_secs cfg) \<noteq> None" using that unfolding check_secs_None by simp
    then have "check_top (e_parsers E) cfg \<noteq> None" by (auto simp: check_top_def first_error_None secs_keys_def)
    then show ?thesis by (auto simp: build_table_def)
  qed
  then show ?thesis
    using assms p by (auto simp: embed_main_def embed_start_def split: option.splits)
qed

theorem main_panics_before_validation_witness:
  "let E = demo_env\<lparr>e_parse_toml := \<lambda>_. Some ((default_config [])\<lparr>c_health_interval_secs := 0x7FFFFFFFFFFFFFFF\<rparr>)\<rparr>;
       a = \<lparr>sa_ip = V4 0, sa_port = 0\<rparr> in
   embed_main E (\<lambda>_ _. True) (\<lambda>_. Some []) demo_bind (\<lambda>_ _. True) ''c.toml'' a a None None
     \<lparr>os_bound = [], os_tasks = [], os_watches = []\<rparr> empty_store = Panic"
proof -
  let ?c = "(default_config [])\<lparr>c_health_interval_secs := 0x7FFFFFFFFFFFFFFF\<rparr>"
  let ?E = "demo_env\<lparr>e_parse_toml := \<lambda>_. Some ?c\<rparr>"
  have l: "load_config (e_parse_toml ?E) (\<lambda>p. case Some [] of Some b \<Rightarrow> if utf8_valid b then Some b else None | None \<Rightarrow> None) ''c.toml'' = Inr ?c"
    by (simp add: load_config_def config_from_str_def)
  show ?thesis
    unfolding Let_def using main_panics_before_validation [OF l, of None None] by simp
qed

end
