(* ===== verification/Boot.thy ===== *)
theory Boot
  imports Server_Main Triggers
begin

text \<open>
  The order in which \<open>main\<close> of \<open>crates/server/src/main.rs\<close> brings the server up, after the validation of theory
  \<open>Server_Main\<close>: the background tasks, the file watch, the two listeners, and the message to the service manager.
\<close>

section \<open>Bringing the server up\<close>

datatype boot_event =
    SpawnHealthLoop
  | Watching "path list"
  | SpawnSighup
  | BoundProxy socket_addr
  | BoundAdmin socket_addr
  | SpawnAdmin
  | Told "(notify_addr \<times> string) list"

datatype boot_error = StartFailed main_error | WatchError | BindError socket_addr

text \<open>\<open>watch\<close> and \<open>bind\<close> are the operating system's: whether the watch could be set up, and the address a listener got.\<close>

definition boot ::
    "'k reload_env \<Rightarrow> (path list \<Rightarrow> bool) \<Rightarrow> (socket_addr \<Rightarrow> socket_addr option) \<Rightarrow> string option \<Rightarrow>
     file_system \<Rightarrow> env_var \<Rightarrow> env_var \<Rightarrow> args \<Rightarrow> store \<Rightarrow> (boot_error, 'k reloader \<times> store) result \<times> boot_event list" where
  "boot E watch bind n fs inline port a s =
     (case start E fs inline a s of
        Inl e \<Rightarrow> (Inl (StartFailed e), [])
      | Inr (r, s1, watching) \<Rightarrow>
          (let ev1 = [SpawnHealthLoop] in
           if watching \<and> \<not> watch (watch_dirs r) then (Inl WatchError, ev1)
           else
             (let ev2 = ev1 @ (if watching then [Watching (watch_dirs r)] else []) @ [SpawnSighup] in
              case resolve_bind (a_bind a) (case port of Present p \<Rightarrow> Some p | _ \<Rightarrow> None) of
                Inl e \<Rightarrow> (Inl (StartFailed e), ev2)
              | Inr addr \<Rightarrow>
                  (case bind addr of
                     None \<Rightarrow> (Inl (BindError addr), ev2)
                   | Some proxy_addr \<Rightarrow>
                       (let ev3 = ev2 @ [BoundProxy proxy_addr] in
                        case bind (a_metrics_bind a) of
                          None \<Rightarrow> (Inl (BindError (a_metrics_bind a)), ev3)
                        | Some admin_addr \<Rightarrow>
                            (Inr (r, s1), ev3 @ [BoundAdmin admin_addr, SpawnAdmin, Told (notify_send n (ready_msg ''serving''))]))))))"

text \<open>The server is never announced before it can serve. The admin server, which answers \<open>/readyz\<close>, is started and the service
  manager told only after the proxy's listener is bound, and only by a start that succeeds; a start that fails at any
  step, configuration, watch, port or either bind, has done neither.\<close>

theorem ready_after_listening:
  assumes "boot E watch bind n fs inline port a s = (res, evs)"
  shows "case res of
      Inl _ \<Rightarrow> SpawnAdmin \<notin> set evs \<and> (\<forall>m. Told m \<notin> set evs)
    | Inr _ \<Rightarrow> (\<exists>before p ad. evs = before @ [BoundProxy p, BoundAdmin ad, SpawnAdmin, Told (notify_send n (ready_msg ''serving''))]
        \<and> SpawnAdmin \<notin> set before \<and> (\<forall>m. Told m \<notin> set before))"
  using assms
  by (auto simp: boot_def Let_def split: sum.splits prod.splits option.splits if_splits)

theorem ready_after_listening_witness:
  "\<exists>before p ad. snd (boot demo_env (\<lambda>_. True) Some (Some ''/run/notify'') (\<lambda>p. Some ''new'') NotPresent (Present ''8081'') (demo_args (Some ''key'')) empty_store)
     = before @ [BoundProxy p, BoundAdmin ad, SpawnAdmin, Told (notify_send (Some ''/run/notify'') (ready_msg ''serving''))]"
proof -
  let ?b = "boot demo_env (\<lambda>_. True) Some (Some ''/run/notify'') (\<lambda>p. Some ''new'') NotPresent (Present ''8081'') (demo_args (Some ''key'')) empty_store"
  obtain res evs where b: "?b = (res, evs)" by (metis surj_pair)
  have "\<not> isl (fst ?b)" by code_simp
  with ready_after_listening [OF b] show ?thesis unfolding b by (cases res) auto
qed

section \<open>What the check command foretells\<close>

lemma boot_after_start:
  assumes "start E fs inline a s = Inr (r, s', w)"
  shows "fst (boot E watch bind n fs inline port a s) =
    (if w \<and> \<not> watch (watch_dirs r) then Inl WatchError
     else case resolve_bind (a_bind a) (case port of Present p \<Rightarrow> Some p | _ \<Rightarrow> None) of
         Inl e \<Rightarrow> Inl (StartFailed e)
       | Inr addr \<Rightarrow>
           if bind addr = None then Inl (BindError addr)
           else if bind (a_metrics_bind a) = None then Inl (BindError (a_metrics_bind a))
           else Inr (r, s'))"
  using assms by (simp add: boot_def Let_def split: sum.split option.split)

text \<open>C23. \<open>ferryman check\<close> tells the truth about everything it validates, for the same arguments, environment
  and files. If it exits 1, the server started with them fails as well, before it has started any task. If
  it exits 0, the server gets past its validation with as many routes as \<open>check\<close> reports, and then comes up
  exactly when the four things that \<open>check\<close> does not look at are right: the file watch, where files are to
  be watched, the bind address, which is where an invalid \<open>PORT\<close> is found, and the binding of the two
  listeners; it fails with the error of the first that is not. (That rustls accepts a certificate for a
  fixed configuration exactly when it accepts it for a swappable one is its documented behaviour. The
  installation of the signal handler and of the metrics recorder is taken to succeed.)\<close>

theorem check_agrees_with_boot:
  assumes "\<forall>cs k. single_cert cs k \<longleftrightarrow> e_from_der E cs k \<noteq> None"
  shows "let res = fst (boot E watch bind n fs inline port a s);
             target = resolve_bind (a_bind a) (case port of Present p \<Rightarrow> Some p | _ \<Rightarrow> None) in
    case check E single_cert fs inline a s of
      Inl _ \<Rightarrow> report (check E single_cert fs inline a s) = 1
        \<and> (\<exists>e. boot E watch bind n fs inline port a s = (Inl (StartFailed e), []))
    | Inr k \<Rightarrow> report (check E single_cert fs inline a s) = 0
        \<and> (\<exists>r s' w. start E fs inline a s = Inr (r, s', w) \<and> length (routes (rl_table r)) = k
            \<and> res =
              (if w \<and> \<not> watch (watch_dirs r) then Inl WatchError
               else case target of
                   Inl e \<Rightarrow> Inl (StartFailed e)
                 | Inr addr \<Rightarrow>
                     if bind addr = None then Inl (BindError addr)
                     else if bind (a_metrics_bind a) = None then Inl (BindError (a_metrics_bind a))
                     else Inr (r, s')))"
proof (cases "check E single_cert fs inline a s")
  case (Inl e)
  then show ?thesis using check_agrees_with_start [OF assms, of fs inline a s] by (auto simp: boot_def)
next
  case (Inr k)
  then obtain r s' w where st: "start E fs inline a s = Inr (r, s', w)" "length (routes (rl_table r)) = k"
    "report (check E single_cert fs inline a s) = 0"
    using check_agrees_with_start [OF assms, of fs inline a s] by auto
  show ?thesis unfolding Let_def Inr sum.case st(3) [unfolded Inr] boot_after_start [OF st(1)]
    by (intro conjI exI refl) (rule st(1), rule st(2), rule refl)
qed

theorem check_agrees_with_boot_witness:
  "report (check demo_env (\<lambda>cs k. e_from_der demo_env cs k \<noteq> None) (\<lambda>p. Some ''new'') NotPresent (demo_args (Some ''key'')) empty_store) = 0
   \<and> (\<exists>r s'. fst (boot demo_env (\<lambda>_. True) Some None (\<lambda>p. Some ''new'') NotPresent (Present ''8081'') (demo_args (Some ''key'')) empty_store)
        = Inr (r, s') \<and> length (routes (rl_table r)) = 2)
   \<and> fst (boot demo_env (\<lambda>_. True) Some None (\<lambda>p. Some ''new'') NotPresent (Present ''abc'') (demo_args (Some ''key'')) empty_store)
       = Inl (StartFailed (InvalidPort ''abc''))"
proof -
  let ?sc = "\<lambda>cs k. e_from_der demo_env cs k \<noteq> None" and ?fs = "\<lambda>p. Some ''new''" and ?a = "demo_args (Some ''key'')"
  have c: "check demo_env ?sc ?fs NotPresent ?a empty_store = Inr 2" by code_simp
  have p: "resolve_bind (a_bind ?a) (Some ''8081'') = Inr \<lparr>sa_ip = V4 0, sa_port = 8081\<rparr>"
    "resolve_bind (a_bind ?a) (Some ''abc'') = Inl (InvalidPort ''abc'')" by code_simp+
  note t = check_agrees_with_boot [of ?sc demo_env "\<lambda>_. True" Some None ?fs NotPresent _ ?a empty_store, unfolded c sum.case Let_def]
  show ?thesis using t [of "Present ''8081''"] t [of "Present ''abc''"] p unfolding c by auto
qed

end
