(* ===== verification/Side_Tasks.thy ===== *)
theory Side_Tasks
  imports Boot Embedded Demo_Upstream
begin

text \<open>
  The loops around the core: the accept loops of the admin servers and of the upstreams used for
  demonstration, the upkeep of the metrics recorder, the signals, and the commands of \<open>main\<close>. What a
  \<open>select!\<close> took, and when it was ready, is given as a list of events; where two branches are ready at once
  the list says which one was taken.
\<close>

section \<open>Accept loops\<close>

datatype 'c ready = Conn 'c | Failure | Stopped

text \<open>What the body of a loop does with it: the connections it spawns a task for, and whether the loop goes on, after
  a pause, or returns, with an error or without.\<close>

datatype control = Again duration | Leave bool

datatype loop_end = Waiting duration | Ended duration bool

fun run_loop ::
    "('c ready \<Rightarrow> 'c list \<times> control) \<Rightarrow> duration \<Rightarrow> (duration \<times> 'c ready) list \<Rightarrow> (duration \<times> 'c) list \<times> loop_end" where
  "run_loop body now [] = ([], Waiting now)"
| "run_loop body now ((t, r) # evs) =
     (let at_time = max now t; (cs, k) = body r in
      map_prod (\<lambda>xs. map (Pair at_time) cs @ xs) id
        (case k of
           Again p \<Rightarrow> run_loop body (at_time + p) evs
         | Leave ok \<Rightarrow> ([], Ended at_time ok)))"

text \<open>\<open>serve_admin\<close>: it looks at nothing but \<open>accept\<close>, and ends only when it is dropped.\<close>

fun admin_loop :: "'c ready \<Rightarrow> 'c list \<times> control" where
  "admin_loop (Conn c) = ([c], Again 0)"
| "admin_loop Failure = ([], Again admin_pause)"
| "admin_loop Stopped = ([], Again 0)"

text \<open>\<open>admin::run\<close> of the embedding example: it returns when the shutdown flag is set.\<close>

fun embed_admin_loop :: "'c ready \<Rightarrow> 'c list \<times> control" where
  "embed_admin_loop Stopped = ([], Leave True)"
| "embed_admin_loop (Conn c) = ([c], Again 0)"
| "embed_admin_loop Failure = ([], Again 0)"

text \<open>\<open>main\<close> of the demo upstream: it returns on \<open>SIGTERM\<close>.\<close>

fun demo_loop :: "'c ready \<Rightarrow> 'c list \<times> control" where
  "demo_loop Stopped = ([], Leave True)"
| "demo_loop (Conn c) = ([c], Again 0)"
| "demo_loop Failure = ([], Again 0)"

text \<open>\<open>main\<close> of the echo upstream: it too looks at nothing but \<open>accept\<close>, and returns the error of a failed one.\<close>

fun echo_loop :: "'c ready \<Rightarrow> 'c list \<times> control" where
  "echo_loop (Conn c) = ([c], Again 0)"
| "echo_loop Failure = ([], Leave False)"
| "echo_loop Stopped = ([], Again 0)"

section \<open>What the loops promise\<close>

text \<open>A loop that survives failed accepts, and pauses \<open>pause\<close> after each.\<close>

locale accept_loop =
  fixes body :: "'c ready \<Rightarrow> 'c list \<times> control" and pause :: duration
  assumes takes: "body (Conn c) = ([c], Again 0)"
    and survives: "body Failure = ([], Again pause)"
begin

lemma loop_simps:
  "run_loop body now ((t, Conn c) # evs) = map_prod (Cons (max now t, c)) id (run_loop body (max now t) evs)"
  "run_loop body now ((t, Failure) # evs) = run_loop body (max now t + pause) evs"
  by (simp_all add: takes survives map_prod_def split: prod.split)

text \<open>Every connection offered is served, in order, whatever accepts fail in between.\<close>

lemma conns_served:
  assumes "Stopped \<notin> snd ` set evs"
  shows "map snd (fst (run_loop body now (evs @ rest)))
    = List.map_filter (\<lambda>e. case snd e of Conn c \<Rightarrow> Some c | _ \<Rightarrow> None) evs
      @ map snd (fst (run_loop body (fold (\<lambda>e now. max now (fst e) + (if snd e = Failure then pause else 0)) evs now) rest))"
  using assms
proof (induction evs arbitrary: now)
  case (Cons e evs)
  then show ?case by (cases e; cases "snd e") (simp_all add: loop_simps List.map_filter_def del: run_loop.simps)
qed (simp add: List.map_filter_def)

text \<open>A listener that fails at once every time: what the pause is for.\<close>

lemma storm: "run_loop body t (replicate n (t, Failure)) = ([], Waiting (t + n * pause))"
proof -
  have "run_loop body now (replicate n (t, Failure)) = ([], Waiting (now + n * pause))" if "t \<le> now" for now
    using that by (induction n arbitrary: now) (simp_all add: loop_simps max_def del: run_loop.simps(2))
  then show ?thesis by simp
qed

end

text \<open>One that can be asked to stop serves what was offered before, and returns.\<close>

locale stoppable_loop = accept_loop +
  assumes stops: "body Stopped = ([], Leave True)"
begin

lemma returns_when_stopped:
  assumes "Stopped \<notin> snd ` set evs"
  shows "map snd (fst (run_loop body now (evs @ (t, Stopped) # rest)))
      = List.map_filter (\<lambda>e. case snd e of Conn c \<Rightarrow> Some c | _ \<Rightarrow> None) evs"
    and "\<exists>u \<ge> t. snd (run_loop body now (evs @ (t, Stopped) # rest)) = Ended u True"
proof -
  show "map snd (fst (run_loop body now (evs @ (t, Stopped) # rest)))
      = List.map_filter (\<lambda>e. case snd e of Conn c \<Rightarrow> Some c | _ \<Rightarrow> None) evs"
    using conns_served [OF assms] by (simp add: stops)
  show "\<exists>u \<ge> t. snd (run_loop body now (evs @ (t, Stopped) # rest)) = Ended u True"
    using assms
  proof (induction evs arbitrary: now)
    case Nil
    show ?case by (intro exI [of _ "max now t"]) (simp add: stops)
  next
    case (Cons e evs)
    then show ?case by (cases e; cases "snd e") (simp_all add: loop_simps del: run_loop.simps)
  qed
qed

end

interpretation admin: accept_loop admin_loop admin_pause
  by unfold_locales simp_all

interpretation embedded_admin: stoppable_loop embed_admin_loop 0
  by unfold_locales simp_all

interpretation demo_main: stoppable_loop demo_loop 0
  by unfold_locales simp_all

text \<open>The loop of \<open>serve_admin\<close> is the one of theory \<open>Server_Main\<close>.\<close>

lemma admin_loop_accepts:
  "fst (run_loop admin_loop now (map (map_prod id (\<lambda>r. case r of Some c \<Rightarrow> Conn c | None \<Rightarrow> Failure)) evs)) = admin_accepts now evs"
  by (induction now evs rule: admin_accepts.induct) (simp_all add: admin.loop_simps del: run_loop.simps(2))

text \<open>While \<open>accept\<close> keeps failing, as it does when the process is out of file descriptors, \<open>serve_admin\<close> tries ten times
  a second, but the loops of the examples, which have no pause, any number of times in no time at all.\<close>

lemma failing_accepts:
  "run_loop admin_loop 0 (replicate n (0, Failure)) = ([], Waiting (n * admin_pause))"
  "run_loop embed_admin_loop 0 (replicate n (0, Failure)) = ([], Waiting 0)"
  "run_loop demo_loop 0 (replicate n (0, Failure)) = ([], Waiting 0)"
  by (simp_all add: admin.storm embedded_admin.storm demo_main.storm)

text \<open>The echo upstream serves until the first failed \<open>accept\<close> and ends with its error.\<close>

lemma echo_loop_ends:
  "\<exists>ends. run_loop echo_loop now (map (\<lambda>(u, c). (u, Conn c)) conns @ (t, Failure) # evs)
     = (fst (run_loop echo_loop now (map (\<lambda>(u, c). (u, Conn c)) conns)), Ended ends False)"
proof (induction conns arbitrary: now)
  case (Cons x conns)
  obtain u c where x: "x = (u, c)" by fastforce
  obtain ends where "run_loop echo_loop (max now u) (map (\<lambda>(u, c). (u, Conn c)) conns @ (t, Failure) # evs)
     = (fst (run_loop echo_loop (max now u) (map (\<lambda>(u, c). (u, Conn c)) conns)), Ended ends False)"
    using Cons.IH by blast
  then show ?case by (simp add: x Let_def)
qed simp

text \<open>The echo upstream: its address, its one answer, and \<open>main\<close>; \<open>bind\<close> says whether the address could be bound.\<close>

definition echo_addr :: "string list \<Rightarrow> string" where
  "echo_addr argv = (if 1 < length argv then argv ! 1 else ''127.0.0.1:8001'')"

definition echo_answer :: "'r \<Rightarrow> nat \<times> string" where
  "echo_answer req = (200, ''ok'')"

definition echo_main ::
    "(string \<Rightarrow> bool) \<Rightarrow> string list \<Rightarrow> (duration \<times> 'r list ready) list \<Rightarrow> (nat \<times> string) list list \<times> loop_end" where
  "echo_main bind argv evs =
     (if \<not> bind (echo_addr argv) then ([], Ended 0 False)
      else map_prod (map (\<lambda>(t, reqs). map echo_answer reqs)) id (run_loop echo_loop 0 evs))"

section \<open>The upkeep of the recorder\<close>

text \<open>\<open>tokio::time::interval\<close> ticks at once and then every period; a tick that is late does not move the ones after it.
  The times at which \<open>run_upkeep\<close> is called by a task that is stopped, or dropped, at \<open>stop\<close>.\<close>

definition interval_ticks :: "duration \<Rightarrow> duration \<Rightarrow> duration list" where
  "interval_ticks period stop = map (\<lambda>k. k * period) [0 ..< Suc (stop div period)]"

definition admin_upkeep :: "duration \<Rightarrow> duration list" where
  "admin_upkeep stop = interval_ticks (from_secs 5) stop"

definition embed_upkeep :: "duration \<Rightarrow> duration list" where
  "embed_upkeep stop = interval_ticks (from_secs 5) stop"

text \<open>The recorder is never left alone for longer than the period.\<close>

lemma interval_ticks_cover:
  assumes "0 < period" and "t \<le> stop"
  shows "\<exists>u \<in> set (interval_ticks period stop). u \<le> t \<and> t < u + period"
proof
  show "t div period * period \<in> set (interval_ticks period stop)"
    using div_le_mono [OF assms(2), of period] by (auto simp: interval_ticks_def less_Suc_eq_le simp del: upt_Suc intro!: imageI)
  show "t div period * period \<le> t \<and> t < t div period * period + period"
    using assms(1) by (metis add_strict_left_mono div_mult_mod_eq le_add1 mod_less_divisor)
qed

lemma upkeep_regular:
  "t \<le> stop \<Longrightarrow> \<exists>u \<in> set (admin_upkeep stop). u \<le> t \<and> t < u + from_secs 5"
  "t \<le> stop \<Longrightarrow> \<exists>u \<in> set (embed_upkeep stop). u \<le> t \<and> t < u + from_secs 5"
  using interval_ticks_cover [of "from_secs 5" t stop]
  by (simp_all add: admin_upkeep_def embed_upkeep_def from_secs_def)

section \<open>Signals\<close>

datatype unix_signal = SIGTERM | SIGINT | SIGHUP

text \<open>The first \<open>SIGTERM\<close> or \<open>SIGINT\<close> that arrives once the handlers are installed, and the signals after it.\<close>

fun shutdown_signal ::
    "duration \<Rightarrow> (duration \<times> unix_signal) list \<Rightarrow> (duration \<times> (duration \<times> unix_signal) list) option" where
  "shutdown_signal now [] = None"
| "shutdown_signal now ((t, sig) # sigs) =
     (if now \<le> t \<and> (sig = SIGTERM \<or> sig = SIGINT) then Some (t, sigs) else shutdown_signal now sigs)"

text \<open>\<open>second_signal\<close>: it waits for the first to be taken, and then for another one.\<close>

definition second_signal :: "(duration \<times> unix_signal) list \<Rightarrow> duration option" where
  "second_signal sigs =
     (case shutdown_signal 0 sigs of None \<Rightarrow> None | Some (t, rest) \<Rightarrow> map_option fst (shutdown_signal t rest))"

text \<open>The watch channel of the embedding example: when its flag was set, and when its sender was dropped. \<open>wait_for\<close> sees a
  flag that is already set at once, and fails once the sender is gone, which its callers take for the same.\<close>

record watch_channel =
  wc_set :: "duration option"
  wc_closed :: "duration option"

definition wait_for_shutdown :: "duration \<Rightarrow> watch_channel \<Rightarrow> duration option" where
  "wait_for_shutdown now ch =
     (case (wc_set ch, wc_closed ch) of
        (None, None) \<Rightarrow> None
      | (Some t, None) \<Rightarrow> Some (max now t)
      | (None, Some t) \<Rightarrow> Some (max now t)
      | (Some t, Some u) \<Rightarrow> Some (max now (min t u)))"

text \<open>When a task of a running instance is told to stop: the health checker never, the proxy after the delay of the table.\<close>

fun told_to_stop :: "route_table \<Rightarrow> duration \<Rightarrow> watch_channel \<Rightarrow> task \<Rightarrow> duration option" where
  "told_to_stop t now ch HealthTask = None"
| "told_to_stop t now ch ProxyTask = map_option (\<lambda>at_time. at_time + shutdown_delay t) (wait_for_shutdown now ch)"
| "told_to_stop t now ch AdminTask = wait_for_shutdown now ch"
| "told_to_stop t now ch UpkeepTask = wait_for_shutdown now ch"

text \<open>Dropping a \<open>Running\<close> drops the sender and so stops its proxy, its admin server and its upkeep as \<open>shutdown\<close> would; only the
  health checker goes on.\<close>

lemma dropped_running_stops:
  "told_to_stop t now \<lparr>wc_set = None, wc_closed = Some d\<rparr> k = told_to_stop t now \<lparr>wc_set = Some d, wc_closed = None\<rparr> k"
  "told_to_stop t now \<lparr>wc_set = None, wc_closed = Some d\<rparr> k = None \<longleftrightarrow> k = HealthTask"
  by (cases k; simp add: wait_for_shutdown_def)+

lemma never_told:
  "told_to_stop t now ch k = None \<longleftrightarrow> k = HealthTask \<or> wc_set ch = None \<and> wc_closed ch = None"
  by (cases k; cases "wc_set ch"; cases "wc_closed ch"; simp add: wait_for_shutdown_def)

text \<open>The rest of \<open>main\<close> of the embedding example: it waits for a signal and shuts the instance down.\<close>

definition embed_life ::
    "(duration \<Rightarrow> route_table) \<Rightarrow> (duration \<Rightarrow> 'e running_tasks) \<Rightarrow> duration \<Rightarrow> (duration \<times> unix_signal) list
     \<Rightarrow> (('e stop_error, unit) result \<times> duration \<times> task list) option" where
  "embed_life table tasks now sigs =
     map_option (\<lambda>(at_time, _). embed_shutdown (table at_time) at_time (tasks at_time)) (shutdown_signal now sigs)"

lemma shutdown_signal_first:
  assumes "sorted (map fst sigs)" and "shutdown_signal now sigs = Some (t, rest)"
  shows "now \<le> t" and "(t, SIGTERM) \<in> set sigs \<or> (t, SIGINT) \<in> set sigs"
    and "(u, sig) \<in> set sigs \<Longrightarrow> now \<le> u \<Longrightarrow> sig \<noteq> SIGHUP \<Longrightarrow> t \<le> u"
  using assms
proof (induction now sigs rule: shutdown_signal.induct)
  case (2 now v g sigs)
  { case 1 with 2 show ?case by (auto split: if_splits) }
  { case 2 with "2.IH" show ?case by (auto split: if_splits) }
  { case 3 with 2 show ?case by (cases g; cases sig) (auto split: if_splits) }
qed simp_all

lemma shutdown_signal_None:
  "shutdown_signal now sigs = None \<longleftrightarrow> list_all (\<lambda>(t, sig). now \<le> t \<longrightarrow> sig = SIGHUP) sigs"
proof (induction now sigs rule: shutdown_signal.induct)
  case (2 now t sig sigs)
  then show ?case by (cases sig) auto
qed simp

text \<open>The server exits at once with 130 exactly when it was told twice; a \<open>SIGHUP\<close> counts for nothing here.\<close>

definition stop_signals :: "(duration \<times> unix_signal) list \<Rightarrow> (duration \<times> unix_signal) list" where
  "stop_signals sigs = filter (\<lambda>e. snd e \<noteq> SIGHUP) sigs"

lemma shutdown_signal_filter:
  assumes "\<forall>e \<in> set sigs. now \<le> fst e"
  shows "map_option (\<lambda>(t, rest). (t, stop_signals rest)) (shutdown_signal now sigs)
    = (case stop_signals sigs of [] \<Rightarrow> None | e # es \<Rightarrow> Some (fst e, es))"
  using assms
proof (induction now sigs rule: shutdown_signal.induct)
  case (2 now t sig sigs)
  then show ?case by (cases sig) (simp_all add: stop_signals_def)
qed (simp add: stop_signals_def)

lemma shutdown_signal_rest:
  "shutdown_signal now sigs = Some (t, rest) \<Longrightarrow> sorted (map fst sigs) \<Longrightarrow> \<forall>e \<in> set rest. t \<le> fst e"
  by (induction now sigs rule: shutdown_signal.induct) (auto split: if_splits)

lemma second_signal_iff:
  assumes "sorted (map fst sigs)"
  shows "second_signal sigs \<noteq> None \<longleftrightarrow> 2 \<le> length (stop_signals sigs)"
proof (cases "shutdown_signal 0 sigs")
  case None
  then show ?thesis using shutdown_signal_filter [of sigs 0] by (simp add: second_signal_def split: list.splits)
next
  case (Some x)
  obtain t rest where x: "x = (t, rest)" by fastforce
  have "stop_signals rest = tl (stop_signals sigs)" "stop_signals sigs \<noteq> []"
    using shutdown_signal_filter [of sigs 0] Some x by (auto split: list.splits)
  moreover have "shutdown_signal t rest \<noteq> None \<longleftrightarrow> stop_signals rest \<noteq> []"
    using shutdown_signal_filter [OF shutdown_signal_rest [OF _ assms, of 0 t rest]] Some x
    by (cases "shutdown_signal t rest") (auto split: list.splits)
  ultimately show ?thesis
    using Some x by (cases "stop_signals sigs") (auto simp: second_signal_def Suc_le_eq)
qed

section \<open>The commands\<close>

text \<open>\<open>main\<close>, up to serving: a command exits with its code and does nothing else; an error of the start is reported by the
  runtime with the code 1.\<close>

datatype 'k main_result = Exit nat | Serving "'k reloader" store

definition ferryman_main ::
    "'k reload_env \<Rightarrow> (string list \<Rightarrow> string \<Rightarrow> bool) \<Rightarrow> (string \<Rightarrow> check_uri option) \<Rightarrow>
     (string \<Rightarrow> nat \<Rightarrow> string \<Rightarrow> string \<Rightarrow> nat option \<times> (string, nat) result) \<Rightarrow>
     (path list \<Rightarrow> bool) \<Rightarrow> (socket_addr \<Rightarrow> socket_addr option) \<Rightarrow> string option \<Rightarrow>
     file_system \<Rightarrow> env_var \<Rightarrow> env_var \<Rightarrow> args \<Rightarrow> store \<Rightarrow> 'k main_result \<times> boot_event list" where
  "ferryman_main E single_cert parse exchange watch bind n fs inline port a s =
     (case a_cmd a of
        Some Check \<Rightarrow> (Exit (report (check E single_cert fs inline a s)), [])
      | Some (Healthcheck url) \<Rightarrow> (Exit (report (healthcheck parse exchange (healthcheck_url url a))), [])
      | None \<Rightarrow>
          (case boot E watch bind n fs inline port a s of
             (Inl e, evs) \<Rightarrow> (Exit 1, evs)
           | (Inr (r, s'), evs) \<Rightarrow> (Serving r s', evs)))"

text \<open>The commands open no socket, start no task and watch no file; the server does nothing that lasts before its
  configuration and certificate are accepted.\<close>

lemma commands_only_look:
  "a_cmd a \<noteq> None \<Longrightarrow> snd (ferryman_main E single_cert parse exchange watch bind n fs inline port a s) = []"
  "start E fs inline a s = Inl e \<Longrightarrow>
     snd (ferryman_main E single_cert parse exchange watch bind n fs inline port a s) = []"
  by (auto simp: ferryman_main_def boot_def split: option.splits cmd.splits)

end
