(* ===== verification/Tls_Stream.thy ===== *)
theory Tls_Stream
  imports Reload
begin

text \<open>
  The two remaining parts of \<open>crates/server/src/tls.rs\<close>: the resolver that hands the current certificate to a handshake, and
  \<open>MaybeTlsStream\<close>, behind which a plain and a TLS connection look the same to the connection task. The streams themselves
  are arguments.
\<close>

section \<open>The certificate of a handshake\<close>

definition resolve :: "'k tls_reloader \<Rightarrow> 'k option" where
  "resolve tr = Some (tr_current tr)"

section \<open>One stream for both\<close>

datatype io_answer = IoPending | IoRead string | IoWritten nat | IoDone | IoError string

text \<open>The polls of an asynchronous stream: each answers and may change the stream. \<open>io_read\<close> is given the room in the buffer.\<close>

record 's io_ops =
  io_read :: "nat \<Rightarrow> 's \<Rightarrow> io_answer \<times> 's"
  io_write :: "string \<Rightarrow> 's \<Rightarrow> io_answer \<times> 's"
  io_flush :: "'s \<Rightarrow> io_answer \<times> 's"
  io_shutdown :: "'s \<Rightarrow> io_answer \<times> 's"

datatype ('p, 't) maybe_tls_stream = Plain 'p | Tls 't

definition poll_read ::
    "'p io_ops \<Rightarrow> 't io_ops \<Rightarrow> nat \<Rightarrow> ('p, 't) maybe_tls_stream \<Rightarrow> io_answer \<times> ('p, 't) maybe_tls_stream" where
  "poll_read P T room st =
     (case st of Plain s \<Rightarrow> map_prod id Plain (io_read P room s) | Tls s \<Rightarrow> map_prod id Tls (io_read T room s))"

definition poll_write ::
    "'p io_ops \<Rightarrow> 't io_ops \<Rightarrow> string \<Rightarrow> ('p, 't) maybe_tls_stream \<Rightarrow> io_answer \<times> ('p, 't) maybe_tls_stream" where
  "poll_write P T buf st =
     (case st of Plain s \<Rightarrow> map_prod id Plain (io_write P buf s) | Tls s \<Rightarrow> map_prod id Tls (io_write T buf s))"

definition poll_flush ::
    "'p io_ops \<Rightarrow> 't io_ops \<Rightarrow> ('p, 't) maybe_tls_stream \<Rightarrow> io_answer \<times> ('p, 't) maybe_tls_stream" where
  "poll_flush P T st =
     (case st of Plain s \<Rightarrow> map_prod id Plain (io_flush P s) | Tls s \<Rightarrow> map_prod id Tls (io_flush T s))"

definition poll_shutdown ::
    "'p io_ops \<Rightarrow> 't io_ops \<Rightarrow> ('p, 't) maybe_tls_stream \<Rightarrow> io_answer \<times> ('p, 't) maybe_tls_stream" where
  "poll_shutdown P T st =
     (case st of Plain s \<Rightarrow> map_prod id Plain (io_shutdown P s) | Tls s \<Rightarrow> map_prod id Tls (io_shutdown T s))"

section \<open>The wrapper is transparent\<close>

datatype io_call = Read nat | Write string | Flush | Shutdown

fun io_do :: "'s io_ops \<Rightarrow> io_call \<Rightarrow> 's \<Rightarrow> io_answer \<times> 's" where
  "io_do S (Read room) = io_read S room"
| "io_do S (Write buf) = io_write S buf"
| "io_do S Flush = io_flush S"
| "io_do S Shutdown = io_shutdown S"

fun io_calls :: "'s io_ops \<Rightarrow> io_call list \<Rightarrow> 's \<Rightarrow> io_answer list \<times> 's" where
  "io_calls S [] s = ([], s)"
| "io_calls S (c # cs) s = (let (a, s') = io_do S c s; (as, s'') = io_calls S cs s' in (a # as, s''))"

definition maybe_tls_ops :: "'p io_ops \<Rightarrow> 't io_ops \<Rightarrow> ('p, 't) maybe_tls_stream io_ops" where
  "maybe_tls_ops P T =
     \<lparr>io_read = poll_read P T, io_write = poll_write P T, io_flush = poll_flush P T, io_shutdown = poll_shutdown P T\<rparr>"

text \<open>A stream that is another one in disguise answers alike for ever.\<close>

locale stream_wrapper =
  fixes W :: "'w io_ops" and S :: "'s io_ops" and wrapped :: "'s \<Rightarrow> 'w"
  assumes delegates: "io_do W c (wrapped s) = map_prod id wrapped (io_do S c s)"
begin

lemma same_answers: "io_calls W cs (wrapped s) = map_prod id wrapped (io_calls S cs s)"
  by (induction cs arbitrary: s) (simp_all add: delegates Let_def map_prod_def split: prod.split)

end

lemmas poll_defs = maybe_tls_ops_def poll_read_def poll_write_def poll_flush_def poll_shutdown_def

interpretation plain: stream_wrapper "maybe_tls_ops P T" P Plain for P T
proof
  show "io_do (maybe_tls_ops P T) c (Plain s) = map_prod id Plain (io_do P c s)" for c s
    by (cases c) (simp_all add: poll_defs)
qed

interpretation encrypted: stream_wrapper "maybe_tls_ops P T" T Tls for P T
proof
  show "io_do (maybe_tls_ops P T) c (Tls s) = map_prod id Tls (io_do T c s)" for c s
    by (cases c) (simp_all add: poll_defs)
qed

text \<open>Behind \<open>MaybeTlsStream\<close> either kind of connection gives the answers it would give on its own.\<close>

lemma maybe_tls_transparent:
  "fst (io_calls (maybe_tls_ops P T) cs (Plain p)) = fst (io_calls P cs p)"
  "fst (io_calls (maybe_tls_ops P T) cs (Tls t)) = fst (io_calls T cs t)"
  by (simp_all add: plain.same_answers encrypted.same_answers)

text \<open>A handshake is given the certificate that was loaded last: the one a successful reload has just put in place, the old one
  after a failed reload.\<close>

lemma resolve_after_reload:
  "resolve (snd (tls_reload E fs tr))
     = (case load_certified E fs (tr_cert tr) (tr_key tr) of Inr ck \<Rightarrow> Some ck | Inl _ \<Rightarrow> resolve tr)"
  by (simp add: tls_reload_def resolve_def split: sum.split)

end
