(* ===== verification/Spec2Isabelle.thy ===== *)
theory Spec2Isabelle
  imports Gateway_Props Breaker_Conc Proxy_Breaker Forward_Chain Guarded Demo_Upstream Embedded Side_Tasks Tls_Stream
begin

text \<open>
  \<^bold>\<open>ferryman, a reverse proxy\<close>

  The program is two Rust crates under \<open>src/crates\<close>, with example programs that use them. \<open>core\<close> holds a lock-free circuit breaker per
  upstream, the routing table, the checks on request paths, the trusted-proxy ranges, the
  configuration and the health checker; \<open>server\<close> holds the request handler, hot reload, TLS, the admin
  server and the command line. A request comes in through \<open>serve\<close>, is handled by
  \<open>proxy::handle_streaming\<close> against a snapshot of the shared table, and, unless its client hangs up
  first, ends in one verdict on the breaker of its upstream. The health checker brings verdicts to the same breakers, and a reload
  builds a new table around them.

  \<^bold>\<open>Conventions.\<close> A Rust string or byte slice is the list of its bytes (\<open>string\<close>); machine integers are
  words, durations nanoseconds; a \<open>Result\<close> is \<open>(error, 'a) result\<close>, a sum with the error on the left.
  An \<open>Arc<Breaker>\<close> is an index into the \<open>store\<close> of breakers, so that sharing and reuse are visible.
  Code outside the sources is an argument of the definitions that call it: the operations of
  \<open>http::HeaderMap\<close> and its values (\<open>header_ops\<close>), the URI parsers (\<open>http_parsers\<close>, \<open>uri_ops\<close>), the toml
  crate, rustls and the hasher (\<open>reload_env\<close>), the HTTP client of the health checker, and, for the
  handler, everything that happens while it waits (\<open>world\<close>). What is assumed of the first two is stated
  in the locales \<open>header_map\<close> and \<open>uri_parser\<close>, each interpreted on a concrete instance.

  \<^bold>\<open>The theories, and the code they model\<close>

  \<^item> \<open>Ferryman_Prelude\<close>, \<open>Core_Error\<close>: integers, bytes, the string operations of the standard library,
    UTF-8; the error values of \<open>core/src/error.rs\<close>.
  \<^item> \<open>Atomics\<close>, \<open>Breaker\<close>: \<open>core/src/breaker.rs\<close>, every method as a program of single atomic actions.
    \<open>Breaker_Spec\<close> gives the abstract circuit, the contract \<open>circuit_breaker\<close>, and the refinement of it
    by the methods run one at a time; \<open>Breaker_Conc\<close> interleaves the same programs: every action
    follows an edge of the state machine, and at most one probe is handed out per cooldown.
    \<open>Shared_Breakers\<close> lifts the calls to the store.
  \<^item> \<open>Path_Normal\<close>, \<open>Route_Table\<close>: \<open>core/src/route.rs\<close>. Normalisation equals its loop and is normal;
    prefixes match by whole segments; \<open>lookup\<close> finds the longest prefix in any order of the routes;
    stripped paths are safe.
  \<^item> \<open>Bad_Path\<close>, \<open>Ambiguous\<close>: \<open>core/src/path.rs\<close>. \<open>bad_path\<close> refuses exactly the forbidden escapes and what
    an upstream could read as dot segments; an accepted path selects the same route however
    often and in whatever order its disguised slashes are decoded and its parameters dropped.
  \<^item> \<open>Std_Net\<close>, \<open>Proxies\<close>: address text and \<open>core/src/proxies.rs\<close>. Membership in a range is agreement on
    the prefix bits.
  \<^item> \<open>Config\<close>, \<open>Config_Reload\<close>: \<open>core/src/config.rs\<close>, every check of \<open>build_table\<close> in its order and the two
    loops that build a table. A refused configuration touches nothing, an accepted one is in range and
    is what the table implements, and a reload keeps the breaker of every upstream it keeps.
  \<^item> \<open>Health\<close>: \<open>core/src/health.rs\<close>. A tick judges each checked upstream on its own answer, in any order.
  \<^item> \<open>Headers\<close>, \<open>Header_Laws\<close>, \<open>Header_Props\<close>: the header functions of \<open>server/src/proxy.rs\<close>. An untrusted
    peer cannot forge any of the nine forwarding headers; behind trusted proxies the client is the rightmost address
    that is not one of them; no respelled header gets through.
  \<^item> \<open>Request_Body\<close>: \<open>RequestBody\<close> and the timer of \<open>handle_core\<close>, as a state machine over polls and timer
    events. Data passes unchanged, timeouts come late, the record of client stalls is exact.
  \<^item> \<open>Proxy\<close>: \<open>handle_core\<close>, \<open>handle_inner\<close> and the two public handlers. \<open>Proxy_Props\<close>: what is forwarded,
    target and every header. \<open>Proxy_Outcome\<close>: records, verdicts, timeouts. \<open>Proxy_Breaker\<close>: a failing upstream is cut off; the
    deprecated handler drops the probe of an upload that times out.
  \<^item> \<open>Addr_Roundtrip\<close>, \<open>Forward_Chain\<close>: the text of an address is read back as that address, so that a chain
    of appending proxies, the last of which trusts the others, reports the client the first one saw.
  \<^item> \<open>Reload\<close>: \<open>server/src/reload.rs\<close> and the certificate loading of \<open>server/src/tls.rs\<close>. A reload is all or
    nothing, the same bytes are not loaded twice, and no change is missed or postponed for ever.
  \<^item> \<open>Tls_Stream\<close>: the rest of \<open>server/src/tls.rs\<close>. The locale \<open>stream_wrapper\<close>, interpreted for plain and for TLS connections,
    shows that \<open>MaybeTlsStream\<close> is transparent; a handshake gets the certificate loaded last.
  \<^item> \<open>Triggers\<close>: the watched directories, the \<open>SIGHUP\<close> task of \<open>server/src/main.rs\<close> and the messages of
    \<open>server/src/sd_notify.rs\<close>. Every file that is re-read lies in a watched directory; every \<open>SIGHUP\<close> is acknowledged.
  \<^item> \<open>Server_Main\<close>: the commands and the start-up of \<open>server/src/main.rs\<close>, and \<open>server/src/admin.rs\<close>. \<open>check\<close> accepts
    what the validation of the start accepts. \<open>Boot\<close>: the order in which the server comes up; it is not announced before it
    listens, and after a successful \<open>check\<close> only the file watch, the \<open>PORT\<close> variable or a bind can keep it from coming up.
  \<^item> \<open>Serve\<close>: \<open>serve\<close> of \<open>server/src/lib.rs\<close> with the \<open>shutdown\<close> future of \<open>main\<close>, a timed state machine over clients,
    signals, reloads and failing \<open>accept\<close>s. Connections without a request are closed in time, and shutdown is orderly,
    bounded and always completes.
  \<^item> \<open>Guarded\<close>: the breaker around any call, \<open>core/examples/guarded_client.rs\<close> and \<open>examples/embedded/src/guarded.rs\<close>. A call
    that hangs counts as a failure; the HTTP client is the guarded call; the demonstration prints what it says.
  \<^item> \<open>Embedded\<close>: \<open>examples/embedded/src\<close>. A failed start leaves nothing behind, the shutdown has one deadline that is
    enough for the accept loop of \<open>Serve\<close> unless a reload lengthens its delay or drain meanwhile, and \<open>main\<close> can panic on an interval it has not validated.
  \<^item> \<open>Demo_Upstream\<close>: \<open>examples/full-stack/demo-upstream\<close>. It never panics, its fail mode is exact, and under the health
    checker of \<open>Health\<close> it is cut off and comes back.
  \<^item> \<open>Gateway_Spec\<close>, \<open>Gateway\<close>, \<open>Gateway_Refine\<close>, \<open>Gateway_Props\<close>: the request handler, the health checker and the reloader together,
    over one shared table and one store, as an event system whose events run the operations of the theories above, each
    event without interruption: a handler up to its wait or after it, the end of a health check, a whole reload. \<open>Gateway_Spec\<close>
    says what it promises: one circuit per upstream name, and who reports to which; its locale \<open>simulation\<close> carries a step
    correspondence to runs. \<open>Gateway_Refine\<close> interprets it on the event system; \<open>Gateway_Props\<close> draws the
    conclusions: every run of such events, from any well-formed state and from the start on, is a run of the abstract
    circuits, an open circuit outlasts reloads and late answers to ordinary requests, and a probe that is answered shuts it again.
  \<^item> \<open>Side_Tasks\<close>: the loops around the core, the accept loops of \<open>server/src/admin.rs\<close>, of the example programs and of
    \<open>server/examples/echo_upstream.rs\<close> (locale \<open>accept_loop\<close>), the upkeep of the recorder, the signals, the shutdown channel of
    the embedding example, and the commands of \<open>main\<close>.
  \<^item> \<open>Spec2Isabelle\<close>: request ids from the client to the upstream, the log and the response; the tables that are ever
    in place satisfy the bounds that the shutdown of \<open>Serve\<close> relies on.

  \<^bold>\<open>Loops and fuel.\<close> No definition uses fuel: every loop of the modelled code is a recursion on its
  input with a termination proof, the two waits of the program (the race of the handler and the file
  watch) are given the events that end them, a handler that is still waiting is \<open>None\<close>, the accept loop is a step
  relation, and the gateway and the loops beside it run over lists of the events that their \<open>select!\<close> took.

  \<^bold>\<open>Not modelled.\<close> Atomics are sequentially consistent; the weaker orderings of the code are not modelled. Interleavings of
  single atomic actions are modelled for the calls on one breaker (\<open>Breaker_Conc\<close>), not for whole handlers and reloads on several
  threads: the runs of \<open>Gateway\<close> are those in which its events do not overlap. hyper,
  tokio, rustls, the toml crate and the notify crate are arguments, or the environment of a step relation. The texts of
  error messages, tracing spans and measured durations, the parsing of the command line by clap, what the metrics
  recorder renders, and the variants for other systems than Unix are left out. \<open>core/src/lib.rs\<close> only re-exports.
\<close>

section \<open>Request ids, end to end\<close>

lemma valid_id_text: "header_map H \<Longrightarrow> valid_request_id v \<Longrightarrow> hv_from_str H v"
  by (erule header_map.from_str) (fastforce simp: valid_request_id_def visible_def value_char_def list_all_iff)

lemma echo_headers:
  assumes "header_map H" and "valid_request_id v" and "request_id t"
  shows "hm_get_all H (rs_headers (echo H t (Some v) rs)) ''x-request-id''
    = (case hm_get_all H (rs_headers rs) ''x-request-id'' of [] \<Rightarrow> [v] | vs \<Rightarrow> vs)"
  using assms valid_id_text [OF assms(1,2)] header_map.get_insert [OF assms(1)]
  by (auto simp: echo_def split: list.split)

lemma own_answer_headers:
  assumes "header_map H" and "handle_begin H U streaming t peer proto rq cx now s = (Answer rs, s')"
  shows "hm_get_all H (rs_headers rs) m = []"
  using assms(2) header_map.get_empty [OF assms(1)]
  by (auto simp: handle_begin_def admitted_def Let_def refuse_def error_response_def
      split: if_splits option.splits sum.splits prod.splits)

lemma forwarded_request_id:
  assumes "header_map H" and "handle_begin H U streaming t peer proto rq cx now s = (Forward fw, s')"
  shows "hm_get_all H (rq_headers (fw_request fw)) ''x-request-id'' = hm_get_all H (rq_headers rq) ''x-request-id''"
  using assms(2)
  by (rule handle_begin_ForwardE)
     (simp add: header_map.forwarded_plain [OF assms(1)] plain_names header_map.get_strip_hop_by_hop [OF assms(1)])

text \<open>C18. With \<open>request_id\<close> on, one id follows a request all the way, whatever the client sent: a valid id,
  that the upstream receives as the only \<open>x-request-id\<close>, that the access log carries, and that the
  response carries too, unless the upstream's response has an \<open>x-request-id\<close> of its own, which is kept.\<close>

theorem request_id_end_to_end:
  fixes rs :: "('h, 'b) response"
  assumes "header_map H" and "request_id t"
    and "handle_inner H U ready world streaming t peer proto rnd rq now s = Some (rs, s')"
  shows "\<exists>v rq1 log rs1. valid_request_id v \<and> identified H t rnd rq = (Some v, rq1)
    \<and> (log = None \<or> (\<exists>a. log = Some a \<and> ai_request_id a = Some v)) \<and> (log \<noteq> None \<longleftrightarrow> access_log t)
    \<and> handle_core H U ready world streaming t peer proto rq1 log now s = Some (rs1, s')
    \<and> (\<forall>fw s1. handle_begin H U streaming t peer proto rq1 log now s = ((Forward fw, s1) :: ('h, 'b) decision \<times> proxy_state)
         \<longrightarrow> hm_get_all H (rq_headers (fw_request fw)) ''x-request-id'' = [v])
    \<and> hm_get_all H (rs_headers rs) ''x-request-id''
        = (case hm_get_all H (rs_headers rs1) ''x-request-id'' of [] \<Rightarrow> [v] | vs \<Rightarrow> vs)
    \<and> (\<forall>s1. handle_begin H U streaming t peer proto rq1 log now s = (Answer rs1, s1)
         \<longrightarrow> hm_get_all H (rs_headers rs) ''x-request-id'' = [v])"
proof -
  obtain v h where e: "ensure_request_id H rnd (rq_headers rq) = (v, h)" by fastforce
  let ?rq = "rq\<lparr>rq_headers := h\<rparr>"
  let ?log = "if access_log t then Some (access_of H peer proto ?rq (Some v)) else None"
  have v: "valid_request_id v" "hm_get_all H h ''x-request-id'' = [v]"
    using request_id_valid [OF assms(1), of rnd "rq_headers rq"] by (simp_all add: e)
  have id: "identified H t rnd rq = (Some v, ?rq)" using assms(2) e by (simp add: identified_def)
  obtain rs1 where c: "handle_core H U ready world streaming t peer proto ?rq ?log now s = Some (rs1, s')"
    "rs = echo H t (Some v) rs1"
    using assms(3) by (auto simp: handle_inner_def id)
  have "hm_get_all H (rq_headers (fw_request fw)) ''x-request-id'' = [v]"
    if "handle_begin H U streaming t peer proto ?rq ?log now s = ((Forward fw, s1) :: ('h, 'b) decision \<times> proxy_state)" for fw s1
    using forwarded_request_id [OF assms(1) that] v(2) by simp
  moreover have r: "hm_get_all H (rs_headers rs) ''x-request-id''
      = (case hm_get_all H (rs_headers rs1) ''x-request-id'' of [] \<Rightarrow> [v] | vs \<Rightarrow> vs)"
    using echo_headers [OF assms(1) v(1) assms(2)] c(2) by simp
  moreover have "hm_get_all H (rs_headers rs) ''x-request-id'' = [v]"
    if "handle_begin H U streaming t peer proto ?rq ?log now s = (Answer rs1, s1)" for s1
    using own_answer_headers [OF assms(1) that] r by simp
  ultimately show ?thesis using v(1) id c(1)
    by (intro exI [of _ v] exI [of _ ?rq] exI [of _ ?log] exI [of _ rs1]) (auto simp: access_of_def)
qed

theorem request_id_end_to_end_witness:
  "\<exists>rs s' v. handle_inner list_headers split_uris (\<lambda>d n. d \<le> n) (answering 200) True (with_request_id True demo_table)
       (V4 0x05050505) ''https'' (255, 16) (demo_request ''GET'' ''/api/x'' [(''x-request-id'', ''a b'')] True) 0
       (demo_state default_breaker 5) = Some (rs, s')
     \<and> valid_request_id v \<and> hm_get_all list_headers (rs_headers rs) ''x-request-id'' = [v]"
proof -
  let ?c = "handle_inner list_headers split_uris (\<lambda>d n. d \<le> n) (answering 200) True (with_request_id True demo_table)
       (V4 0x05050505) ''https'' (255, 16) (demo_request ''GET'' ''/api/x'' [(''x-request-id'', ''a b'')] True) 0
       (demo_state default_breaker 5)"
  have "map_option (\<lambda>r. hm_get_all list_headers (rs_headers (fst r)) ''x-request-id'') ?c
      = Some [''00000000000000ff0000000000000010'']" by code_simp
  then obtain rs s' where c: "?c = Some (rs, s')"
    "hm_get_all list_headers (rs_headers rs) ''x-request-id'' = [''00000000000000ff0000000000000010'']" by auto
  have t: "request_id (with_request_id True demo_table)" by (simp add: with_request_id_def)
  obtain v rq1 where v: "valid_request_id v"
    "identified list_headers (with_request_id True demo_table) (255, 16)
       (demo_request ''GET'' ''/api/x'' [(''x-request-id'', ''a b'')] True) = (Some v, rq1)"
    using request_id_end_to_end [OF list_headers_ok t c(1)] by blast
  have "fst (identified list_headers (with_request_id True demo_table) (255, 16)
       (demo_request ''GET'' ''/api/x'' [(''x-request-id'', ''a b'')] True)) = Some ''00000000000000ff0000000000000010''"
    by code_simp
  then have "v = ''00000000000000ff0000000000000010''" using v(2) by simp
  then show ?thesis using c v(1) by blast
qed

section \<open>Tables in place and shutting down\<close>

text \<open>Every table that a start or a reload puts in place was built by \<open>build_table\<close>, which refuses delays and drain times of more
  than a day: such tables satisfy the hypothesis under which \<open>Serve\<close> bounds the shutdown.\<close>

lemma accepted_within:
  assumes "build_table H cfg prev s = (Inr t, s')"
  shows "within 0 (from_secs 86400) (from_secs 1) (from_secs 86400) t"
proof -
  obtain proxies rs where t: "check_top H cfg = None" "t = finish_table cfg proxies rs"
    using assms unfolding build_table_def by (auto split: option.splits sum.splits prod.splits)
  have "check_secs (''drain_timeout_secs'', c_drain_timeout_secs cfg) = None" "check_shutdown_delay cfg = None"
    using t(1) by (auto simp: check_top_def first_error_None secs_keys_def)
  then show ?thesis
    by (auto simp: check_secs_None t(2) within_def finish_table_def with_defs check_shutdown_delay_def max_secs_def
        word_less_nat_alt split: if_splits)
qed

end
